(* ===== verification/Prelude.thy ===== *)
theory Prelude
  imports Main "HOL-Library.Word"
begin

section \<open>Shared types, hints and lemmas\<close>

text \<open>
  What every component of the model shares: the C integer types as machine words, C pointers
  that may be NULL, the block copy that stands for \<^verbatim>\<open>memcpy\<close>, and the generic facts on words,
  bytes and lists that the component proofs use.
  \<^item> \<^verbatim>\<open>uint8_t\<close>, \<^verbatim>\<open>uint16_t\<close>, \<^verbatim>\<open>uint32_t\<close> and \<^verbatim>\<open>uint64_t\<close> are words of their width.
  \<^item> \<^verbatim>\<open>size_t\<close> and \<^verbatim>\<open>unsigned\<close> counters are \<open>nat\<close>: each subtraction of the C code on a
    \<^verbatim>\<open>size_t\<close> stands behind a comparison that keeps it from wrapping, and each model definition
    keeps that comparison in front of it.
  \<^item> A pointer parameter that the C code compares with NULL is a value of type \<open>'a ptr\<close>.
  \<^item> An out-parameter is the function's result, \<open>None\<close> where the C function returns false and
    leaves the pointed-to object as it was. Where the code compares the out-pointer itself
    with NULL, the model takes a flag of type \<open>out\<close>, true for a usable pointer.
\<close>

unbundle bit_operations_syntax

type_synonym u8 = "8 word"
type_synonym u16 = "16 word"
type_synonym u32 = "32 word"
type_synonym u64 = "64 word"

type_synonym 'a ptr = "'a option"
type_synonym out = bool

abbreviation (input) NULL :: "'a ptr" where "NULL \<equiv> None"
abbreviation (input) Ref :: "'a \<Rightarrow> 'a ptr" where "Ref x \<equiv> Some x"

subsection \<open>Hint collections\<close>

text \<open>
  \<open>mem_simps\<close>: definedness and value of the memory accesses; \<open>bytes_simps\<close>: splitting a word
  into bytes and joining the bytes again; \<open>size_simps\<close>: the numeric constants of the headers.
\<close>

named_theorems mem_simps
named_theorems bytes_simps
named_theorems size_simps

subsection \<open>Block copy\<close>

text \<open>\<open>blit dst at src\<close> is \<^verbatim>\<open>memcpy(dst + at, src, length src)\<close> on arrays seen as lists.\<close>

definition blit :: "'a list \<Rightarrow> nat \<Rightarrow> 'a list \<Rightarrow> 'a list" where
  "blit dst at src = take at dst @ src @ drop (at + length src) dst"

lemma length_blit [simp]: "at + length src \<le> length dst \<Longrightarrow> length (blit dst at src) = length dst"
  by (simp add: blit_def)

lemma nth_blit_inside:
  "at + length src \<le> length dst \<Longrightarrow> at \<le> i \<Longrightarrow> i < at + length src \<Longrightarrow>
    blit dst at src ! i = src ! (i - at)"
  by (auto simp: blit_def nth_append min_def)

lemma nth_blit_outside:
  "at + length src \<le> length dst \<Longrightarrow> i < at \<or> at + length src \<le> i \<Longrightarrow> i < length dst \<Longrightarrow>
    blit dst at src ! i = dst ! i"
  by (auto simp: blit_def nth_append min_def)

lemma blit_whole: "length src = length dst \<Longrightarrow> blit dst 0 src = src"
  by (simp add: blit_def)

lemma blit_snoc:
  "at + length src + length more \<le> length dst \<Longrightarrow>
    blit (blit dst at src) (at + length src) more = blit dst at (src @ more)"
  by (cases src) (auto simp: blit_def min_def ac_simps)

lemma blit_take_self:
  "at + n \<le> length dst \<Longrightarrow> blit dst at (take n (drop at dst)) = dst"
  by (simp add: blit_def min_def) (metis append_take_drop_id drop_drop add.commute)

lemma blit_blit_same:
  "length src = length src' \<Longrightarrow> at + length src \<le> length dst \<Longrightarrow>
    blit (blit dst at src) at src' = blit dst at src'"
  by (simp add: blit_def)

lemma take_blit: "at \<le> length dst \<Longrightarrow> take at (blit dst at src) = take at dst"
  by (simp add: blit_def)

lemma take_drop_Cons: "n < length xs \<Longrightarrow> take (Suc k) (drop n xs) = xs ! n # take k (drop (Suc n) xs)"
  by (simp add: Cons_nth_drop_Suc [symmetric])

lemma blit_Cons: "n < length xs \<Longrightarrow> blit xs n (y # ys) = blit (xs[n := y]) (Suc n) ys"
  by (simp add: blit_def take_Suc_conv_app_nth)

lemma blit_Nil [simp]: "blit xs n [] = xs"
  by (simp add: blit_def)

lemma slice_2:
  assumes "n + 2 \<le> length xs"
  shows "take 2 (drop n xs) = [xs ! n, xs ! (n + 1)]"
    and "blit xs n [p, q] = xs[n := p, n + 1 := q]"
  using assms by (simp_all add: numeral_2_eq_2 take_drop_Cons blit_Cons)

lemma slice_4:
  assumes "n + 4 \<le> length xs"
  shows "take 4 (drop n xs) = [xs ! n, xs ! (n + 1), xs ! (n + 2), xs ! (n + 3)]"
    and "blit xs n [p, q, r, s] = xs[n := p, n + 1 := q, n + 2 := r, n + 3 := s]"
  using assms by (simp_all add: eval_nat_numeral take_drop_Cons blit_Cons)

subsection \<open>Bytes of a word\<close>

text \<open>The value of bytes in memory order, the least significant byte first.\<close>

fun le_value :: "u8 list \<Rightarrow> nat" where
  "le_value [] = 0"
| "le_value (b # bs) = unat b + 256 * le_value bs"

lemma byte_bound: "unat (b :: u8) < 256"
  using unsigned_less [of b, where ?'a = nat] by simp

lemma le_value_bound: "le_value bs < 256 ^ length bs"
proof (induction bs)
  case Nil
  then show ?case by simp
next
  case (Cons b bs)
  with byte_bound [of b] show ?case by simp
qed

lemma le_value_append: "le_value (xs @ ys) = le_value xs + 256 ^ length xs * le_value ys"
  by (induction xs) (simp_all add: algebra_simps)

lemma le_value_Cons_div_mod:
  "le_value (b # bs) mod 256 = unat b" "le_value (b # bs) div 256 = le_value bs"
  using byte_bound [of b] by simp_all

lemma le_value_inj: "length xs = length ys \<Longrightarrow> le_value xs = le_value ys \<Longrightarrow> xs = ys"
proof (induction xs ys rule: list_induct2)
  case Nil
  then show ?case by simp
next
  case (Cons x xs y ys)
  then have "unat x = unat y" "le_value xs = le_value ys"
    by (metis le_value_Cons_div_mod)+
  with Cons.IH show ?case by (simp add: word_unat_eq_iff)
qed

text \<open>
  The expressions with which \<^verbatim>\<open>memory.c\<close> joins bytes to a halfword and a word, and the laws that
  tie them to the expressions with which it takes a value apart.
\<close>

abbreviation join16 :: "u8 \<Rightarrow> u8 \<Rightarrow> u16" where
  "join16 b0 b1 \<equiv> ucast ((ucast b0 :: u32) OR push_bit 8 (ucast b1))"

abbreviation join32 :: "u8 \<Rightarrow> u8 \<Rightarrow> u8 \<Rightarrow> u8 \<Rightarrow> u32" where
  "join32 b0 b1 b2 b3 \<equiv> ucast b0 OR push_bit 8 (ucast b1) OR push_bit 16 (ucast b2) OR push_bit 24 (ucast b3)"

lemma join16_split [bytes_simps]: "join16 (ucast v) (ucast (drop_bit 8 v)) = v"
  by (rule bit_word_eqI) (auto simp: bit_simps)

lemma byte_cases_32:
  fixes n :: nat
  assumes "n < 32"
  obtains "n < 8" | "8 \<le> n" "n < 16" | "16 \<le> n" "n < 24" | "24 \<le> n" "n < 32"
  using assms by linarith

lemma join32_split [bytes_simps]:
  "join32 (ucast v) (ucast (drop_bit 8 v)) (ucast (drop_bit 16 v)) (ucast (drop_bit 24 v)) = v"
proof (rule bit_word_eqI)
  fix n assume "n < LENGTH(32)"
  then have "n < 32" by simp
  then show "bit (join32 (ucast v) (ucast (drop_bit 8 v)) (ucast (drop_bit 16 v))
    (ucast (drop_bit 24 v))) n = bit v n"
    by (rule byte_cases_32) (auto simp: bit_simps)
qed

lemma split_join16 [bytes_simps]:
  "ucast (join16 b0 b1) = b0" "ucast (drop_bit 8 (join16 b0 b1)) = b1"
  by (rule bit_word_eqI, auto simp: bit_simps dest: bit_imp_le_length)+

lemma split_join32 [bytes_simps]:
  "ucast (join32 b0 b1 b2 b3) = b0"
  "ucast (drop_bit 8 (join32 b0 b1 b2 b3)) = b1"
  "ucast (drop_bit 16 (join32 b0 b1 b2 b3)) = b2"
  "ucast (drop_bit 24 (join32 b0 b1 b2 b3)) = b3"
  by (rule bit_word_eqI, auto simp: bit_simps dest: bit_imp_le_length)+

lemma unat_byte_of: "unat (ucast (drop_bit k (v :: 'a::len word)) :: u8) = unat v div 2 ^ k mod 256"
proof -
  have "unat (ucast (drop_bit k v) :: u8) = take_bit 8 (drop_bit k (unat v))"
    by (simp only: unsigned_ucast_eq unsigned_drop_bit_eq)
      (simp add: take_bit_nat_eq_self [OF unsigned_less])
  then show ?thesis by (simp add: take_bit_eq_mod drop_bit_eq_div)
qed

lemma nat_bytes_glue:
  fixes n :: nat
  assumes "a + 256 * p = n" and "b + 256 * q = p" and "c + 256 * r = q"
  shows "a + (256 * b + (65536 * c + 16777216 * r)) = n"
  using assms by linarith

lemma nat_bytes_sum:
  fixes n :: nat
  shows "n mod 256 + (256 * (n div 256 mod 256) + (65536 * (n div 65536 mod 256) +
    16777216 * (n div 16777216))) = n"
proof -
  have eqs: "n div 65536 = n div 256 div 256" "n div 16777216 = n div 256 div 256 div 256"
    by (simp_all add: div_mult2_eq [symmetric])
  show ?thesis
    unfolding eqs by (rule nat_bytes_glue) (rule mod_mult_div_eq)+
qed

lemma le_value_bytes16: "le_value [ucast (v :: u16), ucast (drop_bit 8 v)] = unat v"
proof -
  have "unat v < 65536" using unsigned_less [of v, where ?'a = nat] by simp
  then show ?thesis using unat_byte_of [of 0 v] unat_byte_of [of 8 v] by simp
qed

lemma le_value_bytes32:
  "le_value [ucast (v :: u32), ucast (drop_bit 8 v), ucast (drop_bit 16 v), ucast (drop_bit 24 v)] = unat v"
proof -
  have "unat v < 4294967296" using unsigned_less [of v, where ?'a = nat] by simp
  then show ?thesis
    using unat_byte_of [of 0 v] unat_byte_of [of 8 v] unat_byte_of [of 16 v] unat_byte_of [of 24 v]
      nat_bytes_sum [of "unat v"] by simp
qed

lemma unat_join16: "unat (join16 b0 b1) = le_value [b0, b1]"
  using le_value_bytes16 [of "join16 b0 b1"] by (simp only: split_join16)

lemma unat_join32: "unat (join32 b0 b1 b2 b3) = le_value [b0, b1, b2, b3]"
  using le_value_bytes32 [of "join32 b0 b1 b2 b3"] by (simp only: split_join32)

subsection \<open>Words bit by bit\<close>

text \<open>A 32-bit equality as 32 bit equalities, which the simplifier decides one by one.\<close>

lemma bit_beyond: "LENGTH('a) \<le> n \<Longrightarrow> \<not> bit (w :: 'a::len word) n"
  using bit_imp_le_length [of w n] by auto

lemma all_bits_32:
  fixes P :: "nat \<Rightarrow> bool"
  assumes "P 0 \<and> P 1 \<and> P 2 \<and> P 3 \<and> P 4 \<and> P 5 \<and> P 6 \<and> P 7 \<and> P
    8 \<and> P 9 \<and> P 10 \<and> P 11 \<and> P 12 \<and> P 13 \<and> P 14 \<and> P 15
    \<and> P 16 \<and> P 17 \<and> P 18 \<and> P 19 \<and> P 20 \<and> P 21 \<and> P 22 \<and>
    P 23 \<and> P 24 \<and> P 25 \<and> P 26 \<and> P 27 \<and> P 28 \<and> P 29 \<and> P 30
    \<and> P 31"
  shows "n < 32 \<Longrightarrow> P n"
proof -
  have "list_all P [0..<32]"
    unfolding upt_rec_numeral using assms by (simp add: numeral_eq_Suc)
  then show "n < 32 \<Longrightarrow> P n" by (simp add: list_all_iff)
qed

lemma u32_eq_bits:
  fixes v w :: u32
  assumes "bit v 0 = bit w 0 \<and> bit v 1 = bit w 1 \<and> bit v 2 = bit w 2 \<and> bit v 3 = bit w
    3 \<and> bit v 4 = bit w 4 \<and> bit v 5 = bit w 5 \<and> bit v 6 = bit w 6 \<and> bit v
    7 = bit w 7 \<and> bit v 8 = bit w 8 \<and> bit v 9 = bit w 9 \<and> bit v 10 = bit w 10
    \<and> bit v 11 = bit w 11 \<and> bit v 12 = bit w 12 \<and> bit v 13 = bit w 13 \<and>
    bit v 14 = bit w 14 \<and> bit v 15 = bit w 15 \<and> bit v 16 = bit w 16 \<and> bit v 17
    = bit w 17 \<and> bit v 18 = bit w 18 \<and> bit v 19 = bit w 19 \<and> bit v 20 = bit w
    20 \<and> bit v 21 = bit w 21 \<and> bit v 22 = bit w 22 \<and> bit v 23 = bit w 23 \<and>
    bit v 24 = bit w 24 \<and> bit v 25 = bit w 25 \<and> bit v 26 = bit w 26 \<and> bit v 27
    = bit w 27 \<and> bit v 28 = bit w 28 \<and> bit v 29 = bit w 29 \<and> bit v 30 = bit w
    30 \<and> bit v 31 = bit w 31"
  shows "v = w"
proof (rule bit_word_eqI)
  fix n assume "n < LENGTH(32)"
  then show "bit v n = bit w n"
    using all_bits_32 [of "\<lambda>n. bit v n = bit w n" n, OF assms] by simp
qed

subsection \<open>Loop counters\<close>

lemma unat_inc: "a < b \<Longrightarrow> unat (a + 1) = Suc (unat a)" for a b :: "'a::len word"
proof -
  assume "a < b"
  then have "Suc (unat a) \<le> unat b" by (simp add: word_less_nat_alt)
  also have "\<dots> < 2 ^ LENGTH('a)" by (rule unsigned_less)
  finally show ?thesis by (simp add: unat_word_ariths)
qed

lemma uint_and_255: "uint (c AND 255 :: u32) = uint c mod 256"
proof -
  have "c AND 255 = take_bit 8 c" by (simp add: take_bit_eq_mask mask_eq_exp_minus_1)
  then have "uint (c AND 255) = take_bit 8 (uint c)" by (simp only: unsigned_take_bit_eq)
  then show ?thesis by (simp add: take_bit_eq_mod)
qed

lemma unat_inc_measure: "a < b \<Longrightarrow> unat b - unat (a + 1) < unat b - unat a" for a b :: "'a::len word"
  by (simp add: unat_inc word_less_nat_alt)

lemma less_inc_iff: "a < b \<Longrightarrow> x < a + 1 \<longleftrightarrow> x < a \<or> x = a" for a b x :: "'a::len word"
  by (auto simp: word_less_nat_alt unat_inc less_Suc_eq word_unat_eq_iff)

subsection \<open>The first element with a property\<close>

lemma find_None_all: "(\<And>x. x \<in> set xs \<Longrightarrow> \<not> P x) \<Longrightarrow> find P xs = None"
  by (induction xs) auto

lemma find_append: "find P (xs @ ys) = (case find P xs of None \<Rightarrow> find P ys | Some x \<Rightarrow> Some x)"
  by (induction xs) auto

lemma find_SomeD: "find P xs = Some x \<Longrightarrow> x \<in> set xs \<and> P x"
  by (induction xs) (auto split: if_splits)

end
