(* ===== verification/Memory.thy ===== *)
theory Memory
  imports Prelude
begin

section \<open>Guest RAM\<close>

text \<open>
  The model of \<^verbatim>\<open>include/memory.h\<close> and \<^verbatim>\<open>src/memory.c\<close>: an owned byte array with its size, its
  lifecycle (allocate, destroy, clear, copy, clone) and the checked little-endian accesses of
  8, 16 and 32 bits. \<^verbatim>\<open>calloc\<close> may fail, so the operations that allocate take the outcome of
  each allocation as a flag. The theory then shows the allocation invariant, when exactly an
  access is accepted, what value it reads in memory order, and, as the interface
  \<open>sized_cell\<close> that the CPU relies on, how reads and writes of one width interact.
\<close>

subsection \<open>Constants and the owner record\<close>

definition MEMORY_BYTE_SIZE :: nat where [size_simps]: "MEMORY_BYTE_SIZE = 1"
definition MEMORY_HALFWORD_SIZE :: nat where [size_simps]: "MEMORY_HALFWORD_SIZE = 2"
definition MEMORY_WORD_SIZE :: nat where [size_simps]: "MEMORY_WORD_SIZE = 4"
definition MEMORY_KIB :: nat where [size_simps]: "MEMORY_KIB = 1024"
definition MEMORY_MIB :: nat where [size_simps]: "MEMORY_MIB = 1024 * MEMORY_KIB"
definition MEMORY_DEFAULT_SIZE :: nat where [size_simps]: "MEMORY_DEFAULT_SIZE = 64 * MEMORY_KIB"
definition MEMORY_MAX_SIZE :: nat where [size_simps]: "MEMORY_MAX_SIZE = 256 * MEMORY_MIB"

record memory =
  mem_bytes :: "u8 list ptr"
  mem_size :: nat

definition zero_memory :: memory where
  "zero_memory = \<lparr>mem_bytes = NULL, mem_size = 0\<rparr>"

subsection \<open>Checks\<close>

definition memory_size_valid :: "nat \<Rightarrow> bool" where
  "memory_size_valid sz \<longleftrightarrow>
     sz \<ge> MEMORY_WORD_SIZE \<and> sz \<le> MEMORY_MAX_SIZE \<and> sz mod MEMORY_WORD_SIZE = 0"

definition memory_ready :: "memory ptr \<Rightarrow> bool" where
  "memory_ready m \<longleftrightarrow>
     (case m of NULL \<Rightarrow> False
      | Ref mem \<Rightarrow> mem_bytes mem \<noteq> NULL \<and> memory_size_valid (mem_size mem))"

definition memory_access_valid :: "memory ptr \<Rightarrow> u32 \<Rightarrow> nat \<Rightarrow> bool" where
  "memory_access_valid m address width \<longleftrightarrow>
     memory_ready m
     \<and> width > 0
     \<and> width \<le> mem_size (the m)
     \<and> unat address \<le> mem_size (the m) - width
     \<and> unat address mod width = 0"

text \<open>The array behind a memory that passed \<open>memory_ready\<close>.\<close>

abbreviation bytes_of :: "memory \<Rightarrow> u8 list" where
  "bytes_of mem \<equiv> the (mem_bytes mem)"

subsection \<open>Lifecycle\<close>

text \<open>
  \<open>None\<close> is the result false, with the object unchanged; \<open>Some\<close> is the object after success.
  \<open>calloc_ok\<close> tells whether \<^verbatim>\<open>calloc\<close> returned storage.
\<close>

definition memory_init :: "memory ptr \<Rightarrow> nat \<Rightarrow> bool \<Rightarrow> memory option" where
  "memory_init m sz calloc_ok =
     (case m of NULL \<Rightarrow> None
      | Ref mem \<Rightarrow>
          if mem_bytes mem \<noteq> NULL \<or> mem_size mem \<noteq> 0 \<or> \<not> memory_size_valid sz then None
          else if \<not> calloc_ok then None
          else Some \<lparr>mem_bytes = Ref (replicate sz 0), mem_size = sz\<rparr>)"

definition memory_destroy :: "memory ptr \<Rightarrow> memory ptr" where
  "memory_destroy m = (case m of NULL \<Rightarrow> NULL | Ref mem \<Rightarrow> Ref zero_memory)"

definition memory_reset :: "memory ptr \<Rightarrow> memory ptr" where
  "memory_reset m =
     (if memory_ready m
      then Ref ((the m)\<lparr>mem_bytes :=
             Ref (blit (bytes_of (the m)) 0 (replicate (mem_size (the m)) 0))\<rparr>)
      else m)"

text \<open>
  Where source and destination own the same array the C code skips \<^verbatim>\<open>memcpy\<close>, which leaves the
  array as it is; copying an array onto itself gives the same value.
\<close>

definition memory_copy :: "memory ptr \<Rightarrow> memory ptr \<Rightarrow> memory option" where
  "memory_copy source destination =
     (if \<not> memory_ready source \<or> \<not> memory_ready destination
         \<or> mem_size (the source) \<noteq> mem_size (the destination)
      then None
      else Some ((the destination)\<lparr>mem_bytes :=
             Ref (blit (bytes_of (the destination)) 0
                    (take (mem_size (the source)) (bytes_of (the source))))\<rparr>))"

text \<open>\<open>same\<close>: the two pointers are equal, \<^verbatim>\<open>source == destination\<close>.\<close>

definition memory_clone :: "bool \<Rightarrow> memory ptr \<Rightarrow> memory ptr \<Rightarrow> bool \<Rightarrow> memory option" where
  "memory_clone same source destination calloc_ok =
     (if \<not> memory_ready source \<or> destination = NULL
         \<or> (if mem_bytes (the destination) = NULL then mem_size (the destination) \<noteq> 0
            else \<not> memory_ready destination)
      then None
      else if same then Some (the destination)
      else
        (case memory_init (Ref zero_memory) (mem_size (the source)) calloc_ok of
           None \<Rightarrow> None
         | Some copy \<Rightarrow>
             Some (copy\<lparr>mem_bytes :=
               Ref (blit (bytes_of copy) 0
                      (take (mem_size (the source)) (bytes_of (the source))))\<rparr>)))"

subsection \<open>Accesses\<close>

definition memory_read_u8 :: "memory ptr \<Rightarrow> u32 \<Rightarrow> out \<Rightarrow> u8 option" where
  "memory_read_u8 m address value =
     (if \<not> value \<or> \<not> memory_access_valid m address MEMORY_BYTE_SIZE then None
      else Some (bytes_of (the m) ! unat address))"

definition memory_write_u8 :: "memory ptr \<Rightarrow> u32 \<Rightarrow> u8 \<Rightarrow> memory option" where
  "memory_write_u8 m address value =
     (if \<not> memory_access_valid m address MEMORY_BYTE_SIZE then None
      else Some ((the m)\<lparr>mem_bytes := Ref ((bytes_of (the m))[unat address := value])\<rparr>))"

definition memory_read_u16 :: "memory ptr \<Rightarrow> u32 \<Rightarrow> out \<Rightarrow> u16 option" where
  "memory_read_u16 m address value =
     (if \<not> value \<or> \<not> memory_access_valid m address MEMORY_HALFWORD_SIZE then None
      else Some (ucast
        ((ucast (bytes_of (the m) ! unat address) :: u32)
         OR push_bit 8 (ucast (bytes_of (the m) ! unat (address + 1))))))"

definition memory_write_u16 :: "memory ptr \<Rightarrow> u32 \<Rightarrow> u16 \<Rightarrow> memory option" where
  "memory_write_u16 m address value =
     (if \<not> memory_access_valid m address MEMORY_HALFWORD_SIZE then None
      else Some ((the m)\<lparr>mem_bytes := Ref ((bytes_of (the m))
        [unat address := ucast value,
         unat (address + 1) := ucast (drop_bit 8 value)])\<rparr>))"

definition memory_read_u32 :: "memory ptr \<Rightarrow> u32 \<Rightarrow> out \<Rightarrow> u32 option" where
  "memory_read_u32 m address value =
     (if \<not> value \<or> \<not> memory_access_valid m address MEMORY_WORD_SIZE then None
      else Some
        (ucast (bytes_of (the m) ! unat address)
         OR push_bit 8 (ucast (bytes_of (the m) ! unat (address + 1)))
         OR push_bit 16 (ucast (bytes_of (the m) ! unat (address + 2)))
         OR push_bit 24 (ucast (bytes_of (the m) ! unat (address + 3)))))"

definition memory_write_u32 :: "memory ptr \<Rightarrow> u32 \<Rightarrow> u32 \<Rightarrow> memory option" where
  "memory_write_u32 m address value =
     (if \<not> memory_access_valid m address MEMORY_WORD_SIZE then None
      else Some ((the m)\<lparr>mem_bytes := Ref ((bytes_of (the m))
        [unat address := ucast value,
         unat (address + 1) := ucast (drop_bit 8 value),
         unat (address + 2) := ucast (drop_bit 16 value),
         unat (address + 3) := ucast (drop_bit 24 value)])\<rparr>))"

subsection \<open>The allocation invariant\<close>

text \<open>
  A memory is either empty, as \<^verbatim>\<open>{0}\<close> leaves it, or owns an array whose length is its valid size.
\<close>

definition memory_wf :: "memory \<Rightarrow> bool" where
  "memory_wf mem \<longleftrightarrow>
     (case mem_bytes mem of
        NULL \<Rightarrow> mem_size mem = 0
      | Ref bs \<Rightarrow> length bs = mem_size mem \<and> memory_size_valid (mem_size mem))"

lemma memory_wf_zero [simp, intro]: "memory_wf zero_memory"
  by (simp add: memory_wf_def zero_memory_def)

lemma memory_size_validD:
  "memory_size_valid sz \<Longrightarrow> 4 \<le> sz \<and> sz \<le> 268435456 \<and> sz mod 4 = 0"
  by (simp add: memory_size_valid_def size_simps)

lemma memory_ready_iff:
  "memory_wf mem \<Longrightarrow> memory_ready (Ref mem) \<longleftrightarrow> mem_bytes mem \<noteq> NULL"
  by (auto simp: memory_wf_def memory_ready_def split: option.splits)

lemma memory_ready_cases:
  assumes "memory_ready m"
  obtains mem bs where "m = Ref mem" "mem_bytes mem = Ref bs" "memory_size_valid (mem_size mem)"
  using assms by (auto simp: memory_ready_def split: option.splits)

lemma memory_wf_bytes: "memory_wf mem \<Longrightarrow> mem_bytes mem = Ref bs \<Longrightarrow> length bs = mem_size mem"
  by (simp add: memory_wf_def)

lemma memory_init_wf: "memory_init m sz ok = Some mem' \<Longrightarrow> memory_wf mem'"
  by (auto simp: memory_init_def memory_wf_def split: option.splits if_splits)

lemma memory_destroy_wf: "memory_destroy (Ref mem) = Ref mem' \<Longrightarrow> memory_wf mem'"
  by (auto simp: memory_destroy_def)

lemma memory_reset_wf: "memory_wf mem \<Longrightarrow> memory_reset (Ref mem) = Ref mem' \<Longrightarrow> memory_wf mem'"
  by (auto simp: memory_reset_def memory_wf_def memory_ready_def split: option.splits if_splits)

lemma memory_copy_wf:
  assumes "memory_wf src" "memory_wf dst" "memory_copy (Ref src) (Ref dst) = Some dst'"
  shows "memory_wf dst'" and "mem_bytes dst' = mem_bytes src" and "mem_size dst' = mem_size src"
  using assms
  by (auto simp: memory_copy_def memory_wf_def memory_ready_def blit_whole split: option.splits if_splits)

lemma memory_clone_wf:
  assumes "memory_wf src" "memory_clone same (Ref src) dst ok = Some dst'" "same \<longrightarrow> dst = Ref src"
  shows "memory_wf dst'" and "mem_bytes dst' = mem_bytes src" and "mem_size dst' = mem_size src"
  using assms
  by (auto simp: memory_clone_def memory_wf_def memory_ready_def memory_init_def zero_memory_def
      blit_whole split: option.splits if_splits)

lemma memory_clone_defined:
  "memory_ready (Ref src) \<Longrightarrow> memory_clone False (Ref src) (Ref zero_memory) ok \<noteq> None \<longleftrightarrow> ok"
  by (auto simp: memory_clone_def memory_init_def zero_memory_def memory_ready_def
      split: option.splits)

subsection \<open>When an access is accepted\<close>

lemma memory_access_valid_iff:
  assumes "memory_wf mem"
  shows "memory_access_valid (Ref mem) a w \<longleftrightarrow>
     mem_bytes mem \<noteq> NULL \<and> 0 < w \<and> unat a + w \<le> mem_size mem \<and> w dvd unat a"
  using assms by (auto simp: memory_access_valid_def memory_ready_iff dvd_eq_mod_eq_0)

lemma memory_access_valid_fits:
  assumes "memory_wf mem" "memory_access_valid (Ref mem) a w"
  obtains bs where "mem_bytes mem = Ref bs" "length bs = mem_size mem" "unat a + w \<le> length bs"
    "length bs \<le> 268435456"
  using assms memory_size_validD
  by (auto simp: memory_access_valid_iff memory_wf_def split: option.splits)

lemma memory_access_valid_same_size:
  assumes "memory_wf mem" "memory_wf mem'" "mem_size mem' = mem_size mem"
  shows "memory_access_valid (Ref mem') a w = memory_access_valid (Ref mem) a w"
proof -
  have "mem_bytes mem' = NULL \<longleftrightarrow> mem_bytes mem = NULL"
    using assms by (auto simp: memory_wf_def memory_size_valid_def size_simps split: option.splits)
  with assms show ?thesis by (simp add: memory_access_valid_iff)
qed

lemma unat_add_small:
  fixes a b :: u32
  shows "unat a + unat b < 4294967296 \<Longrightarrow> unat (a + b) = unat a + unat b"
  by (simp add: unat_word_ariths)

subsection \<open>Cells of one width\<close>

text \<open>The bytes of a value in memory order.\<close>

definition bytes8 :: "u8 \<Rightarrow> u8 list" where "bytes8 v = [v]"
definition bytes16 :: "u16 \<Rightarrow> u8 list" where "bytes16 v = [ucast v, ucast (drop_bit 8 v)]"
definition bytes32 :: "u32 \<Rightarrow> u8 list" where
  "bytes32 v = [ucast v, ucast (drop_bit 8 v), ucast (drop_bit 16 v), ucast (drop_bit 24 v)]"

lemma le_value_bytes8: "le_value (bytes8 v) = unat v" by (simp add: bytes8_def)

lemmas le_value_bytes = le_value_bytes8
  le_value_bytes16 [folded bytes16_def] le_value_bytes32 [folded bytes32_def]

lemma bytes_join [bytes_simps]:
  "bytes16 (join16 x y) = [x, y]" "bytes32 (join32 x y z w) = [x, y, z, w]"
  by (simp_all only: bytes16_def bytes32_def split_join16 split_join32)

lemma bytes_inject:
  "bytes8 u = bytes8 v \<longleftrightarrow> u = v" "bytes16 x = bytes16 y \<longleftrightarrow> x = y" "bytes32 p = bytes32 q \<longleftrightarrow> p = q"
  by (metis le_value_bytes word_unat_eq_iff)+

text \<open>
  What a client of the memory relies on, for one access width: an access is accepted exactly
  when \<open>memory_access_valid\<close> says so, a read returns the value whose bytes stand at the address,
  and a write replaces exactly those bytes.
\<close>

locale sized_cell =
  fixes rd :: "memory ptr \<Rightarrow> u32 \<Rightarrow> out \<Rightarrow> 'v option"
    and wr :: "memory ptr \<Rightarrow> u32 \<Rightarrow> 'v \<Rightarrow> memory option"
    and width :: nat
    and enc :: "'v \<Rightarrow> u8 list"
  assumes enc_length: "length (enc v) = width"
    and enc_inj: "enc u = enc v \<Longrightarrow> u = v"
    and rd_defined: "rd m a ok \<noteq> None \<longleftrightarrow> ok \<and> memory_access_valid m a width"
    and wr_defined: "wr m a v \<noteq> None \<longleftrightarrow> memory_access_valid m a width"
    and rd_bytes: "memory_wf mem \<Longrightarrow> rd (Ref mem) a ok = Some v \<Longrightarrow>
      enc v = take width (drop (unat a) (bytes_of mem))"
    and wr_bytes: "memory_wf mem \<Longrightarrow> wr (Ref mem) a v = Some mem' \<Longrightarrow>
      mem' = mem\<lparr>mem_bytes := Ref (blit (bytes_of mem) (unat a) (enc v))\<rparr>"
begin

lemma wr_accepts: "wr m a v = Some mem' \<Longrightarrow> memory_access_valid m a width"
  using wr_defined [of m a v] by simp

lemma rd_accepts: "rd m a ok = Some v \<Longrightarrow> ok \<and> memory_access_valid m a width"
  using rd_defined [of m a ok] by simp

lemma wr_wf:
  assumes "memory_wf mem" "wr (Ref mem) a v = Some mem'"
  shows "memory_wf mem'" and "mem_size mem' = mem_size mem"
proof -
  obtain bs where bs: "mem_bytes mem = Ref bs" "length bs = mem_size mem" "unat a + width \<le> length bs"
    using assms(1) wr_accepts [OF assms(2)] by (rule memory_access_valid_fits)
  with assms(1) wr_bytes [OF assms] show "memory_wf mem'" "mem_size mem' = mem_size mem"
    by (simp_all add: memory_wf_def enc_length)
qed

lemma rd_after_wr:
  assumes wf: "memory_wf mem" and wr: "wr (Ref mem) a v = Some mem'"
  shows "rd (Ref mem') a True = Some v"
proof -
  obtain bs where bs: "mem_bytes mem = Ref bs" "unat a + width \<le> length bs"
    using wf wr_accepts [OF wr] by (rule memory_access_valid_fits)
  have "memory_access_valid (Ref mem') a width"
    using memory_access_valid_same_size [OF wf wr_wf [OF wf wr]] wr_accepts [OF wr] by simp
  then obtain u where u: "rd (Ref mem') a True = Some u"
    using rd_defined [of "Ref mem'" a True] by auto
  have "enc u = take width (drop (unat a) (blit bs (unat a) (enc v)))"
    using rd_bytes [OF wr_wf(1) [OF wf wr] u] wr_bytes [OF wf wr] bs by simp
  also have "\<dots> = enc v"
    using bs enc_length [of v] by (simp add: blit_def)
  finally show ?thesis using u enc_inj by simp
qed

lemma wr_back:
  assumes wf: "memory_wf mem" and rd: "rd (Ref mem) a ok = Some v"
  shows "wr (Ref mem) a v = Some mem"
proof -
  have ok: "memory_access_valid (Ref mem) a width" using rd_accepts [OF rd] by simp
  obtain bs where bs: "mem_bytes mem = Ref bs" "unat a + width \<le> length bs"
    using wf ok by (rule memory_access_valid_fits)
  obtain mem' where mem': "wr (Ref mem) a v = Some mem'" using ok wr_defined [of "Ref mem" a v] by auto
  have "blit bs (unat a) (enc v) = bs"
    using rd_bytes [OF wf rd] bs by (simp add: blit_take_self)
  with bs wr_bytes [OF wf mem'] mem' show ?thesis by simp
qed

lemma wr_twice:
  assumes wf: "memory_wf mem" and wr: "wr (Ref mem) a u = Some mem'"
  shows "wr (Ref mem') a v = wr (Ref mem) a v"
proof -
  note ok = wr_accepts [OF wr]
  note wf' = wr_wf [OF wf wr]
  have "memory_access_valid (Ref mem') a width"
    using memory_access_valid_same_size [OF wf wf'] ok by simp
  then obtain m1 m2 where m1: "wr (Ref mem') a v = Some m1" and m2: "wr (Ref mem) a v = Some m2"
    using ok wr_defined [of "Ref mem" a v] wr_defined [of "Ref mem'" a v] by auto
  obtain bs where bs: "mem_bytes mem = Ref bs" "unat a + width \<le> length bs"
    using wf ok by (rule memory_access_valid_fits)
  have "m1 = m2"
    using wr_bytes [OF wf'(1) m1] wr_bytes [OF wf m2] wr_bytes [OF wf wr] bs
    by (simp add: blit_blit_same enc_length)
  with m1 m2 show ?thesis by simp
qed

lemma wr_frame:
  assumes wf: "memory_wf mem" and wr: "wr (Ref mem) a v = Some mem'"
    and i: "i < mem_size mem" "i < unat a \<or> unat a + width \<le> i"
  shows "bytes_of mem' ! i = bytes_of mem ! i"
proof -
  obtain bs where "mem_bytes mem = Ref bs" "length bs = mem_size mem" "unat a + width \<le> length bs"
    using wf wr_accepts [OF wr] by (rule memory_access_valid_fits)
  with i wr_bytes [OF wf wr] show ?thesis by (simp add: nth_blit_outside enc_length)
qed

end

lemma bytes_length [simp]: "length (bytes8 b) = 1" "length (bytes16 h) = 2" "length (bytes32 w) = 4"
  by (simp_all add: bytes8_def bytes16_def bytes32_def)

text \<open>Inside an accepted access the C index expressions \<^verbatim>\<open>address + k\<close> do not wrap.\<close>

lemma halfword_slice:
  fixes a :: u32
  assumes "unat a + 2 \<le> length bs" "length bs \<le> 268435456"
  shows "take 2 (drop (unat a) bs) = [bs ! unat a, bs ! unat (a + 1)]"
    and "blit bs (unat a) [x, y] = bs[unat a := x, unat (a + 1) := y]"
  using assms
  by (simp_all add: slice_2 unat_add_small)

lemma word_slice:
  fixes a :: u32
  assumes "unat a + 4 \<le> length bs" "length bs \<le> 268435456"
  shows "take 4 (drop (unat a) bs) =
      [bs ! unat a, bs ! unat (a + 1), bs ! unat (a + 2), bs ! unat (a + 3)]"
    and "blit bs (unat a) [x, y, z, w] =
      bs[unat a := x, unat (a + 1) := y, unat (a + 2) := z, unat (a + 3) := w]"
  using assms
  by (simp_all add: slice_4 unat_add_small)

interpretation cell8: sized_cell memory_read_u8 memory_write_u8 1 bytes8
proof unfold_locales
  show "bytes8 u = bytes8 v \<Longrightarrow> u = v" for u v by (simp add: bytes_inject)
  fix mem a ok v assume wf: "memory_wf mem" and rd: "memory_read_u8 (Ref mem) a ok = Some v"
  from rd have "memory_access_valid (Ref mem) a 1"
    by (auto simp: memory_read_u8_def size_simps split: if_splits)
  with wf obtain bs where "mem_bytes mem = Ref bs" "unat a + 1 \<le> length bs"
    by (rule memory_access_valid_fits)
  with rd show "bytes8 v = take 1 (drop (unat a) (bytes_of mem))"
    by (auto simp: memory_read_u8_def bytes8_def take_drop_Cons split: if_splits)
next
  fix mem a v mem' assume wf: "memory_wf mem" and wr: "memory_write_u8 (Ref mem) a v = Some mem'"
  from wr have "memory_access_valid (Ref mem) a 1"
    by (auto simp: memory_write_u8_def size_simps split: if_splits)
  with wf obtain bs where "mem_bytes mem = Ref bs" "unat a + 1 \<le> length bs"
    by (rule memory_access_valid_fits)
  with wr show "mem' = mem\<lparr>mem_bytes := Ref (blit (bytes_of mem) (unat a) (bytes8 v))\<rparr>"
    by (auto simp: memory_write_u8_def bytes8_def blit_Cons split: if_splits)
qed (auto simp: memory_read_u8_def memory_write_u8_def size_simps)

interpretation cell16: sized_cell memory_read_u16 memory_write_u16 2 bytes16
proof unfold_locales
  show "bytes16 u = bytes16 v \<Longrightarrow> u = v" for u v by (simp add: bytes_inject)
  fix mem a ok v assume wf: "memory_wf mem" and rd: "memory_read_u16 (Ref mem) a ok = Some v"
  from rd have "memory_access_valid (Ref mem) a 2"
    by (auto simp: memory_read_u16_def size_simps split: if_splits)
  with wf obtain bs where "mem_bytes mem = Ref bs" "unat a + 2 \<le> length bs" "length bs \<le> 268435456"
    by (rule memory_access_valid_fits)
  with rd show "bytes16 v = take 2 (drop (unat a) (bytes_of mem))"
    by (auto simp: memory_read_u16_def bytes_join halfword_slice split: if_splits)
next
  fix mem a v mem' assume wf: "memory_wf mem" and wr: "memory_write_u16 (Ref mem) a v = Some mem'"
  from wr have "memory_access_valid (Ref mem) a 2"
    by (auto simp: memory_write_u16_def size_simps split: if_splits)
  with wf obtain bs where "mem_bytes mem = Ref bs" "unat a + 2 \<le> length bs" "length bs \<le> 268435456"
    by (rule memory_access_valid_fits)
  with wr show "mem' = mem\<lparr>mem_bytes := Ref (blit (bytes_of mem) (unat a) (bytes16 v))\<rparr>"
    by (auto simp: memory_write_u16_def bytes16_def halfword_slice split: if_splits)
qed (auto simp: memory_read_u16_def memory_write_u16_def size_simps)

interpretation cell32: sized_cell memory_read_u32 memory_write_u32 4 bytes32
proof unfold_locales
  show "bytes32 u = bytes32 v \<Longrightarrow> u = v" for u v by (simp add: bytes_inject)
  fix mem a ok v assume wf: "memory_wf mem" and rd: "memory_read_u32 (Ref mem) a ok = Some v"
  from rd have "memory_access_valid (Ref mem) a 4"
    by (auto simp: memory_read_u32_def size_simps split: if_splits)
  with wf obtain bs where "mem_bytes mem = Ref bs" "unat a + 4 \<le> length bs" "length bs \<le> 268435456"
    by (rule memory_access_valid_fits)
  with rd show "bytes32 v = take 4 (drop (unat a) (bytes_of mem))"
    by (auto simp: memory_read_u32_def bytes_join word_slice split: if_splits)
next
  fix mem a v mem' assume wf: "memory_wf mem" and wr: "memory_write_u32 (Ref mem) a v = Some mem'"
  from wr have "memory_access_valid (Ref mem) a 4"
    by (auto simp: memory_write_u32_def size_simps split: if_splits)
  with wf obtain bs where "mem_bytes mem = Ref bs" "unat a + 4 \<le> length bs" "length bs \<le> 268435456"
    by (rule memory_access_valid_fits)
  with wr show "mem' = mem\<lparr>mem_bytes := Ref (blit (bytes_of mem) (unat a) (bytes32 v))\<rparr>"
    by (auto simp: memory_write_u32_def bytes32_def word_slice split: if_splits)
qed (auto simp: memory_read_u32_def memory_write_u32_def size_simps)

subsection \<open>Properties\<close>

lemma memory_read_u8_wf:
  "memory_wf mem \<Longrightarrow> memory_read_u8 (Ref mem) b True =
     (if mem_bytes mem \<noteq> NULL \<and> unat b < mem_size mem then Some (bytes_of mem ! unat b) else None)"
  by (simp add: memory_read_u8_def memory_access_valid_iff size_simps Suc_le_eq)

lemma memory_read_u8_beside_word:
  assumes wf: "memory_wf mem" and wr: "memory_write_u32 (Ref mem) a v = Some mem'"
    and b: "unat b < unat a \<or> unat a + 4 \<le> unat b"
  shows "memory_read_u8 (Ref mem') b True = memory_read_u8 (Ref mem) b True"
proof -
  note wf' = cell32.wr_wf [OF wf wr]
  obtain bs where "mem_bytes mem = Ref bs" using wf cell32.wr_accepts [OF wr]
    by (rule memory_access_valid_fits)
  moreover have "mem_bytes mem' \<noteq> NULL" using cell32.wr_bytes [OF wf wr] by simp
  ultimately show ?thesis
    using wf wf' cell32.wr_frame [OF wf wr _ b] by (simp add: memory_read_u8_wf)
qed

lemma memory_read_u8_of_word:
  assumes wf: "memory_wf mem" and wr: "memory_write_u32 (Ref mem) a v = Some mem'" and k: "k < 4"
  shows "memory_read_u8 (Ref mem') (a + of_nat k) True = Some (ucast (drop_bit (8 * k) v))"
proof -
  note wf' = cell32.wr_wf [OF wf wr]
  obtain bs where bs: "mem_bytes mem = Ref bs" "length bs = mem_size mem" "unat a + 4 \<le> length bs"
    "length bs \<le> 268435456"
    using wf cell32.wr_accepts [OF wr] by (rule memory_access_valid_fits)
  have "unat (a + of_nat k) = unat a + k"
    using bs k by (subst unat_add_small) (simp_all add: unat_of_nat)
  moreover have "blit bs (unat a) (bytes32 v) ! (unat a + k) = ucast (drop_bit (8 * k) v)"
  proof -
    have "k = 0 \<or> k = 1 \<or> k = 2 \<or> k = 3" using k by auto
    with bs show ?thesis by (auto simp: nth_blit_inside bytes32_def)
  qed
  ultimately show ?thesis
    using bs k wf' cell32.wr_bytes [OF wf wr] by (simp add: memory_read_u8_wf)
qed

text \<open>
  C32. On a well-formed memory each checked access of width 1, 2 or 4 is accepted exactly when
  storage is allocated, the address is aligned to the width and the whole range lies in RAM;
  a read and a write of one width accept the same addresses.
\<close>

theorem memory_access_accepted:
  assumes "memory_wf mem"
  shows "(memory_read_u8 (Ref mem) a True \<noteq> None \<longleftrightarrow>
            mem_bytes mem \<noteq> NULL \<and> unat a < mem_size mem) \<and>
         (memory_read_u16 (Ref mem) a True \<noteq> None \<longleftrightarrow>
            mem_bytes mem \<noteq> NULL \<and> even (unat a) \<and> unat a + 2 \<le> mem_size mem) \<and>
         (memory_read_u32 (Ref mem) a True \<noteq> None \<longleftrightarrow>
            mem_bytes mem \<noteq> NULL \<and> 4 dvd unat a \<and> unat a + 4 \<le> mem_size mem) \<and>
         (memory_write_u8 (Ref mem) a x \<noteq> None \<longleftrightarrow> memory_read_u8 (Ref mem) a True \<noteq> None) \<and>
         (memory_write_u16 (Ref mem) a y \<noteq> None \<longleftrightarrow> memory_read_u16 (Ref mem) a True \<noteq> None) \<and>
         (memory_write_u32 (Ref mem) a z \<noteq> None \<longleftrightarrow> memory_read_u32 (Ref mem) a True \<noteq> None)"
  unfolding cell8.rd_defined cell16.rd_defined cell32.rd_defined
    cell8.wr_defined cell16.wr_defined cell32.wr_defined
  using assms by (auto simp: memory_access_valid_iff)

text \<open>An eight-byte RAM for the witnesses.\<close>

definition sample_memory :: memory where
  "sample_memory = \<lparr>mem_bytes = Ref [0x11, 0x22, 0x33, 0x44, 0x55, 0x66, 0x77, 0x88], mem_size = 8\<rparr>"

lemma sample_memory_wf: "memory_wf sample_memory"
  by (simp add: memory_wf_def sample_memory_def memory_size_valid_def size_simps)

theorem memory_access_accepted_witness:
  "memory_read_u32 (Ref sample_memory) 4 True \<noteq> None \<and> memory_read_u32 (Ref sample_memory) 8 True = None
   \<and> memory_read_u16 (Ref sample_memory) 3 True = None"
  using memory_access_accepted [OF sample_memory_wf, of 4] memory_access_accepted [OF sample_memory_wf, of 8]
    memory_access_accepted [OF sample_memory_wf, of 3]
  by (simp add: sample_memory_def)

text \<open>
  A word read is little-endian: it succeeds with \<open>v\<close> exactly when the access is accepted and
  \<open>v\<close> is the value of the four bytes at the address, the first byte the least significant.
\<close>

theorem memory_read_u32_value:
  assumes "memory_wf mem"
  shows "memory_read_u32 (Ref mem) a True = Some v \<longleftrightarrow>
     mem_bytes mem \<noteq> NULL \<and> 4 dvd unat a \<and> unat a + 4 \<le> mem_size mem \<and>
     unat v = le_value (take 4 (drop (unat a) (bytes_of mem)))"
proof -
  have accept: "memory_read_u32 (Ref mem) a True \<noteq> None \<longleftrightarrow>
      mem_bytes mem \<noteq> NULL \<and> 4 dvd unat a \<and> unat a + 4 \<le> mem_size mem"
    unfolding cell32.rd_defined using assms by (auto simp: memory_access_valid_iff)
  have "unat u = le_value (take 4 (drop (unat a) (bytes_of mem)))"
    if "memory_read_u32 (Ref mem) a True = Some u" for u
    using cell32.rd_bytes [OF assms that] le_value_bytes(3) [of u] by simp
  with accept show ?thesis by (metis (no_types, lifting) option.exhaust option.inject
      option.simps(3) word_unat_eq_iff)
qed

theorem memory_read_u32_value_witness:
  "memory_read_u32 (Ref sample_memory) 4 True = Some 0x88776655"
  using memory_read_u32_value [OF sample_memory_wf, of 4 "0x88776655"]
  by (simp add: sample_memory_def)

text \<open>
  C31. An accepted word store keeps the memory well formed and its size, is read back as the
  stored word, puts the value's bytes at ascending addresses from the least significant one, and
  changes no byte outside the four it addresses.
\<close>

theorem memory_write_u32_effect:
  assumes wf: "memory_wf mem" and wr: "memory_write_u32 (Ref mem) a v = Some mem'"
  shows "memory_wf mem' \<and> mem_size mem' = mem_size mem \<and>
    memory_read_u32 (Ref mem') a True = Some v \<and>
    (\<forall>k<4. memory_read_u8 (Ref mem') (a + of_nat k) True = Some (ucast (drop_bit (8 * k) v))) \<and>
    (\<forall>b. unat b < unat a \<or> unat a + 4 \<le> unat b \<longrightarrow>
       memory_read_u8 (Ref mem') b True = memory_read_u8 (Ref mem) b True)"
  using cell32.wr_wf [OF wf wr] cell32.rd_after_wr [OF wf wr]
    memory_read_u8_of_word [OF wf wr] memory_read_u8_beside_word [OF wf wr] by blast

theorem memory_write_u32_effect_witness:
  "\<exists>mem'. memory_write_u32 (Ref sample_memory) 4 0xCAFEF00D = Some mem' \<and>
     memory_read_u32 (Ref mem') 4 True = Some 0xCAFEF00D"
proof -
  obtain mem' where wr: "memory_write_u32 (Ref sample_memory) 4 0xCAFEF00D = Some mem'"
    by (simp add: memory_write_u32_def memory_access_valid_def memory_ready_def sample_memory_def
        memory_size_valid_def size_simps)
  with memory_write_u32_effect [OF sample_memory_wf wr] show ?thesis by blast
qed

lemma memory_eqI: "mem_bytes x = mem_bytes y \<Longrightarrow> mem_size x = mem_size y \<Longrightarrow> (x :: memory) = y"
  by (cases x, cases y) simp

lemma memory_copy_wf_eq:
  assumes "memory_wf src" "memory_wf dst"
  shows "memory_copy (Ref src) (Ref dst) =
    (if mem_bytes src \<noteq> NULL \<and> mem_bytes dst \<noteq> NULL \<and> mem_size src = mem_size dst
     then Some src else None)"
proof (cases "memory_copy (Ref src) (Ref dst)")
  case None
  with assms show ?thesis by (auto simp: memory_copy_def memory_ready_iff split: if_splits)
next
  case (Some dst')
  then have "dst' = src"
    using memory_copy_wf [OF assms Some] by (auto intro: memory_eqI)
  with Some assms show ?thesis
    by (auto simp: memory_copy_def memory_ready_iff split: if_splits)
qed

lemma memory_clone_wf_eq:
  assumes "memory_wf src" "memory_wf dst"
  shows "memory_clone False (Ref src) (Ref dst) ok =
    (if mem_bytes src \<noteq> NULL \<and> ok then Some src else None)"
proof (cases "memory_clone False (Ref src) (Ref dst) ok")
  case None
  with assms show ?thesis
    by (auto simp: memory_clone_def memory_ready_iff memory_init_def zero_memory_def memory_wf_def
        split: if_splits option.splits)
next
  case (Some dst')
  then have "dst' = src"
    using memory_clone_wf [OF assms(1) Some] by (auto intro: memory_eqI)
  with Some assms show ?thesis
    by (auto simp: memory_clone_def memory_ready_iff memory_init_def zero_memory_def
        split: if_splits option.splits)
qed

text \<open>
  The lifecycle on well-formed owners: allocation succeeds exactly for an empty owner and a
  valid size when storage is available, and gives zeroed RAM of that size; a copy needs two
  allocated memories of one size and makes the destination equal to the source; a clone of an
  allocated memory fails only for lack of storage and is equal to the source; clearing keeps the
  size and zeroes every byte; destroying leaves the empty owner.
\<close>

theorem memory_lifecycle:
  assumes "memory_wf src" and "memory_wf dst"
  shows "memory_init (Ref dst) sz ok =
      (if mem_bytes dst = NULL \<and> memory_size_valid sz \<and> ok
       then Some \<lparr>mem_bytes = Ref (replicate sz 0), mem_size = sz\<rparr> else None) \<and>
    memory_copy (Ref src) (Ref dst) =
      (if mem_bytes src \<noteq> NULL \<and> mem_bytes dst \<noteq> NULL \<and> mem_size src = mem_size dst
       then Some src else None) \<and>
    memory_clone False (Ref src) (Ref dst) ok =
      (if mem_bytes src \<noteq> NULL \<and> ok then Some src else None) \<and>
    memory_reset (Ref dst) =
      Ref (if mem_bytes dst = NULL then dst
           else dst\<lparr>mem_bytes := Ref (replicate (mem_size dst) 0)\<rparr>) \<and>
    memory_destroy (Ref dst) = Ref zero_memory"
proof (intro conjI)
  show "memory_init (Ref dst) sz ok =
      (if mem_bytes dst = NULL \<and> memory_size_valid sz \<and> ok
       then Some \<lparr>mem_bytes = Ref (replicate sz 0), mem_size = sz\<rparr> else None)"
    using assms(2) by (auto simp: memory_init_def memory_wf_def)
  show "memory_reset (Ref dst) =
      Ref (if mem_bytes dst = NULL then dst
           else dst\<lparr>mem_bytes := Ref (replicate (mem_size dst) 0)\<rparr>)"
    using assms(2) by (auto simp: memory_reset_def memory_ready_iff memory_wf_bytes blit_whole)
qed (simp_all add: assms memory_copy_wf_eq memory_clone_wf_eq memory_destroy_def)

theorem memory_lifecycle_witness:
  "memory_clone False (Ref sample_memory) (Ref zero_memory) True = Some sample_memory \<and>
   memory_copy (Ref sample_memory) (Ref zero_memory) = None"
  using memory_lifecycle [OF sample_memory_wf memory_wf_zero, of 8 True]
  by (simp add: sample_memory_def zero_memory_def)

end
