(* ===== verification/Instruction.thy ===== *)
theory Instruction
  imports Prelude
begin

section \<open>Instruction decoding\<close>

text \<open>
  The model of \<^verbatim>\<open>include/instruction.h\<close> and \<^verbatim>\<open>src/instruction.c\<close>: the enumerations and
  structures of a decoded instruction, the extraction of the raw fields, sign extension, and the
  decoder with its operation tables. What the decoder means is shown in the theory \<open>Decode\<close>,
  against the encoding of \<open>Isa\<close>.
\<close>

subsection \<open>Kinds, formats and the decoded structure\<close>

datatype InstructionKind =
    INSTRUCTION_UNKNOWN | INSTRUCTION_ADD | INSTRUCTION_SUB | INSTRUCTION_SLL | INSTRUCTION_SLT
    | INSTRUCTION_SLTU | INSTRUCTION_XOR | INSTRUCTION_SRL | INSTRUCTION_SRA | INSTRUCTION_OR
    | INSTRUCTION_AND | INSTRUCTION_ADDI | INSTRUCTION_SLTI | INSTRUCTION_SLTIU
    | INSTRUCTION_XORI | INSTRUCTION_ORI | INSTRUCTION_ANDI | INSTRUCTION_SLLI
    | INSTRUCTION_SRLI | INSTRUCTION_SRAI | INSTRUCTION_LUI | INSTRUCTION_AUIPC
    | INSTRUCTION_JAL | INSTRUCTION_JALR | INSTRUCTION_BEQ | INSTRUCTION_BNE | INSTRUCTION_BLT
    | INSTRUCTION_BGE | INSTRUCTION_BLTU | INSTRUCTION_BGEU | INSTRUCTION_LB | INSTRUCTION_LH
    | INSTRUCTION_LW | INSTRUCTION_LBU | INSTRUCTION_LHU | INSTRUCTION_SB | INSTRUCTION_SH
    | INSTRUCTION_SW | INSTRUCTION_FENCE | INSTRUCTION_ECALL | INSTRUCTION_EBREAK

definition INSTRUCTION_COUNT :: nat where [size_simps]: "INSTRUCTION_COUNT = 41"

text \<open>The value of an enumerator; the enumeration is ordered by it, as C compares it.\<close>

primrec kind_index :: "InstructionKind \<Rightarrow> nat" where
  "kind_index INSTRUCTION_UNKNOWN = 0"
| "kind_index INSTRUCTION_ADD = 1"
| "kind_index INSTRUCTION_SUB = 2"
| "kind_index INSTRUCTION_SLL = 3"
| "kind_index INSTRUCTION_SLT = 4"
| "kind_index INSTRUCTION_SLTU = 5"
| "kind_index INSTRUCTION_XOR = 6"
| "kind_index INSTRUCTION_SRL = 7"
| "kind_index INSTRUCTION_SRA = 8"
| "kind_index INSTRUCTION_OR = 9"
| "kind_index INSTRUCTION_AND = 10"
| "kind_index INSTRUCTION_ADDI = 11"
| "kind_index INSTRUCTION_SLTI = 12"
| "kind_index INSTRUCTION_SLTIU = 13"
| "kind_index INSTRUCTION_XORI = 14"
| "kind_index INSTRUCTION_ORI = 15"
| "kind_index INSTRUCTION_ANDI = 16"
| "kind_index INSTRUCTION_SLLI = 17"
| "kind_index INSTRUCTION_SRLI = 18"
| "kind_index INSTRUCTION_SRAI = 19"
| "kind_index INSTRUCTION_LUI = 20"
| "kind_index INSTRUCTION_AUIPC = 21"
| "kind_index INSTRUCTION_JAL = 22"
| "kind_index INSTRUCTION_JALR = 23"
| "kind_index INSTRUCTION_BEQ = 24"
| "kind_index INSTRUCTION_BNE = 25"
| "kind_index INSTRUCTION_BLT = 26"
| "kind_index INSTRUCTION_BGE = 27"
| "kind_index INSTRUCTION_BLTU = 28"
| "kind_index INSTRUCTION_BGEU = 29"
| "kind_index INSTRUCTION_LB = 30"
| "kind_index INSTRUCTION_LH = 31"
| "kind_index INSTRUCTION_LW = 32"
| "kind_index INSTRUCTION_LBU = 33"
| "kind_index INSTRUCTION_LHU = 34"
| "kind_index INSTRUCTION_SB = 35"
| "kind_index INSTRUCTION_SH = 36"
| "kind_index INSTRUCTION_SW = 37"
| "kind_index INSTRUCTION_FENCE = 38"
| "kind_index INSTRUCTION_ECALL = 39"
| "kind_index INSTRUCTION_EBREAK = 40"

definition all_kinds :: "InstructionKind list" where
  "all_kinds =
    [INSTRUCTION_UNKNOWN, INSTRUCTION_ADD, INSTRUCTION_SUB, INSTRUCTION_SLL, INSTRUCTION_SLT
     , INSTRUCTION_SLTU, INSTRUCTION_XOR, INSTRUCTION_SRL, INSTRUCTION_SRA, INSTRUCTION_OR
     , INSTRUCTION_AND, INSTRUCTION_ADDI, INSTRUCTION_SLTI, INSTRUCTION_SLTIU, INSTRUCTION_XORI
     , INSTRUCTION_ORI, INSTRUCTION_ANDI, INSTRUCTION_SLLI, INSTRUCTION_SRLI, INSTRUCTION_SRAI
     , INSTRUCTION_LUI, INSTRUCTION_AUIPC, INSTRUCTION_JAL, INSTRUCTION_JALR, INSTRUCTION_BEQ
     , INSTRUCTION_BNE, INSTRUCTION_BLT, INSTRUCTION_BGE, INSTRUCTION_BLTU, INSTRUCTION_BGEU
     , INSTRUCTION_LB, INSTRUCTION_LH, INSTRUCTION_LW, INSTRUCTION_LBU, INSTRUCTION_LHU
     , INSTRUCTION_SB, INSTRUCTION_SH, INSTRUCTION_SW, INSTRUCTION_FENCE, INSTRUCTION_ECALL
     , INSTRUCTION_EBREAK]"

lemma kind_index_bound: "kind_index k < INSTRUCTION_COUNT"
  by (cases k) (simp_all add: size_simps)

lemma all_kinds_complete: "k \<in> set all_kinds"
  by (cases k) (simp_all add: all_kinds_def)

lemma kind_index_all_kinds: "map kind_index all_kinds = [0..<INSTRUCTION_COUNT]"
  by (simp add: all_kinds_def INSTRUCTION_COUNT_def upt_conv_Cons)

lemma kind_index_eq_iff: "kind_index j = kind_index k \<longleftrightarrow> j = k"
proof -
  have "inj_on kind_index (set all_kinds)"
    using kind_index_all_kinds distinct_upt [of 0 INSTRUCTION_COUNT] by (metis distinct_map)
  then show ?thesis using all_kinds_complete by (auto simp: inj_on_eq_iff)
qed

lemma all_kinds_nth: "i < INSTRUCTION_COUNT \<Longrightarrow> kind_index (all_kinds ! i) = i"
  using kind_index_all_kinds
  by (metis add_0 diff_zero length_map length_upt nth_map nth_upt)

instantiation InstructionKind :: linorder
begin

definition less_eq_InstructionKind :: "InstructionKind \<Rightarrow> InstructionKind \<Rightarrow> bool" where
  "j \<le> k \<longleftrightarrow> kind_index j \<le> kind_index k"

definition less_InstructionKind :: "InstructionKind \<Rightarrow> InstructionKind \<Rightarrow> bool" where
  "j < k \<longleftrightarrow> kind_index j < kind_index k"

instance
  by standard (auto simp: less_eq_InstructionKind_def less_InstructionKind_def kind_index_eq_iff)

end

datatype InstructionFormat =
    INSTRUCTION_FORMAT_UNKNOWN | INSTRUCTION_FORMAT_R | INSTRUCTION_FORMAT_I
  | INSTRUCTION_FORMAT_S | INSTRUCTION_FORMAT_B | INSTRUCTION_FORMAT_U | INSTRUCTION_FORMAT_J

record InstructionFields =
  raw :: u32
  opcode :: u8
  rd :: u8
  funct3 :: u8
  rs1 :: u8
  rs2 :: u8
  funct7 :: u8

record DecodedInstruction =
  kind :: InstructionKind
  instr_fields :: InstructionFields
  format :: InstructionFormat
  immediate :: u32

subsection \<open>Opcodes\<close>

named_theorems opcode_simps

definition OPCODE_LOAD :: u8 where [opcode_simps]: "OPCODE_LOAD = 0x03"
definition OPCODE_MISC_MEM :: u8 where [opcode_simps]: "OPCODE_MISC_MEM = 0x0F"
definition OPCODE_OP_IMM :: u8 where [opcode_simps]: "OPCODE_OP_IMM = 0x13"
definition OPCODE_AUIPC :: u8 where [opcode_simps]: "OPCODE_AUIPC = 0x17"
definition OPCODE_STORE :: u8 where [opcode_simps]: "OPCODE_STORE = 0x23"
definition OPCODE_OP :: u8 where [opcode_simps]: "OPCODE_OP = 0x33"
definition OPCODE_LUI :: u8 where [opcode_simps]: "OPCODE_LUI = 0x37"
definition OPCODE_BRANCH :: u8 where [opcode_simps]: "OPCODE_BRANCH = 0x63"
definition OPCODE_JALR :: u8 where [opcode_simps]: "OPCODE_JALR = 0x67"
definition OPCODE_JAL :: u8 where [opcode_simps]: "OPCODE_JAL = 0x6F"
definition OPCODE_SYSTEM :: u8 where [opcode_simps]: "OPCODE_SYSTEM = 0x73"
definition FUNCT7_BASE :: u8 where [opcode_simps]: "FUNCT7_BASE = 0"
definition FUNCT7_ALTERNATE :: u8 where [opcode_simps]: "FUNCT7_ALTERNATE = 0x20"

subsection \<open>Fields and immediates\<close>

definition sign_extend :: "u32 \<Rightarrow> nat \<Rightarrow> u32" where
  "sign_extend value bits = (let sign = push_bit (bits - 1) 1 in (value XOR sign) - sign)"

text \<open>\<^verbatim>\<open>INT32_MAX\<close> is 0x7FFFFFFF; every result fits \<^verbatim>\<open>int64_t\<close>.\<close>

definition instruction_signed_value :: "u32 \<Rightarrow> int" where
  "instruction_signed_value value =
     (if value \<le> 0x7FFFFFFF then uint value else uint value - 0x100000000)"

definition instruction_extract_fields :: "u32 \<Rightarrow> InstructionFields" where
  "instruction_extract_fields word =
     \<lparr>raw = word,
      opcode = ucast (word AND 0x7F),
      rd = ucast (drop_bit 7 word AND 0x1F),
      funct3 = ucast (drop_bit 12 word AND 0x07),
      rs1 = ucast (drop_bit 15 word AND 0x1F),
      rs2 = ucast (drop_bit 20 word AND 0x1F),
      funct7 = ucast (drop_bit 25 word AND 0x7F)\<rparr>"

subsection \<open>The decoder\<close>

definition register_ops :: "InstructionKind list" where
  "register_ops =
     [INSTRUCTION_ADD, INSTRUCTION_SLL, INSTRUCTION_SLT, INSTRUCTION_SLTU,
      INSTRUCTION_XOR, INSTRUCTION_SRL, INSTRUCTION_OR, INSTRUCTION_AND]"

definition immediate_ops :: "InstructionKind list" where
  "immediate_ops =
     [INSTRUCTION_ADDI, INSTRUCTION_UNKNOWN, INSTRUCTION_SLTI, INSTRUCTION_SLTIU,
      INSTRUCTION_XORI, INSTRUCTION_UNKNOWN, INSTRUCTION_ORI, INSTRUCTION_ANDI]"

definition branches :: "InstructionKind list" where
  "branches =
     [INSTRUCTION_BEQ, INSTRUCTION_BNE, INSTRUCTION_UNKNOWN, INSTRUCTION_UNKNOWN,
      INSTRUCTION_BLT, INSTRUCTION_BGE, INSTRUCTION_BLTU, INSTRUCTION_BGEU]"

definition loads :: "InstructionKind list" where
  "loads =
     [INSTRUCTION_LB, INSTRUCTION_LH, INSTRUCTION_LW, INSTRUCTION_UNKNOWN,
      INSTRUCTION_LBU, INSTRUCTION_LHU, INSTRUCTION_UNKNOWN, INSTRUCTION_UNKNOWN]"

definition stores :: "InstructionKind list" where
  "stores =
     [INSTRUCTION_SB, INSTRUCTION_SH, INSTRUCTION_SW, INSTRUCTION_UNKNOWN,
      INSTRUCTION_UNKNOWN, INSTRUCTION_UNKNOWN, INSTRUCTION_UNKNOWN, INSTRUCTION_UNKNOWN]"

text \<open>The \<^verbatim>\<open>switch\<close> on the opcode is an if-chain in the order of the C cases.\<close>

definition instruction_decode :: "u32 \<Rightarrow> DecodedInstruction" where
  "instruction_decode word =
    (let f = instruction_extract_fields word;
         decoded = \<lparr>kind = INSTRUCTION_UNKNOWN, instr_fields = f,
                    format = INSTRUCTION_FORMAT_UNKNOWN, immediate = 0\<rparr>
     in
     if opcode f = OPCODE_OP then
       decoded\<lparr>format := INSTRUCTION_FORMAT_R,
         kind := (if funct7 f = FUNCT7_BASE then register_ops ! unat (funct3 f)
                  else if funct7 f = FUNCT7_ALTERNATE \<and> funct3 f = 0 then INSTRUCTION_SUB
                  else if funct7 f = FUNCT7_ALTERNATE \<and> funct3 f = 5 then INSTRUCTION_SRA
                  else INSTRUCTION_UNKNOWN)\<rparr>
     else if opcode f = OPCODE_OP_IMM then
       (let d = decoded\<lparr>format := INSTRUCTION_FORMAT_I,
                  immediate := sign_extend (drop_bit 20 word) 12,
                  kind := immediate_ops ! unat (funct3 f)\<rparr>
        in if funct3 f = 1 \<or> funct3 f = 5 then
             (let d' = d\<lparr>immediate := ucast (rs2 f)\<rparr>
              in if funct7 f = FUNCT7_BASE
                 then d'\<lparr>kind := (if funct3 f = 1 then INSTRUCTION_SLLI else INSTRUCTION_SRLI)\<rparr>
                 else if funct3 f = 5 \<and> funct7 f = FUNCT7_ALTERNATE
                 then d'\<lparr>kind := INSTRUCTION_SRAI\<rparr>
                 else d')
           else d)
     else if opcode f = OPCODE_LUI \<or> opcode f = OPCODE_AUIPC then
       decoded\<lparr>format := INSTRUCTION_FORMAT_U,
         immediate := word AND 0xFFFFF000,
         kind := (if opcode f = OPCODE_LUI then INSTRUCTION_LUI else INSTRUCTION_AUIPC)\<rparr>
     else if opcode f = OPCODE_JAL then
       decoded\<lparr>format := INSTRUCTION_FORMAT_J,
         immediate := sign_extend
           (push_bit 20 (drop_bit 31 word)
            OR (word AND 0xFF000) OR (drop_bit 9 word AND 0x800)
            OR (drop_bit 20 word AND 0x7FE)) 21,
         kind := INSTRUCTION_JAL\<rparr>
     else if opcode f = OPCODE_JALR then
       decoded\<lparr>format := INSTRUCTION_FORMAT_I,
         immediate := sign_extend (drop_bit 20 word) 12,
         kind := (if funct3 f = 0 then INSTRUCTION_JALR else INSTRUCTION_UNKNOWN)\<rparr>
     else if opcode f = OPCODE_BRANCH then
       decoded\<lparr>format := INSTRUCTION_FORMAT_B,
         immediate := sign_extend
           (push_bit 12 (drop_bit 31 word)
            OR (push_bit 4 word AND 0x800) OR (drop_bit 20 word AND 0x7E0)
            OR (drop_bit 7 word AND 0x1E)) 13,
         kind := branches ! unat (funct3 f)\<rparr>
     else if opcode f = OPCODE_LOAD then
       decoded\<lparr>format := INSTRUCTION_FORMAT_I,
         immediate := sign_extend (drop_bit 20 word) 12,
         kind := loads ! unat (funct3 f)\<rparr>
     else if opcode f = OPCODE_STORE then
       decoded\<lparr>format := INSTRUCTION_FORMAT_S,
         immediate := sign_extend
           ((drop_bit 20 word AND 0xFE0) OR (drop_bit 7 word AND 0x1F)) 12,
         kind := stores ! unat (funct3 f)\<rparr>
     else if opcode f = OPCODE_MISC_MEM then
       decoded\<lparr>format := INSTRUCTION_FORMAT_I,
         kind := (if funct3 f = 0 then INSTRUCTION_FENCE else INSTRUCTION_UNKNOWN)\<rparr>
     else if opcode f = OPCODE_SYSTEM then
       decoded\<lparr>format := INSTRUCTION_FORMAT_I,
         kind := (if word = 0x00000073 then INSTRUCTION_ECALL
                  else if word = 0x00100073 then INSTRUCTION_EBREAK
                  else INSTRUCTION_UNKNOWN)\<rparr>
     else decoded)"

end
