(* ===== verification/Cpu.thy ===== *)
theory Cpu
  imports Memory Instruction
begin

section \<open>The CPU\<close>

text \<open>
  The model of \<^verbatim>\<open>include/cpu.h\<close> and \<^verbatim>\<open>src/cpu.c\<close>: the architectural state, the record that each
  step fills in for the viewer and the debugger, and the step itself. The function \<^verbatim>\<open>execute\<close> is
  modelled by one definition for each of its stretches (guards, fetch and decode; the \<^verbatim>\<open>switch\<close>;
  the control transfer; the memory access; the write-back), composed in the order of the code,
  with an early return as the left side of a sum.
  The lemmas then follow the same stretches: which results are possible, what each leaves
  unchanged, what the record says, and the invariants that every step keeps.
\<close>

subsection \<open>Constants, results and state\<close>

definition CPU_ZERO_REGISTER :: nat where [size_simps]: "CPU_ZERO_REGISTER = 0"
definition CPU_REGISTER_COUNT :: nat where [size_simps]: "CPU_REGISTER_COUNT = 32"
definition CPU_INSTRUCTION_SIZE :: nat where [size_simps]: "CPU_INSTRUCTION_SIZE = 4"

datatype CpuStepResult =
    CPU_STEP_OK | CPU_STEP_HALTED | CPU_STEP_INVALID_ARGUMENT | CPU_STEP_MISALIGNED_PC
  | CPU_STEP_FETCH_FAILED | CPU_STEP_UNKNOWN_INSTRUCTION | CPU_STEP_LOAD_MISALIGNED
  | CPU_STEP_LOAD_FAILED | CPU_STEP_STORE_MISALIGNED | CPU_STEP_STORE_FAILED
  | CPU_STEP_ECALL | CPU_STEP_BREAKPOINT

datatype CpuTrapCause =
    CPU_TRAP_INSTRUCTION_MISALIGNED | CPU_TRAP_INSTRUCTION_ACCESS | CPU_TRAP_ILLEGAL_INSTRUCTION
  | CPU_TRAP_BREAKPOINT | CPU_TRAP_LOAD_MISALIGNED | CPU_TRAP_LOAD_ACCESS
  | CPU_TRAP_STORE_MISALIGNED | CPU_TRAP_STORE_ACCESS | CPU_TRAP_USER_ECALL

text \<open>The value of an enumerator.\<close>

primrec cause_number :: "CpuTrapCause \<Rightarrow> nat" where
  "cause_number CPU_TRAP_INSTRUCTION_MISALIGNED = 0"
| "cause_number CPU_TRAP_INSTRUCTION_ACCESS = 1"
| "cause_number CPU_TRAP_ILLEGAL_INSTRUCTION = 2"
| "cause_number CPU_TRAP_BREAKPOINT = 3"
| "cause_number CPU_TRAP_LOAD_MISALIGNED = 4"
| "cause_number CPU_TRAP_LOAD_ACCESS = 5"
| "cause_number CPU_TRAP_STORE_MISALIGNED = 6"
| "cause_number CPU_TRAP_STORE_ACCESS = 7"
| "cause_number CPU_TRAP_USER_ECALL = 8"

primrec result_number :: "CpuStepResult \<Rightarrow> nat" where
  "result_number CPU_STEP_OK = 0"
| "result_number CPU_STEP_HALTED = 1"
| "result_number CPU_STEP_INVALID_ARGUMENT = 2"
| "result_number CPU_STEP_MISALIGNED_PC = 3"
| "result_number CPU_STEP_FETCH_FAILED = 4"
| "result_number CPU_STEP_UNKNOWN_INSTRUCTION = 5"
| "result_number CPU_STEP_LOAD_MISALIGNED = 6"
| "result_number CPU_STEP_LOAD_FAILED = 7"
| "result_number CPU_STEP_STORE_MISALIGNED = 8"
| "result_number CPU_STEP_STORE_FAILED = 9"
| "result_number CPU_STEP_ECALL = 10"
| "result_number CPU_STEP_BREAKPOINT = 11"

record cpu =
  registers :: "u32 list"
  program_counter :: u32
  instruction_count :: u64
  halted :: bool

text \<open>The nested structures of \<^verbatim>\<open>CpuStepRecord\<close>, then the record; \<open>{0}\<close> is its zero value.\<close>

record reg_record =
  reg_written :: bool
  reg_index :: u8
  reg_value :: u32
  reg_before :: u32
  reg_after :: u32
  reg_changed :: bool

record memory_record =
  memory_attempted :: bool
  memory_completed :: bool
  memory_write :: bool
  memory_width :: u8
  memory_address :: u32
  memory_before :: u32
  memory_after :: u32

record trap_record =
  trap_raised :: bool
  trap_cause :: CpuTrapCause
  trap_instruction_address :: u32
  trap_value :: u32

record step_record =
  step_result :: CpuStepResult
  pc_before :: u32
  pc_after :: u32
  count_before :: u64
  count_after :: u64
  step_fetched :: bool
  step_instruction :: DecodedInstruction
  rs1_value :: u32
  rs2_value :: u32
  branch_taken :: bool
  step_reg :: reg_record
  step_memory :: memory_record
  step_trap :: trap_record

definition zero_cpu :: cpu where
  "zero_cpu = \<lparr>registers = replicate CPU_REGISTER_COUNT 0, program_counter = 0,
                instruction_count = 0, halted = False\<rparr>"

definition zero_instruction :: DecodedInstruction where
  "zero_instruction =
     \<lparr>kind = INSTRUCTION_UNKNOWN,
      instr_fields = \<lparr>raw = 0, opcode = 0, rd = 0, funct3 = 0, rs1 = 0, rs2 = 0, funct7 = 0\<rparr>,
      format = INSTRUCTION_FORMAT_UNKNOWN, immediate = 0\<rparr>"

definition zero_record :: step_record where
  "zero_record =
     \<lparr>step_result = CPU_STEP_OK, pc_before = 0, pc_after = 0, count_before = 0, count_after = 0,
      step_fetched = False, step_instruction = zero_instruction, rs1_value = 0, rs2_value = 0,
      branch_taken = False,
      step_reg = \<lparr>reg_written = False, reg_index = 0, reg_value = 0, reg_before = 0,
                  reg_after = 0, reg_changed = False\<rparr>,
      step_memory = \<lparr>memory_attempted = False, memory_completed = False, memory_write = False,
                     memory_width = 0, memory_address = 0, memory_before = 0, memory_after = 0\<rparr>,
      step_trap = \<lparr>trap_raised = False, trap_cause = CPU_TRAP_INSTRUCTION_MISALIGNED,
                   trap_instruction_address = 0, trap_value = 0\<rparr>\<rparr>"

subsection \<open>Arithmetic\<close>

text \<open>The casts to \<^verbatim>\<open>uint64_t\<close> and back are written out.\<close>

definition add32 :: "u32 \<Rightarrow> u32 \<Rightarrow> u32" where
  "add32 left right = ucast ((ucast left :: u64) + ucast right)"

definition signed_less :: "u32 \<Rightarrow> u32 \<Rightarrow> bool" where
  "signed_less left right \<longleftrightarrow> (left XOR 0x80000000) < (right XOR 0x80000000)"

definition arithmetic_right :: "u32 \<Rightarrow> u32 \<Rightarrow> u32" where
  "arithmetic_right value amount0 =
     (let amount = amount0 AND 31
      in if amount = 0 then value
         else let result = drop_bit (unat amount) value
              in if value AND 0x80000000 \<noteq> 0
                 then result OR ucast (push_bit (unat (32 - amount)) (0xFFFFFFFF :: u64))
                 else result)"

subsection \<open>Reset, registers and fetch\<close>

definition cpu_reset :: "cpu \<Rightarrow> cpu" where
  "cpu_reset c = zero_cpu"

definition cpu_read_register :: "cpu ptr \<Rightarrow> nat \<Rightarrow> out \<Rightarrow> u32 option" where
  "cpu_read_register c index value =
     (if c = NULL \<or> \<not> value \<or> index \<ge> CPU_REGISTER_COUNT then None
      else Some (if index = CPU_ZERO_REGISTER then 0 else registers (the c) ! index))"

definition cpu_write_register :: "cpu ptr \<Rightarrow> nat \<Rightarrow> u32 \<Rightarrow> cpu option" where
  "cpu_write_register c index value =
     (if c = NULL \<or> index \<ge> CPU_REGISTER_COUNT then None
      else if index \<noteq> CPU_ZERO_REGISTER
      then Some ((the c)\<lparr>registers := (registers (the c))[index := value]\<rparr>)
      else Some (the c))"

definition cpu_fetch_instruction :: "cpu ptr \<Rightarrow> memory ptr \<Rightarrow> out \<Rightarrow> u32 option" where
  "cpu_fetch_instruction c m instruction =
     (if c = NULL then None else memory_read_u32 m (program_counter (the c)) instruction)"

definition step_result_names :: "string list" where
  "step_result_names =
     [''ok'', ''halted'', ''invalid argument'', ''instruction address misaligned'',
      ''instruction access fault'', ''illegal or unsupported instruction'',
      ''load address misaligned'', ''load access fault'', ''store address misaligned'',
      ''store access fault'', ''environment call'', ''breakpoint'']"

text \<open>The argument is the number of the enumerator, which a C caller may choose freely.\<close>

definition cpu_step_result_name :: "nat \<Rightarrow> string" where
  "cpu_step_result_name result =
     (if result < length step_result_names then step_result_names ! result else ''unknown result'')"

subsection \<open>Faults and sized accesses\<close>

definition fault :: "step_record \<Rightarrow> CpuStepResult \<Rightarrow> CpuTrapCause \<Rightarrow> u32 \<Rightarrow> CpuStepResult \<times> step_record" where
  "fault record result cause value =
     (result,
      record\<lparr>step_trap := \<lparr>trap_raised = True, trap_cause = cause,
               trap_instruction_address = pc_before record, trap_value = value\<rparr>\<rparr>)"

definition read_width :: "memory ptr \<Rightarrow> u32 \<Rightarrow> nat \<Rightarrow> u32 option" where
  "read_width m address width =
     (if width = 1 then map_option ucast (memory_read_u8 m address True)
      else if width = 2 then map_option ucast (memory_read_u16 m address True)
      else memory_read_u32 m address True)"

definition write_width :: "memory ptr \<Rightarrow> u32 \<Rightarrow> nat \<Rightarrow> u32 \<Rightarrow> memory option" where
  "write_width m address width value =
     (if width = 1 then memory_write_u8 m address (ucast value)
      else if width = 2 then memory_write_u16 m address (ucast value)
      else memory_write_u32 m address value)"

subsection \<open>Execution of one instruction\<close>

text \<open>
  An early return of \<^verbatim>\<open>execute\<close> carries its result and the record as filled in so far. Before the
  write-back nothing but an accepted store changes an owner, so an early return leaves them alone.
\<close>

type_synonym early = "CpuStepResult \<times> step_record"

text \<open>The result of the first stretch: the word, the two source values and the record.\<close>

definition execute_fetch ::
  "cpu ptr \<Rightarrow> memory ptr \<Rightarrow> step_record \<Rightarrow> early + u32 \<times> u32 \<times> u32 \<times> step_record" where
  "execute_fetch c m record =
     (if c = NULL \<or> m = NULL then Inl (CPU_STEP_INVALID_ARGUMENT, record)
      else if halted (the c) then Inl (CPU_STEP_HALTED, record)
      else let pc = program_counter (the c) in
      if unat pc mod CPU_INSTRUCTION_SIZE \<noteq> 0
      then Inl (fault record CPU_STEP_MISALIGNED_PC CPU_TRAP_INSTRUCTION_MISALIGNED pc)
      else
      (case cpu_fetch_instruction c m True of
         None \<Rightarrow> Inl (fault record CPU_STEP_FETCH_FAILED CPU_TRAP_INSTRUCTION_ACCESS pc)
       | Some word \<Rightarrow>
           let record = record\<lparr>step_fetched := True, step_instruction := instruction_decode word\<rparr>;
               d = step_instruction record;
               f = instr_fields d
           in
           if kind d = INSTRUCTION_UNKNOWN
           then Inl (fault record CPU_STEP_UNKNOWN_INSTRUCTION CPU_TRAP_ILLEGAL_INSTRUCTION word)
           else
           (case (cpu_read_register c (unat (rs1 f)) True, cpu_read_register c (unat (rs2 f)) True) of
              (Some left, Some right) \<Rightarrow>
                Inr (word, left, right, record\<lparr>rs1_value := left, rs2_value := right\<rparr>)
            | _ \<Rightarrow> Inl (CPU_STEP_INVALID_ARGUMENT, record))))"

text \<open>The local variables that the \<^verbatim>\<open>switch\<close> sets.\<close>

record effects =
  next_pc :: u32
  result_value :: u32
  writes_register :: bool
  transfer :: bool
  store_access :: bool
  access_width :: nat

text \<open>A branch of the \<^verbatim>\<open>switch\<close> that raises a trap: its result, cause and value.\<close>

type_synonym trap_request = "CpuStepResult \<times> CpuTrapCause \<times> u32"

abbreviation bool32 :: "bool \<Rightarrow> u32" where "bool32 b \<equiv> (if b then 1 else 0)"

text \<open>
  The \<^verbatim>\<open>switch\<close>, one equation per case: PC, word, the two source values, the constant and the
  variables as initialised before it.
\<close>

primrec execute_operation ::
  "InstructionKind \<Rightarrow> u32 \<Rightarrow> u32 \<Rightarrow> u32 \<Rightarrow> u32 \<Rightarrow> u32 \<Rightarrow> effects \<Rightarrow> trap_request + effects" where
  "execute_operation INSTRUCTION_ADD pc word left right imm e = Inr (e\<lparr>result_value := add32 left right\<rparr>)"
| "execute_operation INSTRUCTION_SUB pc word left right imm e =
     Inr (e\<lparr>result_value := ucast ((ucast left :: u64) - ucast right)\<rparr>)"
| "execute_operation INSTRUCTION_SLL pc word left right imm e =
     Inr (e\<lparr>result_value := ucast (push_bit (unat (right AND 31)) (ucast left :: u64))\<rparr>)"
| "execute_operation INSTRUCTION_SLT pc word left right imm e =
     Inr (e\<lparr>result_value := bool32 (signed_less left right)\<rparr>)"
| "execute_operation INSTRUCTION_SLTU pc word left right imm e =
     Inr (e\<lparr>result_value := bool32 (left < right)\<rparr>)"
| "execute_operation INSTRUCTION_XOR pc word left right imm e = Inr (e\<lparr>result_value := left XOR right\<rparr>)"
| "execute_operation INSTRUCTION_SRL pc word left right imm e =
     Inr (e\<lparr>result_value := drop_bit (unat (right AND 31)) left\<rparr>)"
| "execute_operation INSTRUCTION_SRA pc word left right imm e =
     Inr (e\<lparr>result_value := arithmetic_right left right\<rparr>)"
| "execute_operation INSTRUCTION_OR pc word left right imm e = Inr (e\<lparr>result_value := left OR right\<rparr>)"
| "execute_operation INSTRUCTION_AND pc word left right imm e = Inr (e\<lparr>result_value := left AND right\<rparr>)"
| "execute_operation INSTRUCTION_ADDI pc word left right imm e = Inr (e\<lparr>result_value := add32 left imm\<rparr>)"
| "execute_operation INSTRUCTION_SLTI pc word left right imm e =
     Inr (e\<lparr>result_value := bool32 (signed_less left imm)\<rparr>)"
| "execute_operation INSTRUCTION_SLTIU pc word left right imm e =
     Inr (e\<lparr>result_value := bool32 (left < imm)\<rparr>)"
| "execute_operation INSTRUCTION_XORI pc word left right imm e = Inr (e\<lparr>result_value := left XOR imm\<rparr>)"
| "execute_operation INSTRUCTION_ORI pc word left right imm e = Inr (e\<lparr>result_value := left OR imm\<rparr>)"
| "execute_operation INSTRUCTION_ANDI pc word left right imm e = Inr (e\<lparr>result_value := left AND imm\<rparr>)"
| "execute_operation INSTRUCTION_SLLI pc word left right imm e =
     Inr (e\<lparr>result_value := ucast (push_bit (unat imm) (ucast left :: u64))\<rparr>)"
| "execute_operation INSTRUCTION_SRLI pc word left right imm e =
     Inr (e\<lparr>result_value := drop_bit (unat imm) left\<rparr>)"
| "execute_operation INSTRUCTION_SRAI pc word left right imm e =
     Inr (e\<lparr>result_value := arithmetic_right left imm\<rparr>)"
| "execute_operation INSTRUCTION_LUI pc word left right imm e = Inr (e\<lparr>result_value := imm\<rparr>)"
| "execute_operation INSTRUCTION_AUIPC pc word left right imm e = Inr (e\<lparr>result_value := add32 pc imm\<rparr>)"
| "execute_operation INSTRUCTION_JAL pc word left right imm e =
     Inr (e\<lparr>result_value := next_pc e, transfer := True, next_pc := add32 pc imm\<rparr>)"
| "execute_operation INSTRUCTION_JALR pc word left right imm e =
     Inr (e\<lparr>result_value := next_pc e, transfer := True, next_pc := add32 left imm AND NOT 1\<rparr>)"
| "execute_operation INSTRUCTION_BEQ pc word left right imm e =
     Inr (e\<lparr>transfer := (left = right), writes_register := False\<rparr>)"
| "execute_operation INSTRUCTION_BNE pc word left right imm e =
     Inr (e\<lparr>transfer := (left \<noteq> right), writes_register := False\<rparr>)"
| "execute_operation INSTRUCTION_BLT pc word left right imm e =
     Inr (e\<lparr>transfer := signed_less left right, writes_register := False\<rparr>)"
| "execute_operation INSTRUCTION_BGE pc word left right imm e =
     Inr (e\<lparr>transfer := (\<not> signed_less left right), writes_register := False\<rparr>)"
| "execute_operation INSTRUCTION_BLTU pc word left right imm e =
     Inr (e\<lparr>transfer := (left < right), writes_register := False\<rparr>)"
| "execute_operation INSTRUCTION_BGEU pc word left right imm e =
     Inr (e\<lparr>transfer := (left \<ge> right), writes_register := False\<rparr>)"
| "execute_operation INSTRUCTION_LB pc word left right imm e = Inr (e\<lparr>access_width := 1\<rparr>)"
| "execute_operation INSTRUCTION_LBU pc word left right imm e = Inr (e\<lparr>access_width := 1\<rparr>)"
| "execute_operation INSTRUCTION_LH pc word left right imm e = Inr (e\<lparr>access_width := 2\<rparr>)"
| "execute_operation INSTRUCTION_LHU pc word left right imm e = Inr (e\<lparr>access_width := 2\<rparr>)"
| "execute_operation INSTRUCTION_LW pc word left right imm e = Inr (e\<lparr>access_width := 4\<rparr>)"
| "execute_operation INSTRUCTION_SB pc word left right imm e =
     Inr (e\<lparr>access_width := 1, store_access := True, writes_register := False\<rparr>)"
| "execute_operation INSTRUCTION_SH pc word left right imm e =
     Inr (e\<lparr>access_width := 2, store_access := True, writes_register := False\<rparr>)"
| "execute_operation INSTRUCTION_SW pc word left right imm e =
     Inr (e\<lparr>access_width := 4, store_access := True, writes_register := False\<rparr>)"
| "execute_operation INSTRUCTION_FENCE pc word left right imm e = Inr (e\<lparr>writes_register := False\<rparr>)"
| "execute_operation INSTRUCTION_ECALL pc word left right imm e =
     Inl (CPU_STEP_ECALL, CPU_TRAP_USER_ECALL, 0)"
| "execute_operation INSTRUCTION_EBREAK pc word left right imm e =
     Inl (CPU_STEP_BREAKPOINT, CPU_TRAP_BREAKPOINT, pc)"
| "execute_operation INSTRUCTION_UNKNOWN pc word left right imm e =
     Inl (CPU_STEP_UNKNOWN_INSTRUCTION, CPU_TRAP_ILLEGAL_INSTRUCTION, word)"

definition initial_effects :: "u32 \<Rightarrow> effects" where
  "initial_effects pc =
     \<lparr>next_pc = add32 pc (of_nat CPU_INSTRUCTION_SIZE), result_value = 0, writes_register = True,
      transfer = False, store_access = False, access_width = 0\<rparr>"

text \<open>Branch targets, and the alignment of a taken transfer's target.\<close>

definition execute_transfer ::
  "u32 \<Rightarrow> DecodedInstruction \<Rightarrow> effects \<Rightarrow> step_record \<Rightarrow> early + effects \<times> step_record" where
  "execute_transfer pc d e record =
     (let e = (if format d = INSTRUCTION_FORMAT_B \<and> transfer e
               then e\<lparr>next_pc := add32 pc (immediate d)\<rparr> else e)
      in if transfer e \<and> unat (next_pc e) mod CPU_INSTRUCTION_SIZE \<noteq> 0
         then Inl (fault record CPU_STEP_MISALIGNED_PC CPU_TRAP_INSTRUCTION_MISALIGNED (next_pc e))
         else Inr (e, record\<lparr>branch_taken := transfer e\<rparr>))"

text \<open>The value a store writes: the low \<open>width\<close> bytes of the second source.\<close>

definition store_value :: "nat \<Rightarrow> u32 \<Rightarrow> u32" where
  "store_value width right =
     (if width = 1 then ucast (ucast right :: u8)
      else if width = 2 then ucast (ucast right :: u16) else right)"

text \<open>The value a load puts in its register: LB and LH copy the sign bit upwards.\<close>

definition load_extend :: "InstructionKind \<Rightarrow> u32 \<Rightarrow> u32" where
  "load_extend k previous =
     (let value = (if k = INSTRUCTION_LB \<and> previous AND 0x80 \<noteq> 0 then previous OR 0xFFFFFF00 else previous)
      in if k = INSTRUCTION_LH \<and> value AND 0x8000 \<noteq> 0 then value OR 0xFFFF0000 else value)"

definition execute_access ::
  "memory ptr \<Rightarrow> DecodedInstruction \<Rightarrow> u32 \<Rightarrow> u32 \<Rightarrow> effects \<Rightarrow> step_record
     \<Rightarrow> early + memory ptr \<times> effects \<times> step_record" where
  "execute_access m d left right e record =
     (if access_width e = 0 then Inr (m, e, record)
      else
      let width = access_width e; store = store_access e; address = add32 left (immediate d);
          record = record\<lparr>step_memory := (step_memory record)
            \<lparr>memory_attempted := True, memory_write := store,
             memory_width := of_nat width, memory_address := address\<rparr>\<rparr>
      in
      if unat address mod width \<noteq> 0
      then Inl (fault record (if store then CPU_STEP_STORE_MISALIGNED else CPU_STEP_LOAD_MISALIGNED)
             (if store then CPU_TRAP_STORE_MISALIGNED else CPU_TRAP_LOAD_MISALIGNED) address)
      else
      (case read_width m address width of
         None \<Rightarrow>
           Inl (fault record (if store then CPU_STEP_STORE_FAILED else CPU_STEP_LOAD_FAILED)
             (if store then CPU_TRAP_STORE_ACCESS else CPU_TRAP_LOAD_ACCESS) address)
       | Some previous \<Rightarrow>
           let record = record\<lparr>step_memory := (step_memory record)
                 \<lparr>memory_before := previous, memory_after := previous\<rparr>\<rparr>
           in
           if store then
             (let value = store_value width right
              in case write_width m address width value of
                   None \<Rightarrow> Inl (fault record CPU_STEP_STORE_FAILED CPU_TRAP_STORE_ACCESS address)
                 | Some mem \<Rightarrow>
                     Inr (Ref mem, e\<lparr>result_value := value\<rparr>,
                       record\<lparr>step_memory := (step_memory record)
                         \<lparr>memory_after := value, memory_completed := True\<rparr>\<rparr>))
           else
             Inr (m, e\<lparr>result_value := load_extend (kind d) previous\<rparr>,
               record\<lparr>step_memory := (step_memory record)\<lparr>memory_completed := True\<rparr>\<rparr>)))"

text \<open>The write-back and the retirement; the result, the CPU and the record.\<close>

definition execute_retire ::
  "cpu ptr \<Rightarrow> u8 \<Rightarrow> effects \<Rightarrow> step_record \<Rightarrow> CpuStepResult \<times> cpu ptr \<times> step_record" where
  "execute_retire c dest e record =
     (let retire = (\<lambda>c' record'. (CPU_STEP_OK,
            Ref (c'\<lparr>program_counter := next_pc e, instruction_count := instruction_count c' + 1\<rparr>),
            record'))
      in
      if writes_register e then
        (let value = result_value e;
             before = (if dest = 0 then 0 else registers (the c) ! unat dest);
             after = (if dest = 0 then 0 else value);
             record = record\<lparr>step_reg := \<lparr>reg_written = True, reg_index = dest, reg_value = value,
               reg_before = before, reg_after = after, reg_changed = (before \<noteq> after)\<rparr>\<rparr>
         in case cpu_write_register c (unat dest) value of
              None \<Rightarrow> (CPU_STEP_INVALID_ARGUMENT, c, record)
            | Some c' \<Rightarrow> retire c' record)
      else retire (the c) record)"

definition execute ::
  "cpu ptr \<Rightarrow> memory ptr \<Rightarrow> step_record \<Rightarrow> CpuStepResult \<times> cpu ptr \<times> memory ptr \<times> step_record" where
  "execute c m record =
     (case execute_fetch c m record of
        Inl (result, record) \<Rightarrow> (result, c, m, record)
      | Inr (word, left, right, record) \<Rightarrow>
     (let d = step_instruction record; pc = program_counter (the c) in
      case execute_operation (kind d) pc word left right (immediate d) (initial_effects pc) of
        Inl (result, cause, value) \<Rightarrow>
          (case fault record result cause value of (result, record) \<Rightarrow> (result, c, m, record))
      | Inr e \<Rightarrow>
     (case execute_transfer pc d e record of
        Inl (result, record) \<Rightarrow> (result, c, m, record)
      | Inr (e, record) \<Rightarrow>
     (case execute_access m d left right e record of
        Inl (result, record) \<Rightarrow> (result, c, m, record)
      | Inr (m, e, record) \<Rightarrow>
     (case execute_retire c (rd (instr_fields d)) e record of
        (result, c, record) \<Rightarrow> (result, c, m, record))))))"

text \<open>The record is returned; \<^verbatim>\<open>cpu_step\<close> drops it.\<close>

definition cpu_step_recorded ::
  "cpu ptr \<Rightarrow> memory ptr \<Rightarrow> CpuStepResult \<times> cpu ptr \<times> memory ptr \<times> step_record" where
  "cpu_step_recorded c m =
     (let step = (case c of NULL \<Rightarrow> zero_record
                  | Ref cpu \<Rightarrow> zero_record
                      \<lparr>pc_before := program_counter cpu, pc_after := program_counter cpu,
                       count_before := instruction_count cpu, count_after := instruction_count cpu\<rparr>)
      in case execute c m step of
           (result, c', m', step) \<Rightarrow>
             let step = step\<lparr>step_result := result\<rparr>;
                 step = (case c' of NULL \<Rightarrow> step
                         | Ref cpu \<Rightarrow> step\<lparr>pc_after := program_counter cpu,
                                           count_after := instruction_count cpu\<rparr>)
             in (step_result step, c', m', step))"

definition cpu_step :: "cpu ptr \<Rightarrow> memory ptr \<Rightarrow> CpuStepResult \<times> cpu ptr \<times> memory ptr" where
  "cpu_step c m = (case cpu_step_recorded c m of (result, c', m', step) \<Rightarrow> (result, c', m'))"

subsection \<open>Arithmetic helpers as arithmetic\<close>


lemma uint_widen: "uint (ucast (x :: u32) :: u64) = uint x"
  using uint_lt2p [of x] by (simp add: unsigned_ucast_eq take_bit_int_eq_self)

lemma uint_narrow: "uint (ucast (w :: u64) :: u32) = uint w mod 2 ^ 32"
  by (simp add: unsigned_ucast_eq take_bit_eq_mod)

lemma add32_eq: "add32 x y = x + y"
  unfolding add32_def word_uint_eq_iff uint_narrow uint_word_ariths uint_widen
  by (simp add: mod_mod_cancel)

lemma sub32_eq: "ucast ((ucast x :: u64) - ucast y) = (x - y :: u32)"
  unfolding word_uint_eq_iff uint_narrow uint_word_ariths uint_widen
  by (simp add: mod_mod_cancel)

lemma flip_sign: "(x :: u32) XOR 0x80000000 = x + 0x80000000"
proof -
  have "x XOR push_bit 31 1 = flip_bit 31 x" by (rule flip_bit_eq_xor [symmetric])
  also have "\<dots> = x + (if bit x 31 then - (2 ^ 31) else 2 ^ 31)"
    by (simp add: flip_bit_eq_if set_bit_eq unset_bit_eq)
  finally show ?thesis by (simp split: if_splits)
qed

lemma sint_flip_sign: "sint (x :: u32) = uint (x XOR 0x80000000) - 2 ^ 31"
proof -
  have "sint x = signed_take_bit 31 (uint x)" by (simp add: sint_uint)
  also have "\<dots> = take_bit 32 (uint x + 2 ^ 31) - 2 ^ 31"
    using signed_take_bit_eq_take_bit_shift [of 31 "uint x"] by simp
  also have "take_bit 32 (uint x + 2 ^ 31) = uint (x + 0x80000000)"
    by (simp add: uint_word_ariths take_bit_eq_mod)
  finally show ?thesis by (simp only: flip_sign)
qed

lemma signed_less_iff: "signed_less x y \<longleftrightarrow> sint x < sint y"
  unfolding signed_less_def word_less_def sint_flip_sign by linarith

lemma sign_bit_iff: "(v :: u32) AND 0x80000000 \<noteq> 0 \<longleftrightarrow> bit v 31"
  using bit_iff_and_push_bit_not_eq_0 [of v 31] by simp

lemma shift_left_eq: "n < 32 \<Longrightarrow> ucast (push_bit n (ucast x :: u64)) = (push_bit n x :: u32)"
  by (rule bit_word_eqI) (auto simp: bit_simps)

lemma amount_lt: "unat ((a :: u32) AND 31) = unat a mod 32" "unat (a AND 31) < 32"
proof -
  have "a AND 31 = take_bit 5 a" using take_bit_eq_mask [of 5 a] by (simp add: mask_eq_exp_minus_1)
  then show "unat (a AND 31) = unat a mod 32" by (simp only: unsigned_take_bit_eq) (simp add: take_bit_eq_mod)
  then show "unat (a AND 31) < 32" by simp
qed

lemma arithmetic_right_eq: "arithmetic_right v a = signed_drop_bit (unat a mod 32) v"
proof (cases "a AND 31 = 0")
  case True
  then have "unat a mod 32 = 0" using amount_lt(1) [of a] by simp
  with True show ?thesis by (simp add: arithmetic_right_def)
next
  case False
  define k where "k = unat (a AND 31)"
  have k: "0 < k" "k < 32" "k = unat a mod 32"
    using False amount_lt [of a] by (simp_all add: k_def unat_gt_0 flip: amount_lt(1))
  have amount: "unat (32 - (a AND 31)) = 32 - k"
    using k by (subst unat_sub) (simp_all add: k_def word_le_nat_alt)
  have ones: "(0xFFFFFFFF :: u64) = mask 32" by (simp add: mask_eq_exp_minus_1)
  have "arithmetic_right v a = (if bit v 31
      then drop_bit k v OR ucast (push_bit (32 - k) (mask 32 :: u64)) else drop_bit k v)"
    using False by (simp only: arithmetic_right_def Let_def sign_bit_iff amount ones if_False flip: k_def)
  also have "\<dots> = signed_drop_bit k v"
    by (rule bit_word_eqI) (use k in \<open>auto simp: bit_simps dest: bit_imp_le_length split: if_splits\<close>)
  finally show ?thesis by (simp only: k)
qed

subsection \<open>What the stretches of a step return\<close>

lemma decode_fields [simp]: "instr_fields (instruction_decode w) = instruction_extract_fields w"
  unfolding instruction_decode_def Let_def
  by (simp split del: if_split add: if_distrib [where f = instr_fields] cong del: if_weak_cong)

lemma unat_slice_bound: "unat (ucast (w AND 0x1F :: u32) :: u8) < 32"
proof -
  have "w AND 0x1F \<le> 0x1F" by (rule word_and_le1)
  then have "unat (w AND 0x1F) < 32" by (simp add: word_le_nat_alt)
  then show ?thesis
    by (simp only: unsigned_ucast_eq) (rule le_less_trans [OF take_bit_nat_less_eq_self])
qed

text \<open>The decoder masks register numbers to five bits, so every register access succeeds.\<close>

lemma decoded_register_bounds:
  "unat (rd (instruction_extract_fields w)) < 32"
  "unat (rs1 (instruction_extract_fields w)) < 32"
  "unat (rs2 (instruction_extract_fields w)) < 32"
  by (simp_all add: instruction_extract_fields_def unat_slice_bound del: unsigned_ucast_eq)

text \<open>The value of register \<open>i\<close> as an instruction reads it.\<close>

definition register_value :: "cpu \<Rightarrow> nat \<Rightarrow> u32" where
  "register_value c i = (if i = 0 then 0 else registers c ! i)"

text \<open>The CPU after a write to register \<open>i\<close>.\<close>

definition with_register :: "cpu \<Rightarrow> nat \<Rightarrow> u32 \<Rightarrow> cpu" where
  "with_register c i v = (if i = 0 then c else c\<lparr>registers := (registers c)[i := v]\<rparr>)"

lemma cpu_read_register_eq: "i < 32 \<Longrightarrow> cpu_read_register (Ref c) i True = Some (register_value c i)"
  by (simp add: cpu_read_register_def register_value_def size_simps)

lemma cpu_write_register_eq: "i < 32 \<Longrightarrow> cpu_write_register (Ref c) i v = Some (with_register c i v)"
  by (simp add: cpu_write_register_def with_register_def size_simps)

lemma execute_fetch_eq:
  "execute_fetch (Ref c) (Ref m) r =
    (if halted c then Inl (CPU_STEP_HALTED, r)
     else if unat (program_counter c) mod 4 \<noteq> 0
     then Inl (fault r CPU_STEP_MISALIGNED_PC CPU_TRAP_INSTRUCTION_MISALIGNED (program_counter c))
     else case memory_read_u32 (Ref m) (program_counter c) True of
       None \<Rightarrow> Inl (fault r CPU_STEP_FETCH_FAILED CPU_TRAP_INSTRUCTION_ACCESS (program_counter c))
     | Some w \<Rightarrow>
        let d = instruction_decode w; r = r\<lparr>step_fetched := True, step_instruction := d\<rparr>;
            left = register_value c (unat (rs1 (instr_fields d)));
            right = register_value c (unat (rs2 (instr_fields d)))
        in if kind d = INSTRUCTION_UNKNOWN
           then Inl (fault r CPU_STEP_UNKNOWN_INSTRUCTION CPU_TRAP_ILLEGAL_INSTRUCTION w)
           else Inr (w, left, right, r\<lparr>rs1_value := left, rs2_value := right\<rparr>))"
  by (simp add: execute_fetch_def Let_def cpu_fetch_instruction_def size_simps(10) CPU_INSTRUCTION_SIZE_def
      cpu_read_register_eq decoded_register_bounds split: option.split)

lemma execute_retire_eq:
  assumes "unat dest < 32"
  shows "execute_retire (Ref c) dest e r =
    (CPU_STEP_OK,
     Ref ((if writes_register e then with_register c (unat dest) (result_value e) else c)
       \<lparr>program_counter := next_pc e, instruction_count := instruction_count c + 1\<rparr>),
     if writes_register e
     then r\<lparr>step_reg := \<lparr>reg_written = True, reg_index = dest, reg_value = result_value e,
        reg_before = register_value c (unat dest),
        reg_after = (if unat dest = 0 then 0 else result_value e),
        reg_changed = (register_value c (unat dest) \<noteq> (if unat dest = 0 then 0 else result_value e))\<rparr>\<rparr>
     else r)"
  using assms
  by (simp add: execute_retire_def Let_def cpu_write_register_eq register_value_def with_register_def
      unat_eq_0)

text \<open>The trap cause that goes with a result.\<close>

fun trap_of_result :: "CpuStepResult \<Rightarrow> CpuTrapCause option" where
  "trap_of_result CPU_STEP_OK = None"
| "trap_of_result CPU_STEP_HALTED = None"
| "trap_of_result CPU_STEP_INVALID_ARGUMENT = None"
| "trap_of_result CPU_STEP_MISALIGNED_PC = Some CPU_TRAP_INSTRUCTION_MISALIGNED"
| "trap_of_result CPU_STEP_FETCH_FAILED = Some CPU_TRAP_INSTRUCTION_ACCESS"
| "trap_of_result CPU_STEP_UNKNOWN_INSTRUCTION = Some CPU_TRAP_ILLEGAL_INSTRUCTION"
| "trap_of_result CPU_STEP_LOAD_MISALIGNED = Some CPU_TRAP_LOAD_MISALIGNED"
| "trap_of_result CPU_STEP_LOAD_FAILED = Some CPU_TRAP_LOAD_ACCESS"
| "trap_of_result CPU_STEP_STORE_MISALIGNED = Some CPU_TRAP_STORE_MISALIGNED"
| "trap_of_result CPU_STEP_STORE_FAILED = Some CPU_TRAP_STORE_ACCESS"
| "trap_of_result CPU_STEP_ECALL = Some CPU_TRAP_USER_ECALL"
| "trap_of_result CPU_STEP_BREAKPOINT = Some CPU_TRAP_BREAKPOINT"

text \<open>
  \<open>early_return r (res, r')\<close>: the step gave up with \<open>res\<close>, having changed in the record \<open>r\<close>
  neither the PC and count nor the register part, completed no access, and noted the trap that
  goes with \<open>res\<close> at the PC of the step.
\<close>

definition early_return :: "step_record \<Rightarrow> early \<Rightarrow> bool" where
  "early_return r early =
     (case early of (res, r') \<Rightarrow>
        res \<noteq> CPU_STEP_OK \<and> pc_before r' = pc_before r \<and> count_before r' = count_before r
        \<and> step_reg r' = step_reg r
        \<and> memory_completed (step_memory r') = memory_completed (step_memory r)
        \<and> (case trap_of_result res of
             None \<Rightarrow> step_trap r' = step_trap r
           | Some cause \<Rightarrow> trap_raised (step_trap r') \<and> trap_cause (step_trap r') = cause
               \<and> trap_instruction_address (step_trap r') = pc_before r))"

named_theorems stage_intros

lemma early_return_fault [stage_intros]:
  "trap_of_result res = Some cause \<Longrightarrow> early_return r (fault r res cause v)"
  by (auto simp: early_return_def fault_def)

lemma execute_fetch_early: "execute_fetch (Ref c) (Ref m) r = Inl early \<Longrightarrow> early_return r early"
  by (auto simp: execute_fetch_eq Let_def early_return_def fault_def split: if_splits option.splits)

lemma execute_operation_trap:
  "execute_operation k pc w l u imm e = Inl (res, cause, v) \<Longrightarrow>
    res \<noteq> CPU_STEP_OK \<and> trap_of_result res = Some cause"
  by (cases k) auto

lemma execute_transfer_early: "execute_transfer pc d e r = Inl early \<Longrightarrow> early_return r early"
  by (auto simp: execute_transfer_def Let_def early_return_def fault_def split: if_splits)

lemma execute_access_early: "execute_access m d l u e r = Inl early \<Longrightarrow> early_return r early"
  by (auto simp: execute_access_def Let_def early_return_def fault_def split: if_splits option.splits)

subsection \<open>The sized accesses as ports\<close>

text \<open>The low \<open>n\<close> bytes of a word in memory order.\<close>

definition low_bytes :: "nat \<Rightarrow> u32 \<Rightarrow> u8 list" where
  "low_bytes n v = map (\<lambda>i. ucast (drop_bit (8 * i) v)) [0..<n]"

lemma length_low_bytes [simp]: "length (low_bytes n v) = n"
  by (simp add: low_bytes_def)

lemma low_bytes_simps:
  "low_bytes 1 v = bytes8 (ucast v)" "low_bytes 2 v = bytes16 (ucast v)" "low_bytes 4 v = bytes32 v"
proof -
  have up: "[0..<1] = [0]" "[0..<2] = [0, 1 :: nat]" "[0..<4] = [0, 1, 2, 3 :: nat]"
    by (simp_all add: upt_rec)
  have "(ucast (drop_bit 8 (ucast v :: u16)) :: u8) = ucast (drop_bit 8 v)"
    "(ucast (ucast v :: u16) :: u8) = ucast v"
    by (rule bit_word_eqI, auto simp: bit_simps)+
  then show "low_bytes 1 v = bytes8 (ucast v)" "low_bytes 2 v = bytes16 (ucast v)"
    "low_bytes 4 v = bytes32 v"
    by (simp_all add: low_bytes_def up bytes8_def bytes16_def bytes32_def)
qed

text \<open>
  The interface through which the CPU uses RAM at one access width: a load is a word with the
  value of the bytes at the address, a store puts the low bytes of a word there, and both are
  accepted for the same addresses.
\<close>

locale data_port =
  fixes load :: "memory ptr \<Rightarrow> u32 \<Rightarrow> u32 option"
    and store :: "memory ptr \<Rightarrow> u32 \<Rightarrow> u32 \<Rightarrow> memory option"
    and width :: nat
  assumes load_defined: "load m a \<noteq> None \<longleftrightarrow> memory_access_valid m a width"
    and store_defined: "store m a v \<noteq> None \<longleftrightarrow> memory_access_valid m a width"
    and load_value: "memory_wf mem \<Longrightarrow> load (Ref mem) a = Some v \<Longrightarrow>
      unat v = le_value (take width (drop (unat a) (bytes_of mem)))"
    and store_bytes: "memory_wf mem \<Longrightarrow> store (Ref mem) a v = Some mem' \<Longrightarrow>
      mem' = mem\<lparr>mem_bytes := Ref (blit (bytes_of mem) (unat a) (low_bytes width v))\<rparr>"
begin

lemma store_none_iff: "store m a v = None \<longleftrightarrow> load m a = None"
  using load_defined [of m a] store_defined [of m a v] by blast

lemma store_wf:
  assumes "memory_wf mem" "store (Ref mem) a v = Some mem'"
  shows "memory_wf mem'" "mem_size mem' = mem_size mem"
proof -
  have "memory_access_valid (Ref mem) a width" using store_defined [of "Ref mem" a v] assms(2) by simp
  with assms(1) obtain bs where "mem_bytes mem = Ref bs" "length bs = mem_size mem"
    "unat a + width \<le> length bs" by (rule memory_access_valid_fits)
  with assms(1) store_bytes [OF assms] show "memory_wf mem'" "mem_size mem' = mem_size mem"
    by (simp_all add: memory_wf_def)
qed

lemma load_wf_eq:
  assumes "memory_wf mem"
  shows "load (Ref mem) a =
    (if memory_access_valid (Ref mem) a width
     then Some (word_of_nat (le_value (take width (drop (unat a) (bytes_of mem))))) else None)"
proof (cases "load (Ref mem) a")
  case None
  then show ?thesis using load_defined [of "Ref mem" a] by simp
next
  case (Some v)
  then show ?thesis
    using load_defined [of "Ref mem" a] load_value [OF assms Some] by (simp flip: load_value [OF assms Some])
qed

lemma store_wf_eq:
  assumes "memory_wf mem"
  shows "store (Ref mem) a v =
    (if memory_access_valid (Ref mem) a width
     then Some (mem\<lparr>mem_bytes := Ref (blit (bytes_of mem) (unat a) (low_bytes width v))\<rparr>) else None)"
  using store_defined [of "Ref mem" a v] store_bytes [OF assms, of a v] by (cases "store (Ref mem) a v") auto

end

text \<open>
  A cell whose values embed into words (\<open>up\<close>, zero extension) and are cut from words (\<open>down\<close>)
  is a port of its width.
\<close>

locale widened_cell = sized_cell rd wr width enc
  for rd :: "memory ptr \<Rightarrow> u32 \<Rightarrow> out \<Rightarrow> 'v option"
    and wr :: "memory ptr \<Rightarrow> u32 \<Rightarrow> 'v \<Rightarrow> memory option"
    and width :: nat
    and enc :: "'v \<Rightarrow> u8 list" +
  fixes up :: "'v \<Rightarrow> u32" and down :: "u32 \<Rightarrow> 'v"
  assumes up_value: "unat (up v) = le_value (enc v)"
    and down_bytes: "enc (down x) = low_bytes width x"

sublocale widened_cell \<subseteq> port: data_port "\<lambda>m a. map_option up (rd m a True)" "\<lambda>m a v. wr m a (down v)" width
proof unfold_locales
  show "map_option up (rd m a True) \<noteq> None \<longleftrightarrow> memory_access_valid m a width" for m a
    using rd_defined [of m a True] by simp
  show "wr m a (down v) \<noteq> None \<longleftrightarrow> memory_access_valid m a width" for m a v
    by (rule wr_defined)
  show "unat v = le_value (take width (drop (unat a) (bytes_of mem)))"
    if "memory_wf mem" "map_option up (rd (Ref mem) a True) = Some v" for mem a v
    using that rd_bytes up_value by auto
  show "mem' = mem\<lparr>mem_bytes := Ref (blit (bytes_of mem) (unat a) (low_bytes width v))\<rparr>"
    if "memory_wf mem" "wr (Ref mem) a (down v) = Some mem'" for mem a v mem'
    using wr_bytes [OF that] by (simp add: down_bytes)
qed

interpretation wide8: widened_cell memory_read_u8 memory_write_u8 1 bytes8 ucast ucast
proof unfold_locales
  show "unat (ucast v :: u32) = le_value (bytes8 v)" for v
    by (simp add: le_value_bytes unsigned_ucast_eq take_bit_nat_eq_self_iff
        order.strict_trans2 [OF unsigned_less [of v]])
qed (simp only: low_bytes_simps)

interpretation wide16: widened_cell memory_read_u16 memory_write_u16 2 bytes16 ucast ucast
proof unfold_locales
  show "unat (ucast v :: u32) = le_value (bytes16 v)" for v
    by (simp add: le_value_bytes unsigned_ucast_eq take_bit_nat_eq_self_iff
        order.strict_trans2 [OF unsigned_less [of v]])
qed (simp add: low_bytes_simps)

interpretation wide32: widened_cell memory_read_u32 memory_write_u32 4 bytes32 "\<lambda>v. v" "\<lambda>v. v"
  by unfold_locales (simp_all add: le_value_bytes low_bytes_simps)

text \<open>Every width the CPU uses is a port.\<close>

lemma width_port:
  assumes "w \<in> {1, 2, 4}"
  shows "data_port (\<lambda>m a. read_width m a w) (\<lambda>m a. write_width m a w) w"
proof -
  have "data_port (\<lambda>m a. read_width m a 1) (\<lambda>m a. write_width m a 1) 1"
    using wide8.port.data_port_axioms by (simp add: read_width_def [abs_def] write_width_def [abs_def] del: One_nat_def)
  moreover have "data_port (\<lambda>m a. read_width m a 2) (\<lambda>m a. write_width m a 2) 2"
    using wide16.port.data_port_axioms by (simp add: read_width_def [abs_def] write_width_def [abs_def])
  moreover have "data_port (\<lambda>m a. read_width m a 4) (\<lambda>m a. write_width m a 4) 4"
    using wide32.port.data_port_axioms by (simp add: read_width_def [abs_def] write_width_def [abs_def] option.map_ident)
  ultimately show ?thesis using assms by auto
qed

subsection \<open>A step as a whole\<close>

lemma execute_fetch_Inr:
  assumes "execute_fetch (Ref c) (Ref m) r = Inr (w, left, right, r')"
  shows "\<not> halted c" "unat (program_counter c) mod 4 = 0"
    "memory_read_u32 (Ref m) (program_counter c) True = Some w"
    "kind (instruction_decode w) \<noteq> INSTRUCTION_UNKNOWN"
    "left = register_value c (unat (rs1 (instruction_extract_fields w)))"
    "right = register_value c (unat (rs2 (instruction_extract_fields w)))"
    "r' = r\<lparr>step_fetched := True, step_instruction := instruction_decode w,
             rs1_value := left, rs2_value := right\<rparr>"
  using assms by (auto simp: execute_fetch_eq Let_def split: if_splits option.splits)

text \<open>The variables that the \<^verbatim>\<open>switch\<close> leaves behind.\<close>

lemma execute_operation_effects:
  assumes "execute_operation k p w left right imm e0 = Inr e" "e0 = initial_effects p"
  shows "access_width e \<in> {0, 1, 2, 4}"
    and "store_access e \<Longrightarrow> access_width e \<noteq> 0 \<and> \<not> writes_register e"
    and "\<not> transfer e \<Longrightarrow> next_pc e = p + 4"
    and "transfer e \<Longrightarrow> access_width e = 0"
  using assms
  by (cases k; auto simp: initial_effects_def add32_eq size_simps(10) CPU_INSTRUCTION_SIZE_def)+

lemma execute_transfer_Inr:
  assumes "execute_transfer p d e r = Inr (e', r')"
  shows "e' = e\<lparr>next_pc := next_pc e'\<rparr>" "r' = r\<lparr>branch_taken := transfer e\<rparr>"
    "\<not> transfer e \<Longrightarrow> next_pc e' = next_pc e" "transfer e \<Longrightarrow> unat (next_pc e') mod 4 = 0"
  using assms by (auto simp: execute_transfer_def Let_def CPU_INSTRUCTION_SIZE_def split: if_splits)

text \<open>An access that completes: none at all, a load, or a store, with what the record says of it.\<close>

lemma execute_access_Inr:
  assumes "execute_access m d left right e r = Inr (m', e', r')"
  obtains "access_width e = 0" "m' = m" "e' = e" "r' = r"
  | previous where "access_width e \<noteq> 0" "\<not> store_access e" "m' = m"
      "unat (left + immediate d) mod access_width e = 0"
      "read_width m (left + immediate d) (access_width e) = Some previous"
      "e' = e\<lparr>result_value := load_extend (kind d) previous\<rparr>"
      "r' = r\<lparr>step_memory := \<lparr>memory_attempted = True, memory_completed = True, memory_write = False,
         memory_width = of_nat (access_width e), memory_address = left + immediate d,
         memory_before = previous, memory_after = previous\<rparr>\<rparr>"
  | previous mem where "access_width e \<noteq> 0" "store_access e" "m' = Ref mem"
      "unat (left + immediate d) mod access_width e = 0"
      "read_width m (left + immediate d) (access_width e) = Some previous"
      "write_width m (left + immediate d) (access_width e) (store_value (access_width e) right) = Some mem"
      "e' = e\<lparr>result_value := store_value (access_width e) right\<rparr>"
      "r' = r\<lparr>step_memory := \<lparr>memory_attempted = True, memory_completed = True, memory_write = True,
         memory_width = of_nat (access_width e), memory_address = left + immediate d,
         memory_before = previous, memory_after = store_value (access_width e) right\<rparr>\<rparr>"
  using assms
  by (cases "step_memory r", cases "access_width e = 0"; cases "store_access e")
    (auto simp: execute_access_def Let_def add32_eq dest!: sym [of "Some _"] split: if_splits option.splits)

lemma early_return_frame:
  assumes "early_return r1 early" "pc_before r1 = pc_before r" "count_before r1 = count_before r"
    "step_reg r1 = step_reg r" "step_memory r1 = step_memory r" "step_trap r1 = step_trap r"
  shows "early_return r early"
  using assms by (auto simp: early_return_def split: option.splits)

text \<open>
  Every run of \<^verbatim>\<open>execute\<close> either gives up without touching CPU and memory, or passes all its
  stretches and retires.
\<close>

lemma execute_cases:
  assumes run: "execute (Ref c) (Ref m) r = (res, c', m', r')"
  obtains (early) "c' = Ref c" "m' = Ref m" "early_return r (res, r')"
  | (retired) w d left right e0 e1 e2 r1 r2 r3 where
      "execute_fetch (Ref c) (Ref m) r = Inr (w, left, right, r1)" "d = instruction_decode w"
      "execute_operation (kind d) (program_counter c) w left right (immediate d)
         (initial_effects (program_counter c)) = Inr e0"
      "execute_transfer (program_counter c) d e0 r1 = Inr (e1, r2)"
      "execute_access (Ref m) d left right e1 r2 = Inr (m', e2, r3)"
      "(res, c', r') = execute_retire (Ref c) (rd (instr_fields d)) e2 r3" "res = CPU_STEP_OK"
proof (cases "execute_fetch (Ref c) (Ref m) r")
  case (Inl a)
  with run execute_fetch_early [OF Inl] show thesis
    by (intro early) (auto simp: execute_def split: prod.splits)
next
  case (Inr b)
  obtain w left right r1 where fetch: "execute_fetch (Ref c) (Ref m) r = Inr (w, left, right, r1)"
    using Inr by (cases b) auto
  note fetched = execute_fetch_Inr [OF fetch]
  define d where "d = instruction_decode w"
  have r1: "pc_before r1 = pc_before r" "count_before r1 = count_before r" "step_reg r1 = step_reg r"
    "step_memory r1 = step_memory r" "step_trap r1 = step_trap r" "step_instruction r1 = d"
    using fetched(7) by (simp_all add: d_def)
  let ?op = "execute_operation (kind d) (program_counter c) w left right (immediate d)
    (initial_effects (program_counter c))"
  show thesis
  proof (cases ?op)
    case (Inl a)
    obtain res0 cause v where trap: "?op = Inl (res0, cause, v)" using Inl by (cases a) auto
    have "early_return r1 (fault r1 res0 cause v)"
      using execute_operation_trap [OF trap] by (intro early_return_fault) simp
    then have "early_return r (fault r1 res0 cause v)" by (rule early_return_frame) (fact r1)+
    with run fetch trap show thesis by (intro early) (auto simp: execute_def r1 fault_def)
  next
    case (Inr e0)
    show thesis
    proof (cases "execute_transfer (program_counter c) d e0 r1")
      case (Inl a)
      have "early_return r a" by (rule early_return_frame [OF execute_transfer_early [OF Inl]]) (fact r1)+
      with run fetch Inr Inl show thesis by (intro early) (auto simp: execute_def r1 split: prod.splits)
    next
      case (Inr b)
      obtain e1 r2 where moved: "execute_transfer (program_counter c) d e0 r1 = Inr (e1, r2)"
        using Inr by (cases b) auto
      have r2: "pc_before r2 = pc_before r" "count_before r2 = count_before r" "step_reg r2 = step_reg r"
        "step_memory r2 = step_memory r" "step_trap r2 = step_trap r"
        using execute_transfer_Inr(2) [OF moved] r1 by simp_all
      show thesis
      proof (cases "execute_access (Ref m) d left right e1 r2")
        case (Inl a)
        have "early_return r a" by (rule early_return_frame [OF execute_access_early [OF Inl]]) (fact r2)+
        with run fetch \<open>?op = Inr e0\<close> moved Inl show thesis
          by (intro early) (auto simp: execute_def r1 split: prod.splits)
      next
        case (Inr x)
        obtain m2 e2 r3 where access: "execute_access (Ref m) d left right e1 r2 = Inr (m2, e2, r3)"
          using Inr by (cases x) auto
        have "fst (execute_retire (Ref c) (rd (instr_fields d)) e2 r3) = CPU_STEP_OK"
          using execute_retire_eq [OF decoded_register_bounds(1)] by (simp add: d_def)
        with run fetch \<open>?op = Inr e0\<close> moved access show thesis
          by (intro retired [OF fetch d_def \<open>?op = Inr e0\<close> moved]) (auto simp: execute_def r1 split: prod.splits)
      qed
    qed
  qed
qed

text \<open>The record as \<^verbatim>\<open>cpu_step_recorded\<close> passes it to \<^verbatim>\<open>execute\<close>.\<close>

definition start_record :: "cpu \<Rightarrow> step_record" where
  "start_record c = zero_record
     \<lparr>pc_before := program_counter c, pc_after := program_counter c,
      count_before := instruction_count c, count_after := instruction_count c\<rparr>"

lemma cpu_step_recorded_eq:
  "cpu_step_recorded (Ref c) m =
     (case execute (Ref c) m (start_record c) of (res, c', m', r) \<Rightarrow>
        (res, c', m', (case c' of
            NULL \<Rightarrow> r\<lparr>step_result := res\<rparr>
          | Ref x \<Rightarrow> r\<lparr>step_result := res, pc_after := program_counter x, count_after := instruction_count x\<rparr>)))"
  by (simp add: cpu_step_recorded_def start_record_def Let_def split: prod.splits option.splits)

lemma execute_access_summary:
  assumes run: "execute_access (Ref m) d left right e r = Inr (m', e', r')"
    and w: "access_width e \<in> {0, 1, 2, 4}" "store_access e \<Longrightarrow> access_width e \<noteq> 0"
    and r: "\<not> memory_completed (step_memory r)"
  obtains mem' where "m' = Ref mem'" "e' = e\<lparr>result_value := result_value e'\<rparr>"
    "r' = r\<lparr>step_memory := step_memory r'\<rparr>"
    "if store_access e
     then read_width (Ref m) (memory_address (step_memory r')) (access_width e)
            = Some (memory_before (step_memory r'))
        \<and> write_width (Ref m) (memory_address (step_memory r')) (access_width e)
            (memory_after (step_memory r')) = Some mem'
     else mem' = m"
    "memory_write (step_memory r') \<and> memory_completed (step_memory r') \<longleftrightarrow> store_access e"
    "access_width e \<noteq> 0 \<longrightarrow> unat (memory_width (step_memory r')) = access_width e"
proof -
  have widths: "unat (of_nat (access_width e) :: u8) = access_width e" using w(1) by auto
  from run show thesis
  proof (cases rule: execute_access_Inr)
    case 1
    with w r show thesis by (intro that [of m]) auto
  next
    case (2 previous)
    then show thesis by (intro that [of m]) (auto simp: widths simp del: unat_of_nat)
  next
    case (3 previous mem)
    then show thesis by (intro that [of mem]) (auto simp: widths simp del: unat_of_nat)
  qed
qed

text \<open>
  The two outcomes of a step. An early return leaves CPU and memory and reports its trap; a
  retired instruction has its effects described by the variables of the \<^verbatim>\<open>switch\<close> (\<open>e\<close>, before
  the access), the value \<open>v\<close> for the destination register, and the next PC.
\<close>

lemma cpu_step_cases:
  assumes run: "cpu_step_recorded (Ref c) (Ref m) = (res, c', m', r)"
  obtains (early) "res \<noteq> CPU_STEP_OK" "c' = Ref c" "m' = Ref m" "step_result r = res"
      "pc_before r = program_counter c" "pc_after r = program_counter c"
      "count_before r = instruction_count c" "count_after r = instruction_count c"
      "\<not> reg_written (step_reg r)" "\<not> memory_completed (step_memory r)"
      "trap_raised (step_trap r) \<longleftrightarrow> trap_of_result res \<noteq> None"
      "\<And>cause. trap_of_result res = Some cause \<Longrightarrow> trap_cause (step_trap r) = cause \<and>
         trap_instruction_address (step_trap r) = program_counter c"
  | (retired) w d dest v target mem' and e :: effects where
      "res = CPU_STEP_OK" "\<not> halted c" "unat (program_counter c) mod 4 = 0"
      "memory_read_u32 (Ref m) (program_counter c) True = Some w"
      "d = instruction_decode w" "dest = unat (rd (instr_fields d))" "dest < 32"
      "access_width e \<in> {0, 1, 2, 4}"
      "store_access e \<longrightarrow> access_width e \<noteq> 0 \<and> \<not> writes_register e"
      "target = program_counter c + 4 \<or> unat target mod 4 = 0"
      "if store_access e
       then read_width (Ref m) (memory_address (step_memory r)) (access_width e) = Some (memory_before (step_memory r))
          \<and> write_width (Ref m) (memory_address (step_memory r)) (access_width e) (memory_after (step_memory r)) = Some mem'
       else mem' = m"
      "memory_write (step_memory r) \<and> memory_completed (step_memory r) \<longleftrightarrow> store_access e"
      "access_width e \<noteq> 0 \<longrightarrow> unat (memory_width (step_memory r)) = access_width e"
      "m' = Ref mem'"
      "c' = Ref ((if writes_register e then with_register c dest v else c)
              \<lparr>program_counter := target, instruction_count := instruction_count c + 1\<rparr>)"
      "step_result r = CPU_STEP_OK" "pc_before r = program_counter c" "pc_after r = target"
      "count_before r = instruction_count c" "count_after r = instruction_count c + 1"
      "\<not> trap_raised (step_trap r)"
      "reg_written (step_reg r) \<longleftrightarrow> writes_register e"
      "writes_register e \<longrightarrow> unat (reg_index (step_reg r)) = dest
         \<and> reg_before (step_reg r) = register_value c dest
         \<and> reg_after (step_reg r) = (if dest = 0 then 0 else v)"
proof -
  from run obtain r0 where run0: "execute (Ref c) (Ref m) (start_record c) = (res, c', m', r0)"
    and r: "r = (case c' of NULL \<Rightarrow> r0\<lparr>step_result := res\<rparr>
          | Ref x \<Rightarrow> r0\<lparr>step_result := res, pc_after := program_counter x, count_after := instruction_count x\<rparr>)"
    by (auto simp: cpu_step_recorded_eq split: prod.splits)
  note start = start_record_def zero_record_def
  from run0 show thesis
  proof (cases rule: execute_cases)
    case early
    then show thesis
      using r by (intro that(1)) (auto simp: early_return_def start split: option.splits)
  next
    case (retired w d left right e0 e1 e2 r1 r2 r3)
    note fetched = execute_fetch_Inr [OF retired(1)]
    note effects = execute_operation_effects [OF retired(3) refl]
    note moved = execute_transfer_Inr [OF retired(4)]
    have dest: "unat (rd (instr_fields d)) < 32" using decoded_register_bounds(1) retired(2) by simp
    have e1: "access_width e1 = access_width e0" "store_access e1 = store_access e0"
      "writes_register e1 = writes_register e0"
      using arg_cong [OF moved(1), of access_width] arg_cong [OF moved(1), of store_access]
        arg_cong [OF moved(1), of writes_register] by simp_all
    have target: "next_pc e1 = program_counter c + 4 \<or> unat (next_pc e1) mod 4 = 0"
      using moved(3,4) effects(3) by (cases "transfer e0") auto
    have r2: "\<not> memory_completed (step_memory r2)" "\<not> trap_raised (step_trap r2)"
      "\<not> reg_written (step_reg r2)" "pc_before r2 = program_counter c"
      "count_before r2 = instruction_count c"
      using moved(2) fetched(7) by (simp_all add: start)
    from retired(5) show thesis
    proof (rule execute_access_summary)
      show "access_width e1 \<in> {0, 1, 2, 4}" "\<not> memory_completed (step_memory r2)"
        "store_access e1 \<Longrightarrow> access_width e1 \<noteq> 0" using effects(1,2) e1 r2 by simp_all
      fix mem' assume mem': "m' = Ref mem'" and e2: "e2 = e1\<lparr>result_value := result_value e2\<rparr>"
        and r3: "r3 = r2\<lparr>step_memory := step_memory r3\<rparr>"
        and memory: "if store_access e1
           then read_width (Ref m) (memory_address (step_memory r3)) (access_width e1)
                  = Some (memory_before (step_memory r3))
              \<and> write_width (Ref m) (memory_address (step_memory r3)) (access_width e1)
                  (memory_after (step_memory r3)) = Some mem'
           else mem' = m"
          "memory_write (step_memory r3) \<and> memory_completed (step_memory r3) \<longleftrightarrow> store_access e1"
          "access_width e1 \<noteq> 0 \<longrightarrow> unat (memory_width (step_memory r3)) = access_width e1"
      have flags: "writes_register e2 = writes_register e1" "next_pc e2 = next_pc e1"
        by (subst e2, simp)+
      have kept: "trap_raised (step_trap r3) = trap_raised (step_trap r2)" "step_reg r3 = step_reg r2"
        "pc_before r3 = pc_before r2" "count_before r3 = count_before r2"
        by (subst r3, simp)+
      note facts = retired(2,7) retired(6) [unfolded execute_retire_eq [OF dest]] dest target effects(1,2) e1 fetched(1,2,3) mem' memory [unfolded e1] flags kept r2 r
      show thesis
        by (rule that(2) [where w = w and d = d and e = e1 and dest = "unat (rd (instr_fields d))"
            and v = "result_value e2" and target = "next_pc e1" and mem' = mem'])
          (use facts in \<open>simp_all\<close>)
    qed
  qed
qed

subsection \<open>Undoing a store\<close>

lemma le_value_low_bytes: "le_value (low_bytes n v) = unat v mod 256 ^ n"
proof (induction n)
  case 0
  then show ?case by (simp add: low_bytes_def)
next
  case (Suc n)
  have "low_bytes (Suc n) v = low_bytes n v @ [ucast (drop_bit (8 * n) v)]"
    by (simp add: low_bytes_def)
  then have "le_value (low_bytes (Suc n) v) = unat v mod 256 ^ n + 256 ^ n * (unat v div 256 ^ n mod 256)"
    using Suc unat_byte_of [of "8 * n" v] by (simp add: le_value_append power_mult del: unsigned_ucast_eq)
  also have "\<dots> = unat v mod 256 ^ Suc n"
    using mod_mult2_eq [of "unat v" "256 ^ n" 256] by (simp only: power_Suc2 add.commute)
  finally show ?case .
qed

context data_port begin

lemma loaded_bytes:
  assumes "memory_wf mem" "load (Ref mem) a = Some v"
  shows "low_bytes width v = take width (drop (unat a) (bytes_of mem))"
proof -
  have "memory_access_valid (Ref mem) a width" using load_defined [of "Ref mem" a] assms(2) by simp
  with assms(1) obtain bs where bs: "mem_bytes mem = Ref bs" "unat a + width \<le> length bs"
    by (rule memory_access_valid_fits)
  then have len: "length (take width (drop (unat a) (bytes_of mem))) = width" by simp
  have "unat v < 256 ^ width"
    using load_value [OF assms] le_value_bound [of "take width (drop (unat a) (bytes_of mem))"] len by simp
  then have "le_value (low_bytes width v) = unat v" by (simp add: le_value_low_bytes)
  then show ?thesis using load_value [OF assms] len by (intro le_value_inj) simp_all
qed

lemma store_undo:
  assumes wf: "memory_wf mem" and old: "load (Ref mem) a = Some p" and st: "store (Ref mem) a v = Some mem'"
  shows "store (Ref mem') a p = Some mem"
proof -
  have ok: "memory_access_valid (Ref mem) a width" using store_defined [of "Ref mem" a v] st by simp
  obtain bs where bs: "mem_bytes mem = Ref bs" "unat a + width \<le> length bs"
    using wf ok by (rule memory_access_valid_fits)
  note wf' = store_wf [OF wf st]
  have "memory_access_valid (Ref mem') a width"
    using ok memory_access_valid_same_size [OF wf wf'] by simp
  then have "store (Ref mem') a p =
      Some (mem'\<lparr>mem_bytes := Ref (blit (bytes_of mem') (unat a) (low_bytes width p))\<rparr>)"
    by (simp only: store_wf_eq [OF wf'(1)] if_True)
  also have "\<dots> = Some mem"
    using bs store_bytes [OF wf st] loaded_bytes [OF wf old]
    by (simp add: blit_blit_same blit_take_self)
  finally show ?thesis .
qed

end

subsection \<open>Sample programs\<close>

text \<open>A RAM of two words: an instruction word and a data word; a CPU with one register set.\<close>

definition code_memory :: "u32 \<Rightarrow> u32 \<Rightarrow> memory" where
  "code_memory w x = \<lparr>mem_bytes = Ref (bytes32 w @ bytes32 x), mem_size = 8\<rparr>"

definition cpu_with :: "nat \<Rightarrow> u32 \<Rightarrow> cpu" where
  "cpu_with i v = zero_cpu\<lparr>registers := (replicate 32 0)[i := v]\<rparr>"

lemma code_memory_wf: "memory_wf (code_memory w x)"
  by (simp add: memory_wf_def code_memory_def memory_size_valid_def size_simps)

lemma code_memory_fetch: "memory_read_u32 (Ref (code_memory w x)) 0 True = Some w"
  by (simp add: memory_read_u32_def memory_access_valid_iff code_memory_wf) (simp add: code_memory_def
    bytes32_def size_simps join32_split)

lemma code_memory_data:
  "memory_read_u32 (Ref (code_memory w x)) 4 True = Some x"
  "memory_write_u32 (Ref (code_memory w x)) 4 y = Some (code_memory w y)"
proof -
  have "memory_access_valid (Ref (code_memory w x)) 4 4"
    by (simp add: memory_access_valid_iff code_memory_wf) (simp add: code_memory_def)
  then show "memory_read_u32 (Ref (code_memory w x)) 4 True = Some x"
    "memory_write_u32 (Ref (code_memory w x)) 4 y = Some (code_memory w y)"
    by (simp_all add: memory_read_u32_def memory_write_u32_def MEMORY_WORD_SIZE_def)
      (simp_all add: code_memory_def bytes32_def join32_split)
qed

lemmas run_step = cpu_step_recorded_eq execute_def execute_fetch_eq execute_transfer_def execute_access_def
  execute_retire_eq start_record_def zero_record_def code_memory_fetch Let_def initial_effects_def add32_eq
  fault_def decoded_register_bounds

text \<open>Three programs of one instruction: \<^verbatim>\<open>ecall\<close>, \<^verbatim>\<open>addi x5, x0, 7\<close> and \<^verbatim>\<open>sw x5, 4(x0)\<close>.\<close>

lemmas run_decode = instruction_decode_def instruction_extract_fields_def opcode_simps register_ops_def
  immediate_ops_def loads_def stores_def branches_def sign_extend_def

lemma run_ecall:
  "fst (cpu_step_recorded (Ref zero_cpu) (Ref (code_memory 0x73 0))) = CPU_STEP_ECALL"
  by (simp add: run_step run_decode zero_cpu_def)

lemma run_addi:
  obtains c' m' r where
    "cpu_step_recorded (Ref zero_cpu) (Ref (code_memory 0x00700293 0)) = (CPU_STEP_OK, Ref c', Ref m', r)"
    "register_value c' 5 = 7"
  by (simp add: run_step run_decode zero_cpu_def with_register_def register_value_def size_simps)

lemma run_sw:
  obtains c' m' r where
    "cpu_step_recorded (Ref (cpu_with 5 0xAABBCCDD)) (Ref (code_memory 0x00502223 0)) = (CPU_STEP_OK, Ref c', Ref m', r)"
    "memory_read_u32 (Ref m') 4 True = Some 0xAABBCCDD"
  by (simp add: run_step run_decode cpu_with_def zero_cpu_def with_register_def register_value_def size_simps read_width_def
   write_width_def store_value_def code_memory_data)

subsection \<open>The invariant\<close>

text \<open>Whether the register file has its 32 registers with a zero x0, and the PC is aligned.\<close>

definition cpu_wf :: "cpu \<Rightarrow> bool" where
  "cpu_wf c \<longleftrightarrow> length (registers c) = CPU_REGISTER_COUNT \<and> registers c ! CPU_ZERO_REGISTER = 0"

lemma cpu_wf_zero [simp, intro]: "cpu_wf zero_cpu"
  by (simp add: cpu_wf_def zero_cpu_def size_simps)

lemma with_register_simps [simp]:
  "program_counter (with_register c i v) = program_counter c"
  "instruction_count (with_register c i v) = instruction_count c"
  "halted (with_register c i v) = halted c"
  "length (registers (with_register c i v)) = length (registers c)"
  "registers (with_register c i v) ! 0 = registers c ! 0"
  by (auto simp: with_register_def nth_list_update)

lemma aligned_add_4: "unat (p :: u32) mod 4 = 0 \<Longrightarrow> unat (p + 4) mod 4 = 0"
proof -
  assume "unat p mod 4 = 0"
  moreover have "unat (p + 4) = (unat p + 4) mod 4294967296" by (simp add: unat_word_ariths)
  moreover have "(unat p + 4) mod 4294967296 mod 4 = (unat p + 4) mod 4"
    by (rule mod_mod_cancel) simp
  ultimately show "unat (p + 4) mod 4 = 0" by (simp only: mod_add_self2)
qed

lemma cpu_step_keeps:
  assumes wf: "cpu_wf c" "memory_wf m"
    and run: "cpu_step_recorded (Ref c) (Ref m) = (res, c', m', r)"
  shows "\<exists>x y. c' = Ref x \<and> m' = Ref y \<and> cpu_wf x \<and> memory_wf y \<and> mem_size y = mem_size m \<and>
    halted x = halted c \<and>
    (unat (program_counter c) mod 4 = 0 \<longrightarrow> unat (program_counter x) mod 4 = 0) \<and>
    instruction_count x = instruction_count c + (if res = CPU_STEP_OK then 1 else 0) \<and>
    (\<forall>i<32. registers x ! i \<noteq> registers c ! i \<longrightarrow> reg_written (step_reg r) \<and> i = unat (reg_index (step_reg r)))"
  using run
proof (cases rule: cpu_step_cases)
  case early
  with wf show ?thesis by auto
next
  case (retired w d dest v target mem' e)
  have mem: "memory_wf mem' \<and> mem_size mem' = mem_size m"
  proof (cases "store_access e")
    case True
    with retired(8,9) have "access_width e \<in> {1, 2, 4}" by auto
    from data_port.store_wf [OF width_port [OF this] wf(2)] True retired(11) show ?thesis by auto
  next
    case False
    with retired(11) wf show ?thesis by simp
  qed
  have pc: "unat target mod 4 = 0" if "unat (program_counter c) mod 4 = 0"
    using retired(10) aligned_add_4 [OF that] by auto
  have regs: "i = dest" if "registers (with_register c dest v) ! i \<noteq> registers c ! i" for i
    using that by (cases "i = dest") (simp_all add: with_register_def split: if_splits)
  let ?x = "(if writes_register e then with_register c dest v else c)
    \<lparr>program_counter := target, instruction_count := instruction_count c + 1\<rparr>"
  have x: "cpu_wf ?x" "halted ?x = halted c" "program_counter ?x = target"
    "instruction_count ?x = instruction_count c + 1"
    using wf(1) by (simp_all add: cpu_wf_def CPU_ZERO_REGISTER_def)
  have "reg_written (step_reg r) \<and> i = unat (reg_index (step_reg r))"
    if "registers ?x ! i \<noteq> registers c ! i" for i
    using that regs retired(22,23) by (cases "writes_register e") simp_all
  with x mem pc show ?thesis
    by (intro exI [of _ ?x] exI [of _ mem']) (simp add: retired(1,14,15))
qed

subsection \<open>Properties\<close>

text \<open>
  C2. Traps are precise. A step that does not return OK leaves the CPU (registers, PC, retirement
  count, halt flag) and RAM exactly as they were; its record shows no register write, no completed
  access and no move of PC or count; and it notes a trap exactly when the result is one, with the
  cause of that result and the address of the instruction.
\<close>

theorem cpu_step_precise:
  assumes "cpu_step_recorded (Ref c) (Ref m) = (res, c', m', r)" and "res \<noteq> CPU_STEP_OK"
  shows "c' = Ref c \<and> m' = Ref m \<and> step_result r = res \<and>
    pc_after r = pc_before r \<and> count_after r = count_before r \<and>
    \<not> reg_written (step_reg r) \<and> \<not> memory_completed (step_memory r) \<and>
    (trap_raised (step_trap r) \<longleftrightarrow> trap_of_result res \<noteq> None) \<and>
    (\<forall>cause. trap_of_result res = Some cause \<longrightarrow>
       trap_cause (step_trap r) = cause \<and> trap_instruction_address (step_trap r) = program_counter c)"
  using assms(1)
proof (cases rule: cpu_step_cases)
  case early
  then show ?thesis by auto
next
  case retired
  with assms(2) show ?thesis by simp
qed

theorem cpu_step_precise_witness:
  "\<exists>r. cpu_step_recorded (Ref zero_cpu) (Ref (code_memory 0x73 0)) =
      (CPU_STEP_ECALL, Ref zero_cpu, Ref (code_memory 0x73 0), r)
    \<and> trap_raised (step_trap r) \<and> trap_cause (step_trap r) = CPU_TRAP_USER_ECALL"
proof -
  obtain c' m' r where run: "cpu_step_recorded (Ref zero_cpu) (Ref (code_memory 0x73 0)) = (CPU_STEP_ECALL, c', m', r)"
    using run_ecall by (metis prod.collapse)
  from cpu_step_precise [OF run] run show ?thesis by simp
qed

text \<open>
  C7. Every step keeps the machine's invariants: 32 registers with a zero x0, a well-formed RAM of
  the same size, the halt flag, and an aligned PC. The retirement count moves by one on OK and not
  otherwise, and at most the destination register of the fetched word is changed.
\<close>

theorem cpu_step_invariant:
  assumes wf: "cpu_wf c" "memory_wf m"
    and run: "cpu_step_recorded (Ref c) (Ref m) = (res, c', m', r)"
  shows "\<exists>x y. c' = Ref x \<and> m' = Ref y \<and> cpu_wf x \<and> memory_wf y \<and> mem_size y = mem_size m \<and>
    halted x = halted c \<and>
    (unat (program_counter c) mod 4 = 0 \<longrightarrow> unat (program_counter x) mod 4 = 0) \<and>
    instruction_count x = instruction_count c + (if res = CPU_STEP_OK then 1 else 0) \<and>
    (\<forall>i<32. registers x ! i \<noteq> registers c ! i \<longrightarrow> reg_written (step_reg r) \<and> i = unat (reg_index (step_reg r)))"
  using assms by (rule cpu_step_keeps)

theorem cpu_step_invariant_witness:
  "\<exists>c' m' r. cpu_step_recorded (Ref zero_cpu) (Ref (code_memory 0x00700293 0)) = (CPU_STEP_OK, Ref c', Ref m', r)
    \<and> register_value c' 5 = 7 \<and> cpu_wf c' \<and> memory_wf m' \<and> instruction_count c' = 1"
proof -
  obtain c' m' r where run: "cpu_step_recorded (Ref zero_cpu) (Ref (code_memory 0x00700293 0)) =
      (CPU_STEP_OK, Ref c', Ref m', r)" and x5: "register_value c' 5 = 7" by (rule run_addi)
  from cpu_step_invariant [OF cpu_wf_zero code_memory_wf run] run x5 show ?thesis
    by (simp add: zero_cpu_def)
qed

text \<open>
  The register, PC, count and store that a record holds, put into a CPU and RAM: \<open>redo\<close> with the
  values after the step, \<open>undo\<close> with those before it.
\<close>

definition restore :: "u32 \<Rightarrow> u64 \<Rightarrow> u32 \<Rightarrow> u32 \<Rightarrow> step_record \<Rightarrow> cpu \<Rightarrow> memory \<Rightarrow> cpu \<times> memory option" where
  "restore p n reg word r c m =
     ((if reg_written (step_reg r) then with_register c (unat (reg_index (step_reg r))) reg else c)
        \<lparr>program_counter := p, instruction_count := n\<rparr>,
      if memory_write (step_memory r) \<and> memory_completed (step_memory r)
      then write_width (Ref m) (memory_address (step_memory r)) (unat (memory_width (step_memory r))) word
      else Some m)"

definition redo :: "step_record \<Rightarrow> cpu \<Rightarrow> memory \<Rightarrow> cpu \<times> memory option" where
  "redo r = restore (pc_after r) (count_after r) (reg_after (step_reg r)) (memory_after (step_memory r)) r"

definition undo :: "step_record \<Rightarrow> cpu \<Rightarrow> memory \<Rightarrow> cpu \<times> memory option" where
  "undo r = restore (pc_before r) (count_before r) (reg_before (step_reg r)) (memory_before (step_memory r)) r"

lemma with_register_same: "with_register c i v = with_register c i (if i = 0 then 0 else v)"
  by (simp add: with_register_def)

lemma with_register_back:
  "with_register (with_register c i v \<lparr>program_counter := p, instruction_count := n\<rparr>) i (register_value c i)
     \<lparr>program_counter := program_counter c, instruction_count := instruction_count c\<rparr> = c"
  by (simp add: with_register_def register_value_def)

text \<open>
  C6. The record of a step is complete: from the state before it the record's \<^verbatim>\<open>after\<close> values
  give the state after the step, and from the state after it the \<^verbatim>\<open>before\<close> values give back the
  state before, register file, PC, count and every byte of RAM included.
\<close>

theorem cpu_step_record_complete:
  assumes wf: "memory_wf m" and run: "cpu_step_recorded (Ref c) (Ref m) = (res, Ref c', Ref m', r)"
  shows "redo r c m = (c', Some m') \<and> undo r c' m' = (c, Some m)"
  using run
proof (cases rule: cpu_step_cases)
  case early
  then show ?thesis by (simp add: redo_def undo_def restore_def)
next
  case (retired w d dest v target mem' e)
  let ?a = "memory_address (step_memory r)" and ?w = "unat (memory_width (step_memory r))"
  have mem: "(if store_access e then write_width (Ref m) ?a ?w (memory_after (step_memory r)) else Some m) = Some m'
    \<and> (if store_access e then write_width (Ref m') ?a ?w (memory_before (step_memory r)) else Some m') = Some m"
  proof (cases "store_access e")
    case True
    with retired(8,9,13) have w: "?w = access_width e" "?w \<in> {1, 2, 4}" by auto
    from data_port.store_undo [OF width_port [OF w(2)] wf] True retired(11,14) w(1) show ?thesis by auto
  next
    case False
    with retired(11,14) show ?thesis by simp
  qed
  note after = retired(18,20) and before = retired(17,19)
  have c': "c' = (if writes_register e then with_register c dest v else c)
      \<lparr>program_counter := target, instruction_count := instruction_count c + 1\<rparr>" using retired(15) by simp
  show ?thesis
  proof (cases "writes_register e")
    case True
    with retired(22,23) have reg: "reg_written (step_reg r)" "unat (reg_index (step_reg r)) = dest"
      "reg_before (step_reg r) = register_value c dest" "reg_after (step_reg r) = (if dest = 0 then 0 else v)"
      by simp_all
    have "c' = with_register c dest (reg_after (step_reg r))
        \<lparr>program_counter := target, instruction_count := instruction_count c + 1\<rparr>"
      using True by (simp only: c' reg if_True with_register_same [of c dest v])
    moreover have "with_register c' dest (reg_before (step_reg r))
        \<lparr>program_counter := program_counter c, instruction_count := instruction_count c\<rparr> = c"
      using True by (simp only: c' reg if_True with_register_back)
    ultimately show ?thesis
      using mem by (simp only: redo_def undo_def restore_def reg retired(12) after before if_True)
  next
    case False
    then have "\<not> reg_written (step_reg r)" using retired(22) by simp
    with False mem show ?thesis
      by (simp add: redo_def undo_def restore_def retired(12) after before c')
  qed
qed

theorem cpu_step_record_complete_witness:
  "\<exists>c' m' r. cpu_step_recorded (Ref (cpu_with 5 0xAABBCCDD)) (Ref (code_memory 0x00502223 0)) =
      (CPU_STEP_OK, Ref c', Ref m', r)
    \<and> memory_read_u32 (Ref m') 4 True = Some 0xAABBCCDD
    \<and> undo r c' m' = (cpu_with 5 0xAABBCCDD, Some (code_memory 0x00502223 0))"
proof -
  obtain c' m' r where run: "cpu_step_recorded (Ref (cpu_with 5 0xAABBCCDD)) (Ref (code_memory 0x00502223 0)) =
      (CPU_STEP_OK, Ref c', Ref m', r)" and data: "memory_read_u32 (Ref m') 4 True = Some 0xAABBCCDD"
    by (rule run_sw)
  from cpu_step_record_complete [OF code_memory_wf run] run data show ?thesis by blast
qed

end
