(* ===== verification/Program.thy ===== *)
theory Program
  imports Memory
begin

section \<open>Programs and their loaders\<close>

text \<open>
  The model of \<^verbatim>\<open>include/program.h\<close>, \<^verbatim>\<open>src/program_io.c\<close> and \<^verbatim>\<open>src/program.c\<close>: a loaded program
  with its RAM image, the address checks, the growing input buffer, and the loaders of raw binary
  files and of text files with one hexadecimal word per line.
  A loader returns either the error that the C code stores through its \<^verbatim>\<open>error\<close> pointer (and the
  old owner stays as it was) or the program that replaces the owner.
\<close>

subsection \<open>Data\<close>

datatype ProgramFormat = PROGRAM_WORDS | PROGRAM_BINARY | PROGRAM_ELF

record program =
  prog_memory :: memory
  load_address :: u32
  entry :: u32
  image_size :: nat
  prog_format :: ProgramFormat
  elf_data :: "u8 list ptr"
  elf_size :: nat

record ProgramError =
  error_line :: nat
  error_message :: string

type_synonym 'a loaded = "ProgramError + 'a"

definition zero_program :: program where
  "zero_program = \<lparr>prog_memory = zero_memory, load_address = 0, entry = 0, image_size = 0,
     prog_format = PROGRAM_WORDS, elf_data = NULL, elf_size = 0\<rparr>"

text \<open>
  An input stream: the bytes still to come, and whether the stream then ends with a read error
  (\<^verbatim>\<open>ferror\<close>) instead of the end of the file (\<^verbatim>\<open>feof\<close>). A read of \<open>n\<close> bytes gives the bytes and
  whether it met the end.
\<close>

record infile =
  bytes_left :: "u8 list"
  read_fails :: bool

definition file_read :: "nat \<Rightarrow> infile \<Rightarrow> u8 list \<times> bool \<times> infile" where
  "file_read n f = (take n (bytes_left f), length (bytes_left f) < n, f\<lparr>bytes_left := drop n (bytes_left f)\<rparr>)"

subsection \<open>Shared helpers\<close>

definition program_destroy :: "program ptr \<Rightarrow> program ptr" where
  "program_destroy p = (case p of NULL \<Rightarrow> NULL | Ref _ \<Rightarrow> Ref zero_program)"

definition program_error :: "nat \<Rightarrow> string \<Rightarrow> 'a loaded" where
  "program_error line message = Inl \<lparr>error_line = line, error_message = message\<rparr>"

text \<open>
  The loop of \<^verbatim>\<open>program_input_bytes\<close>: \<open>alloc n\<close> tells whether a request for \<open>n\<close> bytes succeeds,
  \<open>data\<close> holds the \<^verbatim>\<open>used\<close> bytes read so far.
\<close>

function input_loop :: "(nat \<Rightarrow> bool) \<Rightarrow> nat \<Rightarrow> infile \<Rightarrow> nat \<Rightarrow> u8 list \<Rightarrow> u8 list loaded" where
  "input_loop alloc limit f capacity data =
     (case file_read (capacity - length data) f of (got, ended, f) \<Rightarrow>
      let data = data @ got in
      if ended \<and> read_fails f then program_error 0 ''input read error''
      else if ended then Inr data
      else if length data < capacity then input_loop alloc limit f capacity data
      else case bytes_left f of
             [] \<Rightarrow> if read_fails f then program_error 0 ''input read error'' else Inr data
           | byte # others \<Rightarrow>
               if capacity = limit
               then program_error 0 ''input exceeds size limit or available RAM''
               else let next = (if capacity > limit div 2 then limit else capacity * 2) in
                    if \<not> alloc next then program_error 0 ''cannot grow file buffer''
                    else input_loop alloc limit (f\<lparr>bytes_left := others\<rparr>) next (data @ [byte]))"
  by pat_completeness auto
termination
  by (relation "measure (\<lambda>(alloc, limit, f, capacity, data). length (bytes_left f))")
    (auto simp: file_read_def dest: arg_cong [of _ _ length])

definition program_input_bytes :: "(nat \<Rightarrow> bool) \<Rightarrow> infile \<Rightarrow> nat \<Rightarrow> u8 list loaded" where
  "program_input_bytes alloc f limit =
     (let capacity = (if limit < 4096 then limit else 4096) in
      if \<not> alloc capacity then program_error 0 ''cannot allocate file buffer''
      else input_loop alloc limit f capacity [])"

definition program_address_valid :: "nat \<Rightarrow> u32 \<Rightarrow> u32 \<Rightarrow> unit loaded" where
  "program_address_valid ram_size load_addr entry_addr =
     (if \<not> memory_size_valid ram_size then program_error 0 ''invalid RAM size''
      else if unat load_addr mod MEMORY_WORD_SIZE \<noteq> 0 \<or> unat load_addr > ram_size - MEMORY_WORD_SIZE
      then program_error 0 ''load address must be aligned and inside RAM''
      else if unat entry_addr mod MEMORY_WORD_SIZE \<noteq> 0 \<or> entry_addr < load_addr
           \<or> unat entry_addr > ram_size - MEMORY_WORD_SIZE
      then program_error 0 ''entry must be aligned and inside the loaded program''
      else Inr ())"

subsection \<open>Raw binary files\<close>

text \<open>\<open>ram_ok\<close>: whether the allocation of the program's RAM succeeds.\<close>

definition program_read_binary ::
  "(nat \<Rightarrow> bool) \<Rightarrow> bool \<Rightarrow> infile ptr \<Rightarrow> nat \<Rightarrow> u32 \<Rightarrow> u32 \<Rightarrow> program ptr \<Rightarrow> program loaded" where
  "program_read_binary alloc ram_ok input ram_size load_addr entry_addr output =
     (if input = NULL \<or> output = NULL then program_error 0 ''invalid argument''
      else case program_address_valid ram_size load_addr entry_addr of
        Inl e \<Rightarrow> Inl e
      | Inr _ \<Rightarrow>
     (case program_input_bytes alloc (the input) (ram_size - unat load_addr) of
        Inl e \<Rightarrow> Inl e
      | Inr bytes \<Rightarrow>
      let sz = length bytes in
      if sz < MEMORY_WORD_SIZE \<or> unat (entry_addr - load_addr) > sz - MEMORY_WORD_SIZE
      then program_error 0 ''entry must address a complete instruction in the binary''
      else
      let next = zero_program\<lparr>load_address := load_addr, entry := entry_addr, image_size := sz,
                   prog_format := PROGRAM_BINARY\<rparr> in
      case memory_init (Ref (prog_memory next)) ram_size ram_ok of
        None \<Rightarrow> program_error 0 ''cannot allocate program RAM''
      | Some mem \<Rightarrow>
          Inr (next\<lparr>prog_memory := mem\<lparr>mem_bytes := Ref (blit (bytes_of mem) (unat load_addr) bytes)\<rparr>\<rparr>)))"

subsection \<open>Word files\<close>

text \<open>The \<^verbatim>\<open>ctype.h\<close> tests in the C locale.\<close>

definition isspace :: "u8 \<Rightarrow> bool" where
  "isspace ch \<longleftrightarrow> ch = 32 \<or> 9 \<le> ch \<and> ch \<le> 13"

definition isxdigit :: "u8 \<Rightarrow> bool" where
  "isxdigit ch \<longleftrightarrow> 48 \<le> ch \<and> ch \<le> 57 \<or> 65 \<le> ch \<and> ch \<le> 70 \<or> 97 \<le> ch \<and> ch \<le> 102"

definition tolower :: "u8 \<Rightarrow> u8" where
  "tolower ch = (if 65 \<le> ch \<and> ch \<le> 90 then ch + 32 else ch)"

text \<open>
  One line: the bytes before the newline or the end, whether the end was met, and what is left.
  The buffer of 512 bytes keeps one for the terminator.
\<close>

fun read_line :: "nat \<Rightarrow> u8 list \<Rightarrow> u8 list \<Rightarrow> (u8 list \<times> bool \<times> u8 list) loaded" where
  "read_line line_number line [] = Inr (line, True, [])"
| "read_line line_number line (ch # others) =
     (if ch = 10 then Inr (line, False, others)
      else if ch = 0 then program_error (line_number + 1) ''NUL byte in text input''
      else if length line + 1 = 512 then program_error (line_number + 1) ''line exceeds 511 bytes''
      else read_line line_number (line @ [ch]) others)"

definition hex_digit :: "u8 \<Rightarrow> u32" where
  "hex_digit p = (if p \<le> 57 then ucast p - 48 else ucast (tolower p) - 97 + 10)"

text \<open>The digits of a word: the word, the number of digits and the text after them.\<close>

fun scan_hex :: "nat \<Rightarrow> u32 \<Rightarrow> nat \<Rightarrow> u8 list \<Rightarrow> (u32 \<times> nat \<times> u8 list) loaded" where
  "scan_hex line_number word digits [] = Inr (word, digits, [])"
| "scan_hex line_number word digits (p # ps) =
     (if isxdigit p then
        (if digits + 1 > 8 then program_error line_number ''word exceeds 32 bits''
         else scan_hex line_number (push_bit 4 word OR hex_digit p) (digits + 1) ps)
      else Inr (word, digits, p # ps))"

text \<open>The word of a line; \<open>None\<close> for a blank line or a comment. 35 is \<^verbatim>\<open>#\<close>, 48 is \<^verbatim>\<open>0\<close>.\<close>

definition parse_line :: "nat \<Rightarrow> u8 list \<Rightarrow> u32 option loaded" where
  "parse_line line_number line =
     (let p = dropWhile isspace line in
      if p = [] \<or> hd p = 35 then Inr None
      else
      let p = (if hd p = 48 \<and> tl p \<noteq> [] \<and> (hd (tl p) = 120 \<or> hd (tl p) = 88) then drop 2 p else p) in
      case scan_hex line_number 0 0 p of
        Inl e \<Rightarrow> Inl e
      | Inr (word, digits, p) \<Rightarrow>
          if digits = 0 then program_error line_number ''expected a hexadecimal instruction word''
          else
          let p = dropWhile isspace p in
          if p \<noteq> [] \<and> hd p \<noteq> 35 then program_error line_number ''expected one word per line''
          else Inr (Some word))"

text \<open>Appending a word to the image.\<close>

definition append_word :: "nat \<Rightarrow> nat \<Rightarrow> program \<Rightarrow> u32 \<Rightarrow> program loaded" where
  "append_word line_number available_bytes p word =
     (if image_size p > available_bytes - MEMORY_WORD_SIZE
      then program_error line_number ''program does not fit in RAM''
      else
      case memory_write_u32 (Ref (prog_memory p)) (load_address p + of_nat (image_size p)) word of
        None \<Rightarrow> program_error line_number ''invalid program address''
      | Some mem \<Rightarrow> Inr (p\<lparr>prog_memory := mem, image_size := image_size p + MEMORY_WORD_SIZE\<rparr>))"

lemma read_line_length:
  "read_line n line bytes = Inr (line', ended, others) \<Longrightarrow>
    length others \<le> length bytes \<and> (\<not> (ended \<and> line' = line) \<longrightarrow> length others < length bytes)"
  by (induction n line bytes rule: read_line.induct)
    (auto simp: program_error_def split: if_splits)

text \<open>The loop over the lines.\<close>

function read_lines :: "bool \<Rightarrow> nat \<Rightarrow> nat \<Rightarrow> u8 list \<Rightarrow> program \<Rightarrow> program loaded" where
  "read_lines fails_at_end available_bytes line_number bytes p =
     (case read_line line_number [] bytes of
        Inl e \<Rightarrow> Inl e
      | Inr (line, ended, others) \<Rightarrow>
          if ended \<and> fails_at_end then program_error (line_number + 1) ''input read error''
          else if ended \<and> line = [] then Inr p
          else
          (case parse_line (line_number + 1) line of
             Inl e \<Rightarrow> Inl e
           | Inr None \<Rightarrow> read_lines fails_at_end available_bytes (line_number + 1) others p
           | Inr (Some word) \<Rightarrow>
               (case append_word (line_number + 1) available_bytes p word of
                  Inl e \<Rightarrow> Inl e
                | Inr p \<Rightarrow> read_lines fails_at_end available_bytes (line_number + 1) others p)))"
  by pat_completeness auto
termination
  by (relation "measure (\<lambda>(fa, av, n, bytes, p). length bytes)") (auto dest: read_line_length)

definition read_words :: "infile \<Rightarrow> program \<Rightarrow> program loaded" where
  "read_words input p =
     (let available_bytes = mem_size (prog_memory p) - unat (load_address p) in
      case read_lines (read_fails input) available_bytes 0 (bytes_left input) p of
        Inl e \<Rightarrow> Inl e
      | Inr p \<Rightarrow>
          if image_size p = 0 then program_error 0 ''program is empty''
          else if unat (entry p - load_address p) \<ge> image_size p
          then program_error 0 ''entry must point inside the loaded program''
          else Inr p)"

definition program_read_words ::
  "bool \<Rightarrow> infile ptr \<Rightarrow> nat \<Rightarrow> u32 \<Rightarrow> u32 \<Rightarrow> program ptr \<Rightarrow> program loaded" where
  "program_read_words ram_ok input ram_size load_addr entry_addr output =
     (if input = NULL \<or> output = NULL then program_error 0 ''invalid argument''
      else case program_address_valid ram_size load_addr entry_addr of
        Inl e \<Rightarrow> Inl e
      | Inr _ \<Rightarrow>
      let p = zero_program\<lparr>load_address := load_addr, entry := entry_addr\<rparr> in
      case memory_init (Ref (prog_memory p)) ram_size ram_ok of
        None \<Rightarrow> program_error 0 ''cannot allocate program RAM''
      | Some mem \<Rightarrow> read_words (the input) (p\<lparr>prog_memory := mem\<rparr>))"

subsection \<open>The input buffer\<close>

lemma input_loop_step:
  assumes "length data \<le> capacity"
  shows "input_loop alloc limit f capacity data =
    (let n = capacity - length data in
     if length (bytes_left f) < n
     then if read_fails f then program_error 0 ''input read error'' else Inr (data @ bytes_left f)
     else case drop n (bytes_left f) of
       [] \<Rightarrow> if read_fails f then program_error 0 ''input read error'' else Inr (data @ bytes_left f)
     | byte # others \<Rightarrow>
         if capacity = limit then program_error 0 ''input exceeds size limit or available RAM''
         else let next = (if capacity > limit div 2 then limit else capacity * 2) in
           if \<not> alloc next then program_error 0 ''cannot grow file buffer''
           else input_loop alloc limit (f\<lparr>bytes_left := others\<rparr>) next (data @ take n (bytes_left f) @ [byte]))"
  using assms
  by (subst input_loop.simps) (auto simp: file_read_def Let_def simp del: input_loop.simps split: list.split)

lemma input_loop_grow:
  assumes "length data \<le> capacity" "capacity \<noteq> limit"
    "drop (capacity - length data) (bytes_left f) = byte # others"
    "grown = (if capacity > limit div 2 then limit else capacity * 2)"
  shows "input_loop alloc limit f capacity data =
    (if \<not> alloc grown then program_error 0 ''cannot grow file buffer''
     else input_loop alloc limit (f\<lparr>bytes_left := others\<rparr>) grown
       (data @ take (capacity - length data) (bytes_left f) @ [byte]))"
proof -
  have "\<not> length (bytes_left f) < capacity - length data"
    using arg_cong [OF assms(3), of length] by simp
  then show ?thesis
    unfolding input_loop_step [OF assms(1)]
    by (simp only: Let_def assms(2,3) if_False list.case flip: assms(4))
qed

text \<open>What the buffer ends up with when every allocation succeeds, and what any success means.\<close>

lemma input_loop_eq:
  assumes "length data \<le> capacity" "capacity \<le> limit" "capacity = 0 \<longrightarrow> limit = 0" "\<And>n. alloc n"
  shows "input_loop alloc limit f capacity data =
    (if length data + length (bytes_left f) > limit
     then program_error 0 ''input exceeds size limit or available RAM''
     else if read_fails f then program_error 0 ''input read error'' else Inr (data @ bytes_left f))"
  using assms
proof (induction "length (bytes_left f)" arbitrary: f capacity data rule: less_induct)
  case less
  let ?n = "capacity - length data"
  show ?case
  proof (cases "drop ?n (bytes_left f)")
    case Nil
    with less.prems show ?thesis
      by (auto simp: input_loop_step Let_def simp del: input_loop.simps)
  next
    case (Cons byte others)
    have len: "length (bytes_left f) = ?n + Suc (length others)"
      using arg_cong [OF Cons, of length] by simp
    have split: "bytes_left f = take ?n (bytes_left f) @ byte # others"
      using Cons by (metis append_take_drop_id)
    show ?thesis
    proof (cases "capacity = limit")
      case True
      have "\<not> length (bytes_left f) < ?n" "length data + length (bytes_left f) > limit"
        using True len less.prems(1) by simp_all
      with True Cons less.prems(1) show ?thesis
        by (simp add: input_loop_step Let_def del: input_loop.simps)
    next
      case False
      define grown where "grown = (if capacity > limit div 2 then limit else capacity * 2)"
      have grown: "Suc capacity \<le> grown" "grown \<le> limit"
        using False less.prems(2,3) by (auto simp: grown_def)
      have data: "length (data @ take ?n (bytes_left f) @ [byte]) = Suc capacity"
        using len less.prems(1) by simp
      have "input_loop alloc limit f capacity data =
        input_loop alloc limit (f\<lparr>bytes_left := others\<rparr>) grown (data @ take ?n (bytes_left f) @ [byte])"
        using less.prems(4) by (simp only: input_loop_grow [OF less.prems(1) False Cons grown_def] not_True_eq_False if_False)
      also have "\<dots> = (if Suc capacity + length others > limit
         then program_error 0 ''input exceeds size limit or available RAM''
         else if read_fails f then program_error 0 ''input read error''
         else Inr ((data @ take ?n (bytes_left f) @ [byte]) @ others))"
        using less.hyps [of "f\<lparr>bytes_left := others\<rparr>" "data @ take ?n (bytes_left f) @ [byte]" grown]
          less.prems(4) len data grown by simp
      also have "(data @ take ?n (bytes_left f) @ [byte]) @ others = data @ bytes_left f"
        using split by simp
      finally show ?thesis using len less.prems(1) by simp
    qed
  qed
qed

lemma input_loop_Inr:
  assumes "length data \<le> capacity" "capacity \<le> limit" "capacity = 0 \<longrightarrow> limit = 0"
    "input_loop alloc limit f capacity data = Inr bytes"
  shows "bytes = data @ bytes_left f \<and> length bytes \<le> limit \<and> \<not> read_fails f"
  using assms
proof (induction "length (bytes_left f)" arbitrary: f capacity data rule: less_induct)
  case less
  let ?n = "capacity - length data"
  show ?case
  proof (cases "drop ?n (bytes_left f)")
    case Nil
    with less.prems show ?thesis
      by (auto simp: input_loop_step Let_def program_error_def simp del: input_loop.simps split: if_splits)
  next
    case (Cons byte others)
    have len: "length (bytes_left f) = ?n + Suc (length others)"
      using arg_cong [OF Cons, of length] by simp
    have split: "bytes_left f = take ?n (bytes_left f) @ byte # others"
      using Cons by (metis append_take_drop_id)
    have ne: "capacity \<noteq> limit"
      using Cons len less.prems(1,4)
      by (auto simp: input_loop_step Let_def program_error_def simp del: input_loop.simps split: if_splits)
    define grown where "grown = (if capacity > limit div 2 then limit else capacity * 2)"
    have run: "input_loop alloc limit (f\<lparr>bytes_left := others\<rparr>) grown (data @ take ?n (bytes_left f) @ [byte]) = Inr bytes"
      using less.prems(4) by (simp add: input_loop_grow [OF less.prems(1) ne Cons grown_def] program_error_def
          del: input_loop.simps split: if_splits)
    have grown: "Suc capacity \<le> grown" "grown \<le> limit"
      using ne less.prems(2,3) by (auto simp: grown_def)
    have data: "length (data @ take ?n (bytes_left f) @ [byte]) = Suc capacity"
      using len less.prems(1) by simp
    have "length others < length (bytes_left f)" using len by simp
    with less.hyps [of "f\<lparr>bytes_left := others\<rparr>" "data @ take ?n (bytes_left f) @ [byte]" grown] run data grown
    have "bytes = (data @ take ?n (bytes_left f) @ [byte]) @ others \<and> length bytes \<le> limit \<and> \<not> read_fails f"
      by auto
    moreover have "(data @ take ?n (bytes_left f) @ [byte]) @ others = data @ bytes_left f"
      using split by simp
    ultimately show ?thesis by metis
  qed
qed

lemma program_input_bytes_eq:
  assumes "\<And>n. alloc n"
  shows "program_input_bytes alloc f limit =
    (if length (bytes_left f) > limit
     then program_error 0 ''input exceeds size limit or available RAM''
     else if read_fails f then program_error 0 ''input read error'' else Inr (bytes_left f))"
  using assms by (simp add: program_input_bytes_def input_loop_eq Let_def del: input_loop.simps)

lemma program_input_bytes_Inr:
  assumes "program_input_bytes alloc f limit = Inr bytes"
  shows "bytes = bytes_left f" "length bytes \<le> limit" "\<not> read_fails f"
  using assms input_loop_Inr [of "[]" "if limit < 4096 then limit else 4096" limit alloc f bytes]
  by (auto simp: program_input_bytes_def Let_def program_error_def simp del: input_loop.simps split: if_splits)

lemma program_error_ne [simp]: "program_error n msg \<noteq> Inr x" "Inr x \<noteq> program_error n msg"
  by (simp_all add: program_error_def)

subsection \<open>Well-formed programs\<close>

text \<open>
  What a loader promises about a program: allocated RAM, an image inside it, and an aligned entry
  that leaves room for an instruction inside the image.
\<close>

definition program_wf :: "program \<Rightarrow> bool" where
  "program_wf p \<longleftrightarrow>
     memory_wf (prog_memory p) \<and> mem_bytes (prog_memory p) \<noteq> NULL
     \<and> 4 \<le> image_size p \<and> unat (load_address p) + image_size p \<le> mem_size (prog_memory p)
     \<and> unat (entry p) mod 4 = 0 \<and> unat (load_address p) \<le> unat (entry p)
     \<and> unat (entry p) + 4 \<le> unat (load_address p) + image_size p"

text \<open>The program whose RAM of size \<open>sz\<close> is zero but for the image bytes at the load address.\<close>

definition image_program :: "ProgramFormat \<Rightarrow> nat \<Rightarrow> u32 \<Rightarrow> u32 \<Rightarrow> u8 list \<Rightarrow> program" where
  "image_program fmt sz l e img = zero_program
     \<lparr>prog_memory := \<lparr>mem_bytes = Ref (blit (replicate sz 0) (unat l) img), mem_size = sz\<rparr>,
      load_address := l, entry := e, image_size := length img, prog_format := fmt\<rparr>"

text \<open>The image lies in RAM and holds the aligned entry instruction.\<close>

definition image_fits :: "nat \<Rightarrow> u32 \<Rightarrow> u32 \<Rightarrow> u8 list \<Rightarrow> bool" where
  "image_fits sz l e img \<longleftrightarrow>
     memory_size_valid sz \<and> unat l + length img \<le> sz \<and> unat e mod 4 = 0 \<and> l \<le> e
     \<and> unat e + 4 \<le> unat l + length img"

lemma image_program_wf: "image_fits sz l e img \<Longrightarrow> program_wf (image_program fmt sz l e img)"
  by (simp add: image_fits_def program_wf_def image_program_def memory_wf_def word_le_nat_alt)

text \<open>
  The interface between the loaders and the machine: whatever stream is loaded, the program is well
  formed. The two formats without a segment table promise more, namely RAM that is zero outside one
  contiguous image.
\<close>

locale program_loader =
  fixes loads :: "infile \<Rightarrow> program \<Rightarrow> bool"
  assumes loads_wf: "loads f p \<Longrightarrow> program_wf p"
begin

lemma loads_allocated: "loads f p \<Longrightarrow> memory_wf (prog_memory p) \<and> mem_bytes (prog_memory p) \<noteq> NULL"
  using loads_wf by (simp add: program_wf_def)

lemma loads_fetchable:
  assumes "loads f p"
  shows "memory_read_u32 (Ref (prog_memory p)) (entry p) True \<noteq> None"
proof -
  have p: "memory_wf (prog_memory p)" "unat (entry p) mod 4 = 0" "unat (entry p) + 4 \<le> mem_size (prog_memory p)"
    "mem_bytes (prog_memory p) \<noteq> NULL" using loads_wf [OF assms] by (simp_all add: program_wf_def)
  then have "memory_access_valid (Ref (prog_memory p)) (entry p) 4"
    by (simp add: memory_access_valid_iff [OF p(1)] dvd_eq_mod_eq_0)
  then show ?thesis unfolding cell32.rd_defined by simp
qed

end

locale image_loader =
  fixes loads :: "infile \<Rightarrow> program \<Rightarrow> bool"
  assumes loads_image: "loads f p \<Longrightarrow> \<exists>fmt sz l e img. p = image_program fmt sz l e img \<and> image_fits sz l e img"

sublocale image_loader \<subseteq> program_loader
  by unfold_locales (use loads_image image_program_wf in blast)

context image_loader
begin

lemma loads_zero_outside:
  assumes "loads f p" "i < mem_size (prog_memory p)"
    "i < unat (load_address p) \<or> unat (load_address p) + image_size p \<le> i"
  shows "bytes_of (prog_memory p) ! i = 0"
proof -
  obtain fmt sz l e img where p: "p = image_program fmt sz l e img" and fit: "unat l + length img \<le> sz"
    using loads_image [OF assms(1)] by (auto simp: image_fits_def)
  have "i < sz" "i < unat l \<or> unat l + length img \<le> i" using assms(2,3) by (simp_all add: p image_program_def)
  with fit show ?thesis by (simp add: p image_program_def nth_blit_outside)
qed

end

lemma program_address_valid_Inr:
  "program_address_valid sz l e = Inr u \<longleftrightarrow>
     memory_size_valid sz \<and> unat l mod 4 = 0 \<and> unat l \<le> sz - 4 \<and> unat e mod 4 = 0 \<and> l \<le> e \<and> unat e \<le> sz - 4"
  by (auto simp: program_address_valid_def MEMORY_WORD_SIZE_def not_less)

lemma unat_diff_le: "l \<le> e \<Longrightarrow> unat (e - l :: u32) = unat e - unat l"
  by (rule unat_sub) simp

lemma program_read_binary_Inr:
  assumes "program_read_binary alloc ram_ok (Ref f) sz l e (Ref out) = Inr p"
  shows "p = image_program PROGRAM_BINARY sz l e (bytes_left f)" "image_fits sz l e (bytes_left f)"
    "\<not> read_fails f"
proof -
  from assms obtain u bytes where valid: "program_address_valid sz l e = Inr u"
    and input: "program_input_bytes alloc f (sz - unat l) = Inr bytes"
    by (auto simp: program_read_binary_def split: sum.splits)
  note bytes = program_input_bytes_Inr [OF input]
  note v = valid [unfolded program_address_valid_Inr]
  from v have l: "unat l \<le> sz" by linarith
  have "4 \<le> length bytes" "unat e - unat l \<le> length bytes - 4" "ram_ok"
    and p: "p = image_program PROGRAM_BINARY sz l e bytes"
    using assms v by (auto simp: program_read_binary_def valid input Let_def size_simps(3) memory_init_def
        zero_program_def zero_memory_def image_program_def unat_diff_le MEMORY_WORD_SIZE_def split: if_splits)
  with bytes v l show "p = image_program PROGRAM_BINARY sz l e (bytes_left f)"
    "image_fits sz l e (bytes_left f)" "\<not> read_fails f"
    by (auto simp: image_fits_def word_le_nat_alt)
qed

interpretation binary_loader: image_loader
  "\<lambda>f p. program_read_binary alloc ram_ok (Ref f) sz l e (Ref out) = Inr p" for alloc ram_ok sz l e out
  by unfold_locales (intro exI conjI, erule program_read_binary_Inr(1), erule program_read_binary_Inr(2))

subsection \<open>Word files\<close>

text \<open>Appending to an image: the bytes of the word follow the image, or the image is full.\<close>

lemma append_word_eq:
  assumes sz: "memory_size_valid sz" and l: "unat l mod 4 = 0" and img: "length img mod 4 = 0"
    and fit: "unat l + length img \<le> sz" "unat l \<le> sz - 4"
  shows "append_word n (sz - unat l) (image_program fmt sz l e img) w =
    (if unat l + length img + 4 \<le> sz then Inr (image_program fmt sz l e (img @ bytes32 w))
     else program_error n ''program does not fit in RAM'')"
proof (cases "unat l + length img + 4 \<le> sz")
  case False
  with fit(2) memory_size_validD [OF sz] have "length img > sz - unat l - 4" by linarith
  with False show ?thesis by (simp add: append_word_def image_program_def MEMORY_WORD_SIZE_def)
next
  case True
  let ?m = "\<lparr>mem_bytes = Ref (blit (replicate sz 0) (unat l) img), mem_size = sz\<rparr>"
  have small: "sz \<le> 268435456" using memory_size_validD [OF sz] by simp
  have addr: "unat (l + of_nat (length img)) = unat l + length img"
    using True small by (subst unat_add_small) (simp_all add: unat_of_nat)
  have wf: "memory_wf ?m" using sz fit by (simp add: memory_wf_def)
  have "(unat l + length img) mod 4 = 0" using l img by presburger
  then have "memory_access_valid (Ref ?m) (l + of_nat (length img)) 4"
    using True by (simp add: memory_access_valid_iff [OF wf] addr dvd_eq_mod_eq_0)
  then obtain m' where m': "memory_write_u32 (Ref ?m) (l + of_nat (length img)) w = Some m'"
    using cell32.wr_defined [of "Ref ?m"] by (metis not_None_eq)
  have "m' = \<lparr>mem_bytes = Ref (blit (replicate sz 0) (unat l) (img @ bytes32 w)), mem_size = sz\<rparr>"
    using cell32.wr_bytes [OF wf m'] True by (simp add: addr blit_snoc)
  with True m' show ?thesis
    by (simp add: append_word_def image_program_def MEMORY_WORD_SIZE_def zero_program_def)
qed

lemma concat_bytes32_length: "length (concat (map bytes32 ws)) = 4 * length ws"
  by (induction ws) simp_all

lemma read_lines_Inr:
  assumes "memory_size_valid sz" "unat l mod 4 = 0" "length img mod 4 = 0"
    "unat l + length img \<le> sz" "unat l \<le> sz - 4"
    "read_lines fa (sz - unat l) n bytes (image_program fmt sz l e img) = Inr p"
  shows "\<exists>ws. p = image_program fmt sz l e (img @ concat (map bytes32 ws))
    \<and> unat l + length img + 4 * length ws \<le> sz"
  using assms
proof (induction "length bytes" arbitrary: bytes n img rule: less_induct)
  case less
  from less.prems(6) obtain line ended others where line: "read_line n [] bytes = Inr (line, ended, others)"
    by (auto split: sum.splits)
  show ?case
  proof (cases "ended \<and> line = []")
    case True
    with less.prems line have "p = image_program fmt sz l e img" by (auto split: if_splits)
    with less.prems(4) show ?thesis by (intro exI [of _ "[]"]) simp
  next
    case False
    then have shorter: "length others < length bytes" using read_line_length [OF line] by auto
    from less.prems(6) line False obtain w where parsed: "parse_line (n + 1) line = Inr w"
      by (auto split: sum.splits if_splits)
    show ?thesis
    proof (cases w)
      case None
      with less.prems(6) line False parsed
      have "read_lines fa (sz - unat l) (n + 1) others (image_program fmt sz l e img) = Inr p"
        by (auto split: if_splits)
      from less.hyps [OF shorter less.prems(1-5) this] show ?thesis .
    next
      case (Some word)
      with less.prems(6) line False parsed obtain p' where
        app: "append_word (n + 1) (sz - unat l) (image_program fmt sz l e img) word = Inr p'"
        and run: "read_lines fa (sz - unat l) (n + 1) others p' = Inr p"
        by (auto split: if_splits sum.splits)
      from app have fits: "unat l + length img + 4 \<le> sz" and p': "p' = image_program fmt sz l e (img @ bytes32 word)"
        by (simp_all add: append_word_eq less.prems(1-5) split: if_splits)
      have "\<exists>ws. p = image_program fmt sz l e ((img @ bytes32 word) @ concat (map bytes32 ws))
          \<and> unat l + length (img @ bytes32 word) + 4 * length ws \<le> sz"
        using less.prems(3) fits run [unfolded p']
        by (intro less.hyps [OF shorter less.prems(1,2) _ _ less.prems(5)]) simp_all
      then obtain ws where "p = image_program fmt sz l e (img @ concat (map bytes32 (word # ws)))"
          "unat l + length img + 4 * length (word # ws) \<le> sz" by auto
      then show ?thesis by blast
    qed
  qed
qed

lemma entry_room:
  fixes e l k :: nat
  shows "e mod 4 = 0 \<Longrightarrow> l mod 4 = 0 \<Longrightarrow> l \<le> e \<Longrightarrow> e - l < 4 * k \<Longrightarrow> e + 4 \<le> l + 4 * k"
  by presburger

lemma program_read_words_Inr:
  assumes "program_read_words ram_ok (Ref f) sz l e (Ref out) = Inr p"
  obtains ws where "p = image_program PROGRAM_WORDS sz l e (concat (map bytes32 ws))"
    "image_fits sz l e (concat (map bytes32 ws))" "ws \<noteq> []"
proof -
  from assms obtain u where valid: "program_address_valid sz l e = Inr u"
    by (auto simp: program_read_words_def split: sum.splits)
  note v = valid [unfolded program_address_valid_Inr]
  have start: "zero_program\<lparr>load_address := l, entry := e, prog_memory := \<lparr>mem_bytes = Ref (replicate sz 0), mem_size = sz\<rparr>\<rparr>
      = image_program PROGRAM_WORDS sz l e []"
    by (simp add: zero_program_def image_program_def)
  have run: "read_words f (image_program PROGRAM_WORDS sz l e []) = Inr p"
    using assms v by (simp add: program_read_words_def valid memory_init_def zero_memory_def start [symmetric]
        zero_program_def Let_def split: if_splits)
  have parts: "mem_size (prog_memory (image_program fmt sz l e img)) = sz" "load_address (image_program fmt sz l e img) = l"
    "entry (image_program fmt sz l e img) = e" "image_size (image_program fmt sz l e img) = length img" for fmt img
    by (simp_all add: image_program_def)
  from run have lines: "read_lines (read_fails f) (sz - unat l) 0 (bytes_left f) (image_program PROGRAM_WORDS sz l e []) = Inr p"
    and inside: "image_size p \<noteq> 0" "unat (entry p - load_address p) < image_size p"
    by (auto simp: read_words_def parts simp del: read_lines.simps split: sum.splits if_splits)
  have "unat l \<le> sz" using v memory_size_validD [of sz] by linarith
  with read_lines_Inr [OF _ _ _ _ _ lines] v obtain ws where
    p: "p = image_program PROGRAM_WORDS sz l e (concat (map bytes32 ws))" and fits: "unat l + 4 * length ws \<le> sz"
    by auto
  have ws: "ws \<noteq> []" "unat e - unat l < 4 * length ws"
    using inside v by (auto simp: p parts concat_bytes32_length unat_diff_le)
  have "unat e + 4 \<le> unat l + 4 * length ws"
    using v ws(2) by (intro entry_room) (simp_all add: word_le_nat_alt)
  with v fits ws(1) show thesis
    by (intro that [OF p]) (simp_all add: image_fits_def concat_bytes32_length)
qed

interpretation words_loader: image_loader
  "\<lambda>f p. program_read_words ram_ok (Ref f) sz l e (Ref out) = Inr p" for ram_ok sz l e out
  by unfold_locales (erule program_read_words_Inr, intro exI conjI)

subsection \<open>Writing word files\<close>

text \<open>
  A word file as a person writes it: lines with a word in hexadecimal behind \<^verbatim>\<open>0x\<close>, and comments.
\<close>

datatype text_line = Word_Line u32 | Comment_Line "u8 list"

definition hex_char :: "u32 \<Rightarrow> u8" where
  "hex_char d = (if d < 10 then 48 + ucast d else 87 + ucast d)"

definition hex_text :: "u32 \<Rightarrow> u8 list" where
  "hex_text w = map (\<lambda>i. hex_char (drop_bit (4 * i) w AND 15)) (rev [0..<8])"

primrec line_text :: "text_line \<Rightarrow> u8 list" where
  "line_text (Word_Line w) = [48, 120] @ hex_text w"
| "line_text (Comment_Line cs) = 35 # cs"

primrec line_words :: "text_line \<Rightarrow> u32 list" where
  "line_words (Word_Line w) = [w]"
| "line_words (Comment_Line cs) = []"

definition line_ok :: "text_line \<Rightarrow> bool" where
  "line_ok t \<longleftrightarrow> length (line_text t) \<le> 511 \<and> 0 \<notin> set (line_text t) \<and> 10 \<notin> set (line_text t)"

definition file_text :: "text_line list \<Rightarrow> u8 list" where
  "file_text ts = concat (map (\<lambda>t. line_text t @ [10]) ts)"

lemma nibble_cases:
  fixes d :: u32
  assumes "d < 16"
  shows "isxdigit (hex_char d) \<and> hex_digit (hex_char d) = d \<and> hex_char d \<noteq> 0 \<and> hex_char d \<noteq> 10
    \<and> hex_char d \<noteq> 120 \<and> hex_char d \<noteq> 88"
proof -
  have "unat d < 16" using assms by (simp add: word_less_nat_alt)
  then have "unat d \<in> {0, 1, 2, 3, 4, 5, 6, 7, 8, 9, 10, 11, 12, 13, 14, 15}"
    by (simp, arith)
  then have "d \<in> {0, 1, 2, 3, 4, 5, 6, 7, 8, 9, 10, 11, 12, 13, 14, 15}"
    by (auto simp: word_unat_eq_iff)
  then show ?thesis
    by (elim insertE emptyE) (simp_all add: hex_char_def isxdigit_def hex_digit_def tolower_def)
qed

lemma nibble_bound: "(x :: u32) AND 15 < 16"
proof -
  have "x AND 15 \<le> 15" by (rule word_and_le1)
  then show ?thesis by (simp add: word_le_nat_alt word_less_nat_alt)
qed

lemma nibble_join:
  "push_bit 4 (drop_bit (4 * Suc k) w) OR (drop_bit (4 * k) w AND 15) = (drop_bit (4 * k) w :: u32)"
proof -
  have nibble: "(15 :: u32) = mask 4" by (simp add: mask_eq_exp_minus_1)
  show ?thesis
    unfolding nibble
    by (rule bit_word_eqI) (auto simp: bit_simps not_less add.commute dest: bit_imp_le_length)
qed

lemma scan_hex_nibbles:
  assumes "d + k \<le> 8" "ps = [] \<or> \<not> isxdigit (hd ps)"
  shows "scan_hex n (drop_bit (4 * k) w) d (map (\<lambda>i. hex_char (drop_bit (4 * i) w AND 15)) (rev [0..<k]) @ ps)
    = Inr (w, d + k, ps)"
  using assms
proof (induction k arbitrary: d)
  case 0
  then show ?case by (cases ps) auto
next
  case (Suc k)
  have "map (\<lambda>i. hex_char (drop_bit (4 * i) w AND 15)) (rev [0..<Suc k]) =
     hex_char (drop_bit (4 * k) w AND 15) # map (\<lambda>i. hex_char (drop_bit (4 * i) w AND 15)) (rev [0..<k])"
    by simp
  moreover have "scan_hex n (drop_bit (4 * k) w) (Suc d)
     (map (\<lambda>i. hex_char (drop_bit (4 * i) w AND 15)) (rev [0..<k]) @ ps) = Inr (w, Suc d + k, ps)"
    by (rule Suc.IH) (use Suc.prems in simp_all)
  ultimately show ?case
    using Suc.prems nibble_cases [OF nibble_bound [of "drop_bit (4 * k) w"]] nibble_join [of k w]
    by (simp del: upt_Suc mult_Suc_right)
qed

lemma parse_line_word: "parse_line n (line_text (Word_Line w)) = Inr (Some w)"
proof -
  have "drop_bit (4 * 8) w = 0" by (rule bit_word_eqI) (auto simp: bit_simps dest: bit_imp_le_length)
  then have "scan_hex n 0 0 (hex_text w) = Inr (w, 8, [])"
    using scan_hex_nibbles [of 0 8 "[]" n w] by (simp add: hex_text_def)
  then show ?thesis by (simp add: parse_line_def isspace_def Let_def)
qed

lemma parse_line_comment: "parse_line n (line_text (Comment_Line cs)) = Inr None"
  by (simp add: parse_line_def isspace_def)

lemma read_line_text:
  "length acc + length t \<le> 511 \<Longrightarrow> 0 \<notin> set t \<Longrightarrow> 10 \<notin> set t \<Longrightarrow>
    read_line n acc (t @ 10 # others) = Inr (acc @ t, False, others)"
  by (induction t arbitrary: acc) auto

lemma read_lines_text:
  assumes sz: "memory_size_valid sz" "unat l mod 4 = 0" "unat l \<le> sz - 4"
  shows "list_all line_ok ts \<Longrightarrow> length img mod 4 = 0 \<Longrightarrow>
    unat l + length img + 4 * length (concat (map line_words ts)) \<le> sz \<Longrightarrow>
    read_lines False (sz - unat l) n (file_text ts) (image_program fmt sz l e img) =
      Inr (image_program fmt sz l e (img @ concat (map bytes32 (concat (map line_words ts)))))"
proof (induction ts arbitrary: n img)
  case Nil
  then show ?case by (simp add: file_text_def)
next
  case (Cons t ts)
  have line: "read_line n [] (file_text (t # ts)) = Inr (line_text t, False, file_text ts)"
    using Cons.prems(1) read_line_text [of "[]" "line_text t" n "file_text ts"]
    by (simp add: line_ok_def file_text_def)
  show ?case
  proof (cases t)
    case (Comment_Line cs)
    with line Cons show ?thesis
      by (subst read_lines.simps) (simp add: parse_line_comment del: read_lines.simps line_text.simps)
  next
    case (Word_Line w)
    have "append_word (n + 1) (sz - unat l) (image_program fmt sz l e img) w
        = Inr (image_program fmt sz l e (img @ bytes32 w))"
      using Cons.prems Word_Line sz by (subst append_word_eq) simp_all
    moreover have "read_lines False (sz - unat l) (n + 1) (file_text ts) (image_program fmt sz l e (img @ bytes32 w)) =
        Inr (image_program fmt sz l e ((img @ bytes32 w) @ concat (map bytes32 (concat (map line_words ts)))))"
      by (rule Cons.IH) (use Cons.prems Word_Line in \<open>simp_all, presburger?\<close>)
    ultimately show ?thesis
      using line Word_Line
      by (subst read_lines.simps) (simp add: parse_line_word del: read_lines.simps line_text.simps)
  qed
qed

lemma word_line_ok [simp]: "line_ok (Word_Line w)"
proof -
  have "x \<noteq> 0 \<and> x \<noteq> 10" if x: "x \<in> set (hex_text w)" for x
  proof -
    obtain i where "x = hex_char (drop_bit (4 * i) w AND 15)"
      using x unfolding hex_text_def set_map by (elim imageE)
    with nibble_cases [OF nibble_bound [of "drop_bit (4 * i) w"]] show ?thesis by simp
  qed
  then have "0 \<notin> set (hex_text w)" "10 \<notin> set (hex_text w)" by fastforce+
  then show ?thesis by (simp add: line_ok_def hex_text_def)
qed

lemma concat_bytes32_slice:
  "i < length ws \<Longrightarrow> take 4 (drop (4 * i) (concat (map bytes32 ws))) = bytes32 (ws ! i)"
proof (induction ws arbitrary: i)
  case (Cons w ws)
  then show ?case by (cases i) simp_all
qed simp

text \<open>The words of an image as the machine reads them.\<close>

lemma image_program_word:
  assumes sz: "memory_size_valid sz" and l: "unat l mod 4 = 0" and fit: "unat l + 4 * length ws \<le> sz"
    and i: "i < length ws"
  shows "memory_read_u32 (Ref (prog_memory (image_program fmt sz l e (concat (map bytes32 ws)))))
    (l + 4 * of_nat i) True = Some (ws ! i)"
proof -
  let ?b = "blit (replicate sz 0) (unat l) (concat (map bytes32 ws))"
  let ?m = "\<lparr>mem_bytes = Ref ?b, mem_size = sz\<rparr>"
  have small: "sz \<le> 268435456" using memory_size_validD [OF sz] by simp
  have "unat (4 * of_nat i :: u32) = 4 * i"
    using i fit small by (simp add: unat_word_ariths unat_of_nat)
  then have addr: "unat (l + 4 * of_nat i) = unat l + 4 * i"
    using i fit small by (subst unat_add_small) simp_all
  have wf: "memory_wf ?m" using sz fit by (simp add: memory_wf_def concat_bytes32_length)
  have "memory_access_valid (Ref ?m) (l + 4 * of_nat i) 4"
    using l i fit by (simp add: memory_access_valid_iff [OF wf] addr) presburger
  then obtain v where v: "memory_read_u32 (Ref ?m) (l + 4 * of_nat i) True = Some v"
    using cell32.rd_defined [of "Ref ?m" "l + 4 * of_nat i" True] by auto
  have "bytes32 v = take 4 (drop (unat l + 4 * i) ?b)"
    using cell32.rd_bytes [OF wf v] by (simp add: addr)
  also have "drop (unat l + 4 * i) ?b = drop (4 * i) (concat (map bytes32 ws)) @ drop (unat l + 4 * length ws) (replicate sz 0)"
    using i fit by (simp add: blit_def concat_bytes32_length)
  also have "take 4 \<dots> = bytes32 (ws ! i)"
    using concat_bytes32_slice [OF i] i by (simp add: concat_bytes32_length)
  finally show ?thesis using v by (simp add: bytes_inject image_program_def)
qed

lemma program_read_words_text:
  assumes "memory_size_valid sz" "unat l mod 4 = 0" "unat e mod 4 = 0" "l \<le> e"
    and "list_all line_ok ts" "ws = concat (map line_words ts)"
    and "unat e + 4 \<le> unat l + 4 * length ws" "unat l + 4 * length ws \<le> sz"
  shows "program_read_words True (Ref \<lparr>bytes_left = file_text ts, read_fails = False\<rparr>) sz l e (Ref out) =
    Inr (image_program PROGRAM_WORDS sz l e (concat (map bytes32 ws)))"
proof -
  have e: "unat l \<le> unat e" using assms(4) by (simp add: word_le_nat_alt)
  have "unat l \<le> sz - 4" "unat e \<le> sz - 4" using assms(7,8) e by linarith+
  then have valid: "program_address_valid sz l e = Inr ()"
    using assms e by (simp add: program_address_valid_Inr)
  have start: "zero_program\<lparr>load_address := l, entry := e, prog_memory := \<lparr>mem_bytes = Ref (replicate sz 0), mem_size = sz\<rparr>\<rparr>
      = image_program PROGRAM_WORDS sz l e []"
    by (simp add: zero_program_def image_program_def)
  have parts: "mem_size (prog_memory (image_program fmt sz l e img)) = sz" "load_address (image_program fmt sz l e img) = l"
    "entry (image_program fmt sz l e img) = e" "image_size (image_program fmt sz l e img) = length img" for fmt img
    by (simp_all add: image_program_def)
  have "read_lines False (sz - unat l) 0 (file_text ts) (image_program PROGRAM_WORDS sz l e []) =
      Inr (image_program PROGRAM_WORDS sz l e (concat (map bytes32 ws)))"
    using read_lines_text [of sz l ts "[]" 0 PROGRAM_WORDS e] assms e by simp
  moreover have "\<not> 4 * length ws \<le> unat e - unat l" "length ws \<noteq> 0" using assms(7) e by linarith+
  ultimately have "read_words \<lparr>bytes_left = file_text ts, read_fails = False\<rparr> (image_program PROGRAM_WORDS sz l e []) =
      Inr (image_program PROGRAM_WORDS sz l e (concat (map bytes32 ws)))"
    using assms(4) by (simp add: read_words_def parts unat_diff_le concat_bytes32_length del: read_lines.simps)
  with assms(1) show ?thesis
    by (simp add: program_read_words_def valid memory_init_def zero_memory_def Let_def start [symmetric] zero_program_def)
qed

subsection \<open>Properties\<close>

text \<open>
  C26. Word files round-trip: writing words in hexadecimal, one per line, with comment lines
  between them, and loading the file gives RAM that is zero but for the words in order from the
  load address on, each of which the machine reads back at its address.
\<close>

theorem words_roundtrip:
  assumes "memory_size_valid sz" "unat l mod 4 = 0" "unat e mod 4 = 0" "l \<le> e"
    and "list_all line_ok ts" "ws = concat (map line_words ts)"
    and "unat e + 4 \<le> unat l + 4 * length ws" "unat l + 4 * length ws \<le> sz"
  shows "\<exists>p. program_read_words True (Ref \<lparr>bytes_left = file_text ts, read_fails = False\<rparr>) sz l e (Ref out) = Inr p \<and>
    p = image_program PROGRAM_WORDS sz l e (concat (map bytes32 ws)) \<and>
    (\<forall>i<length ws. memory_read_u32 (Ref (prog_memory p)) (l + 4 * of_nat i) True = Some (ws ! i))"
  using program_read_words_text [OF assms] image_program_word [OF assms(1,2,8)] by blast

theorem words_roundtrip_witness:
  "\<exists>p. program_read_words True
      (Ref \<lparr>bytes_left = file_text [Comment_Line [32, 104, 105], Word_Line 0x00100093, Word_Line 0x00000073],
            read_fails = False\<rparr>) 64 8 8 (Ref zero_program) = Inr p
    \<and> memory_read_u32 (Ref (prog_memory p)) 12 True = Some 0x73"
proof -
  let ?ts = "[Comment_Line [32, 104, 105], Word_Line 0x00100093, Word_Line 0x00000073]"
  have "memory_size_valid 64" by (simp add: memory_size_valid_def size_simps)
  moreover have "list_all line_ok ?ts" by (simp add: line_ok_def [of "Comment_Line _"])
  ultimately obtain p where
    "program_read_words True (Ref \<lparr>bytes_left = file_text ?ts, read_fails = False\<rparr>) 64 8 8 (Ref zero_program) = Inr p"
    "\<forall>i<2. memory_read_u32 (Ref (prog_memory p)) (8 + 4 * of_nat i) True = Some ([0x00100093, 0x00000073] ! i)"
    using words_roundtrip [of 64 8 8 ?ts "[0x00100093, 0x00000073]" zero_program] by auto
  moreover from this(2) have "memory_read_u32 (Ref (prog_memory p)) 12 True = Some 0x73"
    by (elim allE [of _ 1]) simp
  ultimately show ?thesis by blast
qed

lemma program_read_binary_iff:
  assumes "\<And>n. alloc n"
  shows "program_read_binary alloc True (Ref f) sz l e (Ref out) = Inr p \<longleftrightarrow>
    image_fits sz l e (bytes_left f) \<and> unat l mod 4 = 0 \<and> \<not> read_fails f \<and>
    p = image_program PROGRAM_BINARY sz l e (bytes_left f)"
proof
  assume run: "program_read_binary alloc True (Ref f) sz l e (Ref out) = Inr p"
  then have "unat l mod 4 = 0"
    by (auto simp: program_read_binary_def program_address_valid_Inr split: sum.splits)
  with program_read_binary_Inr [OF run] show "image_fits sz l e (bytes_left f) \<and> unat l mod 4 = 0 \<and>
      \<not> read_fails f \<and> p = image_program PROGRAM_BINARY sz l e (bytes_left f)" by simp
next
  assume ok: "image_fits sz l e (bytes_left f) \<and> unat l mod 4 = 0 \<and> \<not> read_fails f \<and>
    p = image_program PROGRAM_BINARY sz l e (bytes_left f)"
  then have fit: "memory_size_valid sz" "unat l + length (bytes_left f) \<le> sz" "unat e mod 4 = 0" "l \<le> e"
      "unat e + 4 \<le> unat l + length (bytes_left f)" "unat l \<le> unat e"
    by (simp_all add: image_fits_def word_le_nat_alt)
  have "unat l \<le> sz - 4" "unat e \<le> sz - 4" using fit by linarith+
  then have valid: "program_address_valid sz l e = Inr ()"
    using fit ok by (simp add: program_address_valid_Inr)
  have input: "program_input_bytes alloc f (sz - unat l) = Inr (bytes_left f)"
    using fit ok by (simp add: program_input_bytes_eq [OF assms])
  show "program_read_binary alloc True (Ref f) sz l e (Ref out) = Inr p"
    using fit ok by (simp add: program_read_binary_def valid input Let_def unat_diff_le MEMORY_WORD_SIZE_def
        memory_init_def zero_program_def zero_memory_def image_program_def)
qed

text \<open>
  C27. Raw binary files: when allocations succeed, the loader accepts a file exactly if it is read
  without error, the load address is aligned, and the image fits RAM with an aligned entry that
  addresses a complete instruction; the result is RAM that is zero but for the file's bytes at the
  load address.
\<close>

theorem program_read_binary_exact:
  assumes "\<And>n. alloc n"
  shows "program_read_binary alloc True (Ref f) sz l e (Ref out) = Inr p \<longleftrightarrow>
    image_fits sz l e (bytes_left f) \<and> unat l mod 4 = 0 \<and> \<not> read_fails f \<and>
    p = image_program PROGRAM_BINARY sz l e (bytes_left f)"
  using assms by (rule program_read_binary_iff)

theorem program_read_binary_exact_witness:
  "program_read_binary (\<lambda>_. True) True (Ref \<lparr>bytes_left = [0x73, 0, 0, 0], read_fails = False\<rparr>) 8 4 4 (Ref zero_program)
    = Inr (image_program PROGRAM_BINARY 8 4 4 [0x73, 0, 0, 0])"
  using program_read_binary_exact [of "\<lambda>_. True" "\<lparr>bytes_left = [0x73, 0, 0, 0], read_fails = False\<rparr>" 8 4 4
      zero_program "image_program PROGRAM_BINARY 8 4 4 [0x73, 0, 0, 0]"]
  by (simp add: image_fits_def memory_size_valid_def size_simps)

end
