(* ===== verification/Machine.thy ===== *)
theory Machine
  imports Cpu Program
begin

section \<open>The machine\<close>

text \<open>
  The model of \<^verbatim>\<open>include/machine.h\<close> and \<^verbatim>\<open>src/machine.c\<close>: CPU, RAM and the loaded program as one
  owner, with load, reset, stop, single step and the run loop with its callbacks. The theory
  shows what load accepts, that reset restores the loaded state after any sequence of operations,
  the bounds and counters of a run, and that runs compose. Callbacks are functions on the
  caller's context, which they may change; they have no access to the machine.
\<close>

subsection \<open>Data\<close>

datatype MachineStop =
    MACHINE_READY | MACHINE_LIMIT | MACHINE_STOPPED | MACHINE_EXITED | MACHINE_TRAP
  | MACHINE_NO_PROGRAM | MACHINE_INVALID_ARGUMENT

record machine =
  m_cpu :: cpu
  m_memory :: memory
  m_initial :: program
  m_loaded :: bool
  m_exited :: bool
  m_exit_code :: u32

record MachineRun =
  run_reason :: MachineStop
  run_attempts :: u64
  run_retired :: u64
  run_last :: step_record

definition zero_machine :: machine where
  "zero_machine = \<lparr>m_cpu = zero_cpu, m_memory = zero_memory, m_initial = zero_program,
     m_loaded = False, m_exited = False, m_exit_code = 0\<rparr>"

definition zero_run :: MachineRun where
  "zero_run = \<lparr>run_reason = MACHINE_READY, run_attempts = 0, run_retired = 0, run_last = zero_record\<rparr>"

subsection \<open>Operations\<close>

definition machine_init :: "machine \<Rightarrow> machine" where
  "machine_init m = zero_machine"

definition machine_destroy :: "machine ptr \<Rightarrow> machine ptr" where
  "machine_destroy m =
     (case m of NULL \<Rightarrow> NULL
      | Ref x \<Rightarrow>
          let x = x\<lparr>m_memory := the (memory_destroy (Ref (m_memory x))),
                    m_initial := the (program_destroy (Ref (m_initial x)))\<rparr>
          in Ref zero_machine)"

text \<open>\<open>ok1\<close> and \<open>ok2\<close>: whether the allocations of the two copies of the RAM succeed.\<close>

definition machine_load :: "machine ptr \<Rightarrow> program ptr \<Rightarrow> bool \<Rightarrow> bool \<Rightarrow> machine option" where
  "machine_load m p ok1 ok2 =
     (if m = NULL \<or> p = NULL \<or> mem_bytes (prog_memory (the p)) = NULL
         \<or> \<not> memory_size_valid (mem_size (prog_memory (the p))) \<or> image_size (the p) < MEMORY_WORD_SIZE
         \<or> unat (load_address (the p)) > mem_size (prog_memory (the p)) - MEMORY_WORD_SIZE
         \<or> image_size (the p) > mem_size (prog_memory (the p)) - unat (load_address (the p))
         \<or> unat (entry (the p)) mod MEMORY_WORD_SIZE \<noteq> 0 \<or> entry (the p) < load_address (the p)
         \<or> unat (entry (the p) - load_address (the p)) > image_size (the p) - MEMORY_WORD_SIZE
      then None
      else
      (case memory_clone False (Ref (prog_memory (the p))) (Ref (m_memory zero_machine)) ok1 of
         None \<Rightarrow> None
       | Some memory \<Rightarrow>
      (case memory_clone False (Ref (prog_memory (the p))) (Ref (prog_memory (m_initial zero_machine))) ok2 of
         None \<Rightarrow> None
       | Some initial_memory \<Rightarrow>
           Some (zero_machine
             \<lparr>m_memory := memory,
              m_initial := (m_initial zero_machine)
                \<lparr>prog_memory := initial_memory, load_address := load_address (the p),
                 entry := entry (the p), image_size := image_size (the p),
                 prog_format := prog_format (the p)\<rparr>,
              m_cpu := (m_cpu zero_machine)\<lparr>program_counter := entry (the p)\<rparr>,
              m_loaded := True\<rparr>))))"

definition machine_reset :: "machine ptr \<Rightarrow> machine option" where
  "machine_reset m =
     (if m = NULL \<or> \<not> m_loaded (the m) then None
      else case memory_copy (Ref (prog_memory (m_initial (the m)))) (Ref (m_memory (the m))) of
        None \<Rightarrow> None
      | Some memory \<Rightarrow>
          Some ((the m)\<lparr>m_memory := memory,
             m_cpu := (cpu_reset (m_cpu (the m)))\<lparr>program_counter := entry (m_initial (the m))\<rparr>,
             m_exited := False, m_exit_code := 0\<rparr>))"

definition machine_stop :: "machine ptr \<Rightarrow> machine ptr" where
  "machine_stop m = (case m of NULL \<Rightarrow> NULL | Ref x \<Rightarrow> Ref (x\<lparr>m_cpu := (m_cpu x)\<lparr>halted := True\<rparr>\<rparr>))"

text \<open>Registers 17 (a7) and 10 (a0) carry the exit service and its status.\<close>

definition machine_step :: "machine ptr \<Rightarrow> MachineRun \<times> machine ptr" where
  "machine_step m =
     (case m of NULL \<Rightarrow> (zero_run\<lparr>run_reason := MACHINE_INVALID_ARGUMENT\<rparr>, m)
      | Ref x \<Rightarrow>
      if \<not> m_loaded x then (zero_run\<lparr>run_reason := MACHINE_NO_PROGRAM\<rparr>, m)
      else if m_exited x then (zero_run\<lparr>run_reason := MACHINE_EXITED\<rparr>, m)
      else
      let x = x\<lparr>m_cpu := (m_cpu x)\<lparr>halted := False\<rparr>\<rparr> in
      case cpu_step_recorded (Ref (m_cpu x)) (Ref (m_memory x)) of
        (result, c, mem, record) \<Rightarrow>
          let x = x\<lparr>m_cpu := the c, m_memory := the mem\<rparr>;
              run = zero_run\<lparr>run_last := record, run_attempts := 1\<rparr>
          in
          if result = CPU_STEP_OK
          then (run\<lparr>run_retired := 1, run_reason := MACHINE_READY\<rparr>, Ref x)
          else if result = CPU_STEP_ECALL \<and> registers (m_cpu x) ! 17 = 93
          then (run\<lparr>run_reason := MACHINE_EXITED\<rparr>,
                Ref (x\<lparr>m_exited := True, m_exit_code := registers (m_cpu x) ! 10\<rparr>))
          else (run\<lparr>run_reason := MACHINE_TRAP\<rparr>, Ref x))"

lemma machine_step_ready:
  "machine_step m = (one, m') \<Longrightarrow> run_reason one = MACHINE_READY \<Longrightarrow>
    run_attempts one = 1 \<and> run_retired one = 1"
  by (auto simp: machine_step_def zero_run_def Let_def split: option.splits prod.splits if_splits)

text \<open>
  The loop of \<^verbatim>\<open>machine_run\<close>. A callback that is NULL is \<open>None\<close>; the others take the context and
  return it.
\<close>

type_synonym 'c should_stop = "('c \<Rightarrow> bool \<times> 'c) ptr"
type_synonym 'c trace = "(step_record \<Rightarrow> 'c \<Rightarrow> 'c) ptr"

definition ask_stop :: "'c should_stop \<Rightarrow> 'c \<Rightarrow> bool \<times> 'c" where
  "ask_stop should_stop context = (case should_stop of NULL \<Rightarrow> (False, context) | Ref f \<Rightarrow> f context)"

definition tell_trace :: "'c trace \<Rightarrow> MachineRun \<Rightarrow> 'c \<Rightarrow> 'c" where
  "tell_trace trace one context =
     (case trace of NULL \<Rightarrow> context
      | Ref f \<Rightarrow> if run_attempts one \<noteq> 0 then f (run_last one) context else context)"

function run_loop ::
  "u64 \<Rightarrow> 'c should_stop \<Rightarrow> 'c trace \<Rightarrow> machine ptr \<Rightarrow> 'c \<Rightarrow> MachineRun \<Rightarrow> MachineRun \<times> machine ptr \<times> 'c" where
  "run_loop limit should_stop trace m context sofar =
     (if run_attempts sofar < limit then
        (case ask_stop should_stop context of (stop, context) \<Rightarrow>
         if stop then (sofar\<lparr>run_reason := MACHINE_STOPPED\<rparr>, machine_stop m, context)
         else
         case machine_step m of (one, m) \<Rightarrow>
           let sofar = sofar\<lparr>run_attempts := run_attempts sofar + run_attempts one,
                 run_retired := run_retired sofar + run_retired one, run_last := run_last one\<rparr>;
               context = tell_trace trace one context
           in
           if run_reason one \<noteq> MACHINE_READY then (sofar\<lparr>run_reason := run_reason one\<rparr>, m, context)
           else run_loop limit should_stop trace m context sofar)
      else (sofar\<lparr>run_reason := MACHINE_LIMIT\<rparr>, m, context))"
  by pat_completeness auto

termination
  by (relation "measure (\<lambda>(limit, stop, trace, m, context, sofar). unat limit - unat (run_attempts sofar))")
    (auto dest!: machine_step_ready [OF sym] simp: unat_inc_measure)

definition machine_run ::
  "machine ptr \<Rightarrow> u64 \<Rightarrow> 'c should_stop \<Rightarrow> 'c trace \<Rightarrow> 'c \<Rightarrow> MachineRun \<times> machine ptr \<times> 'c" where
  "machine_run m limit should_stop trace context =
     (if m = NULL \<or> limit = 0 then (zero_run\<lparr>run_reason := MACHINE_INVALID_ARGUMENT\<rparr>, m, context)
      else if \<not> m_loaded (the m) then (zero_run\<lparr>run_reason := MACHINE_NO_PROGRAM\<rparr>, m, context)
      else if m_exited (the m) then (zero_run\<lparr>run_reason := MACHINE_EXITED\<rparr>, m, context)
      else run_loop limit should_stop trace m context zero_run)"

definition machine_stop_names :: "string list" where
  "machine_stop_names =
     [''ready'', ''instruction limit reached'', ''stopped'', ''program exited'', ''trap'',
      ''no program loaded'', ''invalid argument'']"

text \<open>The value of an enumerator, and the name that goes with a value.\<close>

primrec stop_number :: "MachineStop \<Rightarrow> nat" where
  "stop_number MACHINE_READY = 0"
| "stop_number MACHINE_LIMIT = 1"
| "stop_number MACHINE_STOPPED = 2"
| "stop_number MACHINE_EXITED = 3"
| "stop_number MACHINE_TRAP = 4"
| "stop_number MACHINE_NO_PROGRAM = 5"
| "stop_number MACHINE_INVALID_ARGUMENT = 6"

definition machine_stop_name :: "nat \<Rightarrow> string" where
  "machine_stop_name reason =
     (if reason < length machine_stop_names then machine_stop_names ! reason else ''unknown stop'')"

subsection \<open>Load and reset\<close>

text \<open>The machine right after a load: zero CPU at the entry, two equal copies of the RAM.\<close>

definition fresh_machine :: "program \<Rightarrow> machine" where
  "fresh_machine p = zero_machine
     \<lparr>m_cpu := zero_cpu\<lparr>program_counter := entry p\<rparr>, m_memory := prog_memory p,
      m_initial := p\<lparr>elf_data := NULL, elf_size := 0\<rparr>, m_loaded := True\<rparr>"

lemma load_guard:
  assumes "memory_wf (prog_memory p)"
  shows "program_wf p \<longleftrightarrow>
     \<not> (mem_bytes (prog_memory p) = NULL
         \<or> \<not> memory_size_valid (mem_size (prog_memory p)) \<or> image_size p < MEMORY_WORD_SIZE
         \<or> unat (load_address p) > mem_size (prog_memory p) - MEMORY_WORD_SIZE
         \<or> image_size p > mem_size (prog_memory p) - unat (load_address p)
         \<or> unat (entry p) mod MEMORY_WORD_SIZE \<noteq> 0 \<or> entry p < load_address p
         \<or> unat (entry p - load_address p) > image_size p - MEMORY_WORD_SIZE)"
proof (cases "mem_bytes (prog_memory p) = NULL \<or> entry p < load_address p")
  case True
  then show ?thesis by (auto simp: program_wf_def word_less_nat_alt)
next
  case False
  then have e: "unat (entry p - load_address p) = unat (entry p) - unat (load_address p)"
    "unat (load_address p) \<le> unat (entry p)"
    by (simp_all add: unat_diff_le not_less word_le_nat_alt)
  have sz: "memory_size_valid (mem_size (prog_memory p))" "4 \<le> mem_size (prog_memory p)"
    using False assms by (auto simp: memory_wf_def memory_size_valid_def size_simps)
  show ?thesis
    using False assms sz e by (auto simp: program_wf_def MEMORY_WORD_SIZE_def not_less)
qed

lemma machine_load_eq:
  assumes "memory_wf (prog_memory p)"
  shows "machine_load (Ref m) (Ref p) ok1 ok2 =
    (if program_wf p \<and> ok1 \<and> ok2 then Some (fresh_machine p) else None)"
proof (cases "program_wf p")
  case True
  then have "mem_bytes (prog_memory p) \<noteq> NULL" by (simp add: program_wf_def)
  moreover have "memory_wf (m_memory zero_machine)" "memory_wf (prog_memory (m_initial zero_machine))"
    by (simp_all add: zero_machine_def zero_program_def)
  ultimately show ?thesis
    using True [unfolded load_guard [OF assms]]
    by (auto simp: machine_load_def memory_clone_wf_eq [OF assms] True fresh_machine_def zero_machine_def
        zero_program_def) 
next
  case False
  then show ?thesis using load_guard [OF assms] by (auto simp: machine_load_def)
qed

subsection \<open>The machine invariant\<close>

definition machine_wf :: "machine \<Rightarrow> bool" where
  "machine_wf m \<longleftrightarrow>
     cpu_wf (m_cpu m) \<and> memory_wf (m_memory m)
     \<and> (m_loaded m \<longrightarrow> program_wf (m_initial m)
          \<and> mem_size (m_memory m) = mem_size (prog_memory (m_initial m))
          \<and> unat (program_counter (m_cpu m)) mod 4 = 0)
     \<and> (m_exited m \<longrightarrow> m_loaded m)"

lemma machine_wf_zero [intro]: "machine_wf zero_machine"
  by (simp add: machine_wf_def zero_machine_def)

lemma machine_wf_fresh: "program_wf p \<Longrightarrow> machine_wf (fresh_machine p)"
  by (auto simp: machine_wf_def fresh_machine_def zero_machine_def program_wf_def cpu_wf_def
      zero_cpu_def size_simps)

lemma machine_reset_eq:
  assumes "machine_wf m"
  shows "machine_reset (Ref m) =
    (if m_loaded m then Some (m\<lparr>m_memory := prog_memory (m_initial m),
        m_cpu := zero_cpu\<lparr>program_counter := entry (m_initial m)\<rparr>, m_exited := False, m_exit_code := 0\<rparr>)
     else None)"
proof (cases "m_loaded m")
  case True
  then have p: "program_wf (m_initial m)" "mem_size (m_memory m) = mem_size (prog_memory (m_initial m))"
    "memory_wf (m_memory m)" using assms by (simp_all add: machine_wf_def)
  then have bytes: "mem_bytes (prog_memory (m_initial m)) \<noteq> NULL" "memory_wf (prog_memory (m_initial m))"
    by (simp_all add: program_wf_def)
  then have "mem_size (prog_memory (m_initial m)) \<noteq> 0"
    by (auto simp: memory_wf_def memory_size_valid_def size_simps)
  then have "mem_bytes (m_memory m) \<noteq> NULL" using p(2,3) by (auto simp: memory_wf_def split: option.splits)
  with True p bytes show ?thesis
    by (simp add: machine_reset_def memory_copy_wf_eq cpu_reset_def)
qed (simp add: machine_reset_def)

lemma machine_reset_wf:
  assumes "machine_wf m" "machine_reset (Ref m) = Some m'"
  shows "machine_wf m'"
  using assms
  by (auto simp: machine_reset_eq machine_wf_def program_wf_def cpu_wf_def zero_cpu_def size_simps split: if_splits)

subsection \<open>Steps\<close>

definition stopped :: "machine \<Rightarrow> machine" where
  "stopped m = m\<lparr>m_cpu := (m_cpu m)\<lparr>halted := True\<rparr>\<rparr>"

definition running :: "machine \<Rightarrow> machine" where
  "running m = m\<lparr>m_cpu := (m_cpu m)\<lparr>halted := False\<rparr>\<rparr>"

lemma machine_stop_eq [simp]: "machine_stop (Ref m) = Ref (stopped m)"
  by (simp add: machine_stop_def stopped_def)

lemma flag_parts [simp]:
  "m_memory (stopped m) = m_memory m" "m_initial (stopped m) = m_initial m"
  "m_loaded (stopped m) = m_loaded m" "m_exited (stopped m) = m_exited m"
  "m_memory (running m) = m_memory m" "m_initial (running m) = m_initial m"
  "m_loaded (running m) = m_loaded m" "m_exited (running m) = m_exited m"
  "instruction_count (m_cpu (stopped m)) = instruction_count (m_cpu m)"
  "instruction_count (m_cpu (running m)) = instruction_count (m_cpu m)"
  "machine_wf (stopped m) = machine_wf m" "machine_wf (running m) = machine_wf m"
  by (simp_all add: stopped_def running_def machine_wf_def cpu_wf_def)

text \<open>
  What one step does to a loaded machine that has not exited: it retires an instruction, or the
  program exits, or it traps; in the last two cases CPU and RAM keep their contents.
\<close>

lemma machine_step_cases:
  assumes run: "machine_step (Ref m) = (one, m')" and "m_loaded m" "\<not> m_exited m"
  obtains (ready) c mem r where "one = \<lparr>run_reason = MACHINE_READY, run_attempts = 1, run_retired = 1, run_last = r\<rparr>"
      "cpu_step_recorded (Ref (m_cpu (running m))) (Ref (m_memory m)) = (CPU_STEP_OK, Ref c, Ref mem, r)"
      "m' = Ref (m\<lparr>m_cpu := c, m_memory := mem\<rparr>)"
  | (exit) r where "one = \<lparr>run_reason = MACHINE_EXITED, run_attempts = 1, run_retired = 0, run_last = r\<rparr>"
      "cpu_step_recorded (Ref (m_cpu (running m))) (Ref (m_memory m))
         = (CPU_STEP_ECALL, Ref (m_cpu (running m)), Ref (m_memory m), r)"
      "registers (m_cpu m) ! 17 = 93"
      "m' = Ref ((running m)\<lparr>m_exited := True, m_exit_code := registers (m_cpu m) ! 10\<rparr>)"
  | (trap) res r where "one = \<lparr>run_reason = MACHINE_TRAP, run_attempts = 1, run_retired = 0, run_last = r\<rparr>"
      "cpu_step_recorded (Ref (m_cpu (running m))) (Ref (m_memory m))
         = (res, Ref (m_cpu (running m)), Ref (m_memory m), r)"
      "res \<noteq> CPU_STEP_OK" "\<not> (res = CPU_STEP_ECALL \<and> registers (m_cpu m) ! 17 = 93)"
      "m' = Ref (running m)"
proof -
  obtain res c mem r where step: "cpu_step_recorded (Ref (m_cpu (running m))) (Ref (m_memory m)) = (res, c, mem, r)"
    by (metis prod_cases4)
  have out: "(one, m') = machine_step (Ref m)" using run by simp
  note unfold = machine_step_def Let_def step [unfolded running_def, simplified] running_def zero_run_def
  from step show thesis
  proof (cases rule: cpu_step_cases)
    case early
    then show thesis
      using out assms(2,3) that(2,3) [of r] that(3) [of r res]
      by (cases "res = CPU_STEP_ECALL \<and> registers (m_cpu m) ! 17 = 93") (auto simp: unfold step)
  next
    case retired
    then show thesis
      using out assms(2,3) step by (intro that(1)) (auto simp: unfold)
  qed
qed

lemma machine_step_idle:
  "\<not> m_loaded m \<or> m_exited m \<Longrightarrow> machine_step (Ref m) =
    (zero_run\<lparr>run_reason := if m_loaded m then MACHINE_EXITED else MACHINE_NO_PROGRAM\<rparr>, Ref m)"
  by (auto simp: machine_step_def)

lemma machine_step_wf:
  assumes wf: "machine_wf m" and run: "machine_step (Ref m) = (one, m')"
  obtains x where "m' = Ref x" "machine_wf x" "m_initial x = m_initial m" "m_loaded x = m_loaded m"
    "mem_size (m_memory x) = mem_size (m_memory m)"
    "instruction_count (m_cpu x) = instruction_count (m_cpu m) + run_retired one"
    "run_attempts one \<le> 1" "run_retired one \<le> run_attempts one"
    "run_reason one \<in> {MACHINE_READY, MACHINE_EXITED, MACHINE_TRAP, MACHINE_NO_PROGRAM}"
    "run_reason one = MACHINE_EXITED \<longleftrightarrow> m_exited x"
    "run_reason one = MACHINE_READY \<longleftrightarrow> run_retired one = 1"
proof (cases "m_loaded m \<and> \<not> m_exited m")
  case False
  with machine_step_idle [of m] run wf show thesis
    by (intro that [of m]) (auto simp: zero_run_def machine_wf_def)
next
  case True
  have wf': "machine_wf (running m)" using wf by simp
  from True have live: "m_loaded m" "\<not> m_exited m" by simp_all
  from run live show thesis
  proof (cases rule: machine_step_cases)
    case (ready c mem r)
    have inv: "cpu_wf (m_cpu (running m))" "memory_wf (m_memory m)"
      using wf' by (simp_all add: machine_wf_def)
    from cpu_step_keeps [OF inv ready(2)] have
      keep: "cpu_wf c" "memory_wf mem" "mem_size mem = mem_size (m_memory m)"
        "instruction_count c = instruction_count (m_cpu m) + 1"
        "unat (program_counter (m_cpu (running m))) mod 4 = 0 \<longrightarrow> unat (program_counter c) mod 4 = 0"
      by simp_all
    with True ready(1,3) wf' show thesis
      by (intro that [of "m\<lparr>m_cpu := c, m_memory := mem\<rparr>"]) (simp_all add: machine_wf_def)
  next
    case (exit r)
    with True wf' show thesis
      by (intro that [of "(running m)\<lparr>m_exited := True, m_exit_code := registers (m_cpu m) ! 10\<rparr>"])
        (simp_all add: machine_wf_def)
  next
    case (trap res r)
    with True wf' show thesis by (intro that [of "running m"]) simp_all
  qed
qed

subsection \<open>Runs\<close>

text \<open>
  What a caller of the run loop relies on: a property of the machine that every step and a stop
  keep is kept by every run, whatever the limit and the callbacks.
\<close>

locale run_invariant =
  fixes I :: "machine \<Rightarrow> bool"
  assumes step_keeps: "I m \<Longrightarrow> machine_step (Ref m) = (one, m') \<Longrightarrow> \<exists>x. m' = Ref x \<and> I x"
    and stop_keeps: "I m \<Longrightarrow> I (stopped m)"
begin

lemma loop_keeps:
  "I m \<Longrightarrow> run_loop limit should_stop trace (Ref m) context sofar = (r, m', context') \<Longrightarrow>
    \<exists>x. m' = Ref x \<and> I x"
proof (induction limit should_stop trace "Ref m" "context" sofar arbitrary: m rule: run_loop.induct)
  case (1 limit should_stop trace ctx0 sofar)
  obtain stop ctx where ask: "ask_stop should_stop ctx0 = (stop, ctx)" by fastforce
  obtain one m1 where step: "machine_step (Ref m) = (one, m1)" by fastforce
  from step_keeps [OF "1.prems"(1) step] obtain x where x: "m1 = Ref x" "I x" by blast
  show ?case
  proof (cases "run_attempts sofar < limit \<and> \<not> stop \<and> run_reason one = MACHINE_READY")
    case True
    show ?thesis
      by (rule "1.hyps" [OF _ ask [symmetric] _ step [unfolded x(1), symmetric] refl refl _ x(2)])
        (use True "1.prems"(2) ask step x(1) in \<open>simp_all add: Let_def\<close>)
  next
    case False
    with "1.prems" ask step x stop_keeps show ?thesis by (auto simp: Let_def split: if_splits)
  qed
qed

lemma run_keeps:
  assumes "I m" "machine_run (Ref m) limit should_stop trace context = (r, m', context')"
  shows "\<exists>x. m' = Ref x \<and> I x"
  using assms loop_keeps by (auto simp: machine_run_def simp del: run_loop.simps split: if_splits)

end

interpretation wf: run_invariant machine_wf
  by unfold_locales (auto elim: machine_step_wf)

interpretation same_program: run_invariant "\<lambda>m. machine_wf m \<and> m_loaded m \<and> m_initial m = p" for p
proof unfold_locales
  fix m one m'
  assume "machine_wf m \<and> m_loaded m \<and> m_initial m = p" "machine_step (Ref m) = (one, m')"
  then show "\<exists>x. m' = Ref x \<and> machine_wf x \<and> m_loaded x \<and> m_initial x = p"
    by (metis machine_step_wf)
qed auto

subsection \<open>Sequences of operations\<close>

text \<open>The operations a caller may apply to a loaded machine, as steps of a relation.\<close>

inductive machine_op :: "machine \<Rightarrow> machine \<Rightarrow> bool" where
  op_step: "machine_step (Ref m) = (one, Ref m') \<Longrightarrow> machine_op m m'"
| op_stop: "machine_op m (stopped m)"
| op_reset: "machine_reset (Ref m) = Some m' \<Longrightarrow> machine_op m m'"

lemma machine_step_Ref: "machine_step (Ref m) = (one, m') \<Longrightarrow> \<exists>x. m' = Ref x"
  by (auto simp: machine_step_def Let_def split: if_splits prod.splits)

text \<open>A run is a sequence of operations.\<close>

interpretation reach: run_invariant "machine_op\<^sup>*\<^sup>* m0" for m0
proof unfold_locales
  fix m one m'
  assume "machine_op\<^sup>*\<^sup>* m0 m" and step: "machine_step (Ref m) = (one, m')"
  moreover obtain x where "m' = Ref x" using machine_step_Ref [OF step] by blast
  ultimately show "\<exists>x. m' = Ref x \<and> machine_op\<^sup>*\<^sup>* m0 x"
    by (metis op_step rtranclp.rtrancl_into_rtrancl)
next
  fix m
  assume "machine_op\<^sup>*\<^sup>* m0 m"
  then show "machine_op\<^sup>*\<^sup>* m0 (stopped m)" using op_stop by (rule rtranclp.rtrancl_into_rtrancl)
qed

lemma machine_op_keeps:
  assumes "machine_op m m'" "machine_wf m" "m_loaded m" "m_initial m = p"
  shows "machine_wf m' \<and> m_loaded m' \<and> m_initial m' = p"
  using assms
proof cases
  case (op_step one)
  with assms show ?thesis using same_program.step_keeps [of m p one "Ref m'"] by auto
next
  case op_reset
  with assms show ?thesis using machine_reset_wf [OF assms(2) op_reset]
    by (auto simp: machine_reset_eq split: if_splits)
qed (use assms in auto)

lemma machine_ops_keep:
  assumes "machine_op\<^sup>*\<^sup>* m m'" "machine_wf m" "m_loaded m"
  shows "machine_wf m' \<and> m_loaded m' \<and> m_initial m' = m_initial m"
  using assms
proof (induction rule: rtranclp_induct)
  case (step y z)
  then show ?case using machine_op_keeps [of y z "m_initial m"] by auto
qed simp

lemma reset_reached:
  assumes p: "program_wf p" and reached: "machine_op\<^sup>*\<^sup>* (fresh_machine p) m"
  shows "machine_reset (Ref m) = Some (fresh_machine p)"
proof -
  have "machine_wf m \<and> m_loaded m \<and> m_initial m = p\<lparr>elf_data := NULL, elf_size := 0\<rparr>"
    using machine_ops_keep [OF reached machine_wf_fresh [OF p]] by (simp add: fresh_machine_def)
  then show ?thesis by (simp add: machine_reset_eq fresh_machine_def zero_machine_def)
qed

subsection \<open>Accounting of a run\<close>

text \<open>Attempts that did not retire: the last one of a run that ended with a trap or an exit.\<close>

abbreviation failed_attempts :: "MachineRun \<Rightarrow> u64" where
  "failed_attempts r \<equiv> (if run_reason r \<in> {MACHINE_TRAP, MACHINE_EXITED} then 1 else 0)"

definition live :: "machine \<Rightarrow> bool" where
  "live m \<longleftrightarrow> machine_wf m \<and> m_loaded m \<and> \<not> m_exited m"

lemma live_step:
  assumes "live m" "machine_step (Ref m) = (one, m')"
  obtains x where "m' = Ref x" "machine_wf x" "run_attempts one = 1" "run_retired one = 1 - failed_attempts one"
    "instruction_count (m_cpu x) = instruction_count (m_cpu m) + run_retired one"
    "run_reason one = MACHINE_READY \<Longrightarrow> live x"
    "run_reason one \<in> {MACHINE_READY, MACHINE_EXITED, MACHINE_TRAP}"
    "run_reason one = MACHINE_EXITED \<longleftrightarrow> m_exited x"
proof -
  have m: "machine_wf m" "m_loaded m" "\<not> m_exited m" using assms(1) by (simp_all add: live_def)
  have one: "run_attempts one = 1" "run_retired one = 1 - failed_attempts one"
    "run_reason one \<in> {MACHINE_READY, MACHINE_EXITED, MACHINE_TRAP}"
    using assms(2) m(2,3) by (cases rule: machine_step_cases; simp)+
  obtain x where x: "m' = Ref x" "machine_wf x" "m_loaded x = m_loaded m"
    "instruction_count (m_cpu x) = instruction_count (m_cpu m) + run_retired one"
    "run_reason one = MACHINE_EXITED \<longleftrightarrow> m_exited x"
    using machine_step_wf [OF m(1) assms(2)] by metis
  have "live x" if "run_reason one = MACHINE_READY" using x m(2) that by (simp add: live_def)
  with x one that show thesis by metis
qed

text \<open>What holds between a machine with counters \<open>sofar\<close> and the result of the loop from there.\<close>

definition accounts :: "u64 \<Rightarrow> machine \<Rightarrow> MachineRun \<Rightarrow> MachineRun \<Rightarrow> machine ptr \<Rightarrow> bool" where
  "accounts limit m sofar r m' \<longleftrightarrow> (\<exists>x. m' = Ref x \<and> machine_wf x \<and> run_attempts r \<le> limit
    \<and> run_attempts r - run_retired r = run_attempts sofar - run_retired sofar + failed_attempts r
    \<and> instruction_count (m_cpu x) - run_retired r = instruction_count (m_cpu m) - run_retired sofar
    \<and> run_reason r \<in> {MACHINE_LIMIT, MACHINE_STOPPED, MACHINE_EXITED, MACHINE_TRAP}
    \<and> (run_reason r = MACHINE_LIMIT \<longrightarrow> run_attempts r = limit)
    \<and> (run_reason r = MACHINE_EXITED \<longleftrightarrow> m_exited x))"

lemma run_loop_accounts:
  assumes "live m" "run_attempts sofar \<le> limit"
    "run_loop limit should_stop trace (Ref m) context sofar = (r, m', context')"
  shows "accounts limit m sofar r m'"
  using assms
proof (induction limit should_stop trace "Ref m" "context" sofar arbitrary: m rule: run_loop.induct)
  case (1 limit should_stop trace ctx0 sofar)
  obtain stop ctx where ask: "ask_stop should_stop ctx0 = (stop, ctx)" by fastforce
  obtain one m1 where step: "machine_step (Ref m) = (one, m1)" by fastforce
  from live_step [OF "1.prems"(1) step] obtain x where
    x: "m1 = Ref x" "machine_wf x" "run_attempts one = 1" "run_retired one = 1 - failed_attempts one"
    "instruction_count (m_cpu x) = instruction_count (m_cpu m) + run_retired one"
    "run_reason one = MACHINE_READY \<Longrightarrow> live x"
    "run_reason one \<in> {MACHINE_READY, MACHINE_EXITED, MACHINE_TRAP}"
    "run_reason one = MACHINE_EXITED \<longleftrightarrow> m_exited x" by metis
  define sofar1 where "sofar1 = sofar\<lparr>run_attempts := run_attempts sofar + run_attempts one,
    run_retired := run_retired sofar + run_retired one, run_last := run_last one\<rparr>"
  show ?case
  proof (cases "run_attempts sofar < limit \<and> \<not> stop")
    case False
    with "1.prems" ask show ?thesis
      by (auto simp: live_def accounts_def split: if_splits)
  next
    case go: True
    have grow: "run_attempts sofar1 \<le> limit" using go x(3) by (simp add: sofar1_def inc_le)
    show ?thesis
    proof (cases "run_reason one = MACHINE_READY")
      case False
      with "1.prems"(3) ask step x go have "r = sofar1\<lparr>run_reason := run_reason one\<rparr>" "m' = Ref x"
        by (auto simp: Let_def sofar1_def split: if_splits)
      with x False grow show ?thesis by (auto simp: sofar1_def accounts_def)
    next
      case True
      with "1.prems"(3) ask step x go have
        "run_loop limit should_stop trace (Ref x) (tell_trace trace one ctx) sofar1 = (r, m', context')"
        by (simp add: Let_def sofar1_def)
      with go True x(6) grow have "accounts limit x sofar1 r m'"
        by (intro "1.hyps" [OF _ ask [symmetric] _ step [unfolded x(1), symmetric] refl refl,
            folded sofar1_def]) simp_all
      with True x show ?thesis by (simp add: sofar1_def accounts_def)
    qed
  qed
qed

subsection \<open>Composition of runs\<close>

text \<open>The counters and the reason of a result, with the machine and the context after it.\<close>

fun summary :: "MachineRun \<times> machine ptr \<times> 'c \<Rightarrow> (MachineStop \<times> u64 \<times> u64) \<times> machine ptr \<times> 'c" where
  "summary (r, m, c) = ((run_reason r, run_attempts r, run_retired r), m, c)"

fun add_counts :: "u64 \<Rightarrow> u64 \<Rightarrow> (MachineStop \<times> u64 \<times> u64) \<times> 'm \<times> 'c \<Rightarrow> (MachineStop \<times> u64 \<times> u64) \<times> 'm \<times> 'c" where
  "add_counts a b ((reason, attempts, retired), m, c) = ((reason, a + attempts, b + retired), m, c)"

declare run_loop.simps [simp del]

lemma add_counts_0 [simp]: "add_counts 0 0 s = s"
  by (cases "(0 :: u64, 0 :: u64, s)" rule: add_counts.cases) simp

lemma add_less_64:
  fixes a x y :: u64
  assumes "unat a + unat y < 2 ^ 64" "x \<le> y"
  shows "a + x < a + y \<longleftrightarrow> x < y"
proof -
  have "unat x \<le> unat y" using assms(2) by (simp add: word_le_nat_alt)
  with assms(1) have "unat (a + x) = unat a + unat x" "unat (a + y) = unat a + unat y"
    by (simp_all add: unat_word_ariths)
  then show ?thesis by (simp add: word_less_nat_alt)
qed

text \<open>
  The loop depends on earlier attempts only through the counters: started with more of them and a
  limit raised by as many, it does the same.
\<close>

lemma run_loop_shift:
  assumes "unat a + unat limit < 2 ^ 64" "run_attempts sofar \<le> limit"
    "run_attempts sofar' = a + run_attempts sofar" "run_retired sofar' = b + run_retired sofar"
  shows "summary (run_loop (a + limit) should_stop trace m context sofar') =
    add_counts a b (summary (run_loop limit should_stop trace m context sofar))"
  using assms
proof (induction limit should_stop trace m "context" sofar arbitrary: sofar' rule: run_loop.induct)
  case (1 limit should_stop trace m ctx0 sofar)
  obtain stop ctx where ask: "ask_stop should_stop ctx0 = (stop, ctx)" by fastforce
  obtain one m1 where step: "machine_step m = (one, m1)" by fastforce
  note less = add_less_64 [OF "1.prems"(1,2)]
  show ?case
  proof (cases "run_attempts sofar < limit \<and> \<not> stop \<and> run_reason one = MACHINE_READY")
    case True
    let ?next = "\<lambda>s. s\<lparr>run_attempts := run_attempts s + run_attempts one,
      run_retired := run_retired s + run_retired one, run_last := run_last one\<rparr>"
    have "summary (run_loop (a + limit) should_stop trace m1 (tell_trace trace one ctx) (?next sofar')) =
      add_counts a b (summary (run_loop limit should_stop trace m1 (tell_trace trace one ctx) (?next sofar)))"
      using True "1.prems" machine_step_ready [OF step]
      by (intro "1.IH" [OF _ ask [symmetric] _ step [symmetric] refl refl])
        (simp_all add: inc_le add.assoc)
    then show ?thesis
      using True "1.prems"(3) ask step less by (subst (1 2) run_loop.simps) (simp add: Let_def)
  next
    case False
    with "1.prems" ask step less show ?thesis
      by (subst (1 2) run_loop.simps) (auto simp: Let_def add.assoc)
  qed
qed

lemma machine_step_reason:
  "machine_step m = (one, m') \<Longrightarrow> run_reason one \<noteq> MACHINE_LIMIT"
  by (auto simp: machine_step_def Let_def zero_run_def split: option.splits if_splits prod.splits)

lemma run_loop_split:
  assumes "run_attempts sofar \<le> n" "n \<le> limit"
  shows "summary (run_loop limit should_stop trace m context sofar) =
    (case run_loop n should_stop trace m context sofar of (r, m', context') \<Rightarrow>
       if run_reason r = MACHINE_LIMIT then summary (run_loop limit should_stop trace m' context' r)
       else summary (r, m', context'))"
  using assms
proof (induction n should_stop trace m "context" sofar rule: run_loop.induct)
  case (1 n should_stop trace m ctx0 sofar)
  obtain stop ctx where ask: "ask_stop should_stop ctx0 = (stop, ctx)" by fastforce
  obtain one m1 where step: "machine_step m = (one, m1)" by fastforce
  show ?case
  proof (cases "run_attempts sofar < n")
    case False
    have "summary (run_loop (0 + limit) should_stop trace m ctx0 (sofar\<lparr>run_reason := MACHINE_LIMIT\<rparr>)) =
      add_counts 0 0 (summary (run_loop limit should_stop trace m ctx0 sofar))"
      using "1.prems" unsigned_less [of limit, where ?'a = nat]
      by (intro run_loop_shift) simp_all
    then show ?thesis using False by (simp add: run_loop.simps [of n])
  next
    case less: True
    with "1.prems"(2) have less': "run_attempts sofar < limit" by simp
    show ?thesis
    proof (cases "\<not> stop \<and> run_reason one = MACHINE_READY")
      case True
      let ?next = "sofar\<lparr>run_attempts := run_attempts sofar + run_attempts one,
        run_retired := run_retired sofar + run_retired one, run_last := run_last one\<rparr>"
      have "summary (run_loop limit should_stop trace m1 (tell_trace trace one ctx) ?next) =
        (case run_loop n should_stop trace m1 (tell_trace trace one ctx) ?next of (r, m', context') \<Rightarrow>
           if run_reason r = MACHINE_LIMIT then summary (run_loop limit should_stop trace m' context' r)
           else summary (r, m', context'))"
        using True less "1.prems" machine_step_ready [OF step]
        by (intro "1.IH" [OF _ ask [symmetric] _ step [symmetric] refl refl]) (simp_all add: inc_le)
      with True less less' ask step show ?thesis
        by (subst (1 2) run_loop.simps) (simp add: Let_def)
    next
      case False
      with less less' ask step machine_step_reason [OF step] show ?thesis
        by (subst (1 2) run_loop.simps) (auto simp: Let_def)
    qed
  qed
qed


subsection \<open>Properties\<close>

text \<open>
  C24. Load accepts exactly the well-formed programs (allocated RAM, image inside it, aligned entry
  with room for an instruction in the image) when both copies of the RAM can be allocated; the
  machine is then fresh: zero CPU at the entry, RAM equal to the program's, and a private copy of
  the program without the ELF data. A machine that is not loaded cannot be reset.
\<close>

theorem machine_load_exact:
  assumes "memory_wf (prog_memory p)"
  shows "machine_load (Ref m) (Ref p) ok1 ok2 = (if program_wf p \<and> ok1 \<and> ok2 then Some (fresh_machine p) else None) \<and>
    (\<not> m_loaded m \<longrightarrow> machine_reset (Ref m) = None)"
  using machine_load_eq [OF assms] by (simp add: machine_reset_def)

text \<open>A program of two instructions, \<^verbatim>\<open>addi x17, x0, 93\<close> and \<^verbatim>\<open>ecall\<close>: it exits at once.\<close>

definition exit_program :: program where
  "exit_program = image_program PROGRAM_WORDS 8 0 0 (bytes32 0x05D00893 @ bytes32 0x73)"

lemma exit_program_wf: "program_wf exit_program"
  unfolding exit_program_def
  by (rule image_program_wf) (simp add: image_fits_def memory_size_valid_def size_simps)

theorem machine_load_exact_witness:
  "machine_load (Ref zero_machine) (Ref exit_program) True True = Some (fresh_machine exit_program) \<and>
   machine_load (Ref zero_machine) (Ref exit_program) True False = None"
  using machine_load_exact [of exit_program zero_machine True] exit_program_wf
  by (simp add: program_wf_def)

text \<open>
  C11. Reset restores the loaded state: after any sequence of steps, stops and resets of a machine
  loaded with a well-formed program, and after any run from there with any limit and callbacks,
  reset succeeds and gives exactly the machine as it was right after the load.
\<close>

theorem reset_restores_load:
  assumes "program_wf p" and "machine_op\<^sup>*\<^sup>* (fresh_machine p) m"
    and "machine_run (Ref m) limit should_stop trace context = (r, m', context')"
  shows "machine_reset (Ref m) = Some (fresh_machine p) \<and> machine_reset m' = Some (fresh_machine p)"
  using reset_reached [OF assms(1,2)] reach.run_keeps [OF assms(2,3)] reset_reached [OF assms(1)] by auto

theorem reset_restores_load_witness:
  "\<exists>r m' c. machine_run (Ref (stopped (fresh_machine exit_program))) 5 NULL NULL () = (r, m', c) \<and>
     machine_reset m' = Some (fresh_machine exit_program)"
proof -
  obtain r m' c where run: "machine_run (Ref (stopped (fresh_machine exit_program))) 5 NULL NULL () = (r, m', c)"
    by (metis prod_cases3)
  have "machine_op\<^sup>*\<^sup>* (fresh_machine exit_program) (stopped (fresh_machine exit_program))"
    by (intro r_into_rtranclp op_stop)
  from reset_restores_load [OF exit_program_wf this run] run show ?thesis by blast
qed

text \<open>
  C12. Accounting of a run of a loaded machine that has not exited, whatever the callbacks: it ends
  by the limit, a stop request, an exit or a trap; it never makes more attempts than the limit,
  and exactly as many when it ends by the limit; every attempt but the one that trapped or exited
  retires, and the CPU's retirement count grows by the number retired; the machine has exited
  exactly when the run says so, and it stays well formed.
\<close>

theorem machine_run_accounts:
  assumes "machine_wf m" "m_loaded m" "\<not> m_exited m" "0 < limit"
    and "machine_run (Ref m) limit should_stop trace context = (r, m', context')"
  shows "\<exists>x. m' = Ref x \<and> machine_wf x \<and> run_attempts r \<le> limit
    \<and> run_attempts r = run_retired r + failed_attempts r
    \<and> instruction_count (m_cpu x) = instruction_count (m_cpu m) + run_retired r
    \<and> run_reason r \<in> {MACHINE_LIMIT, MACHINE_STOPPED, MACHINE_EXITED, MACHINE_TRAP}
    \<and> (run_reason r = MACHINE_LIMIT \<longrightarrow> run_attempts r = limit)
    \<and> (run_reason r = MACHINE_EXITED \<longleftrightarrow> m_exited x)"
proof -
  have "run_loop limit should_stop trace (Ref m) context zero_run = (r, m', context')"
    using assms by (simp add: machine_run_def word_neq_0_conv split: if_splits)
  from run_loop_accounts [OF _ _ this] assms have "accounts limit m zero_run r m'"
    by (simp add: live_def zero_run_def)
  then show ?thesis
    by (auto simp: accounts_def zero_run_def algebra_simps)
qed


text \<open>The sample program runs to its exit.\<close>

lemma fetch_exit_program:
  "memory_read_u32 (Ref (prog_memory exit_program)) 0 True = Some 0x05D00893"
  "memory_read_u32 (Ref (prog_memory exit_program)) 4 True = Some 0x73"
  using image_program_word [of 8 0 "[0x05D00893, 0x73]" 0 PROGRAM_WORDS 0]
    image_program_word [of 8 0 "[0x05D00893, 0x73]" 1 PROGRAM_WORDS 0]
  by (simp_all add: exit_program_def memory_size_valid_def size_simps)

lemma exit_run_live:
  "machine_wf (fresh_machine exit_program)" "m_loaded (fresh_machine exit_program)"
  "\<not> m_exited (fresh_machine exit_program)"
  using machine_wf_fresh [OF exit_program_wf] by (simp_all add: fresh_machine_def zero_machine_def)

theorem machine_run_accounts_witness:
  "\<exists>r x c. machine_run (Ref (fresh_machine exit_program)) 5 NULL NULL () = (r, Ref x, c) \<and>
     run_attempts r \<le> 5 \<and> run_attempts r = run_retired r + failed_attempts r"
proof -
  obtain r m' c where run: "machine_run (Ref (fresh_machine exit_program)) 5 NULL NULL () = (r, m', c)"
    by (metis prod_cases3)
  have "(0 :: u64) < 5" by simp
  from machine_run_accounts [OF exit_run_live this run] run show ?thesis by blast
qed

text \<open>
  C10. Runs compose: a run with limit \<open>n + k\<close> is a run with limit \<open>n\<close> followed, when that one ended
  by its limit, by a run with limit \<open>k\<close>: same reason, same total of attempts and retirements, same
  machine, and the same calls of the callbacks in the same order (the same context).
\<close>

theorem machine_run_composes:
  assumes m: "machine_wf m" "m_loaded m" "\<not> m_exited m" and n: "0 < n" and k: "0 < k"
    and no_wrap: "unat n + unat k < 2 ^ 64"
  shows "summary (machine_run (Ref m) (n + k) should_stop trace context) =
    (case machine_run (Ref m) n should_stop trace context of (r, m', context') \<Rightarrow>
       if run_reason r = MACHINE_LIMIT
       then add_counts (run_attempts r) (run_retired r) (summary (machine_run m' k should_stop trace context'))
       else summary (r, m', context'))"
proof -
  have sum: "unat (n + k) = unat n + unat k" using no_wrap by (simp add: unat_word_ariths)
  have pos: "n + k \<noteq> 0" "n \<noteq> 0" "k \<noteq> 0" "n \<le> n + k"
    using n k sum by (auto simp: word_less_nat_alt word_le_nat_alt)
  have start: "machine_run (Ref m) j should_stop trace context = run_loop j should_stop trace (Ref m) context zero_run"
    if "j \<noteq> 0" for j using m that by (simp add: machine_run_def)
  obtain r m' context' where first: "run_loop n should_stop trace (Ref m) context zero_run = (r, m', context')"
    by (metis prod_cases3)
  have split: "summary (run_loop (n + k) should_stop trace (Ref m) context zero_run) =
    (if run_reason r = MACHINE_LIMIT then summary (run_loop (n + k) should_stop trace m' context' r)
     else summary (r, m', context'))"
    using run_loop_split [of zero_run n "n + k" should_stop trace "Ref m" "context"] pos first by (simp add: zero_run_def)
  show ?thesis
  proof (cases "run_reason r = MACHINE_LIMIT")
    case False
    with split first pos show ?thesis by (simp add: start)
  next
    case True
    have "accounts n m zero_run r m'"
      using m first by (intro run_loop_accounts) (simp_all add: live_def zero_run_def)
    with True obtain x where x: "m' = Ref x" "\<not> m_exited x" "run_attempts r = n" by (auto simp: accounts_def)
    have "m_loaded x"
      using same_program.loop_keeps [of m "m_initial m", OF _ first] m x(1) by auto
    with x(1,2) pos have again: "machine_run m' k should_stop trace context' = run_loop k should_stop trace m' context' zero_run"
      by (simp add: machine_run_def)
    have "summary (run_loop (n + k) should_stop trace m' context' r) =
        add_counts n (run_retired r) (summary (run_loop k should_stop trace m' context' zero_run))"
      using no_wrap x(3) by (intro run_loop_shift) (simp_all add: zero_run_def)
    with True split first pos again x(3) show ?thesis by (simp add: start)
  qed
qed

theorem machine_run_composes_witness:
  "summary (machine_run (Ref (fresh_machine exit_program)) 3 NULL NULL ()) =
    (case machine_run (Ref (fresh_machine exit_program)) 1 NULL NULL () of (r, m', context') \<Rightarrow>
       if run_reason r = MACHINE_LIMIT
       then add_counts (run_attempts r) (run_retired r) (summary (machine_run m' 2 NULL NULL context'))
       else summary (r, m', context'))"
  using machine_run_composes [OF exit_run_live, of 1 2 NULL NULL "()"] by simp

text \<open>
  C25. The exit service and traps. A step of a loaded machine that has not exited ends the program
  exactly when the instruction is an environment call with 93 in a7; the exit code is then a0,
  registers, PC and RAM are as before, and until the next reset or load every further step and
  run makes no attempt and leaves the machine alone. A step that traps changes nothing but the
  halt flag, which it clears.
\<close>

theorem exit_and_trap:
  assumes "m_loaded m" "\<not> m_exited m" and run: "machine_step (Ref m) = (one, Ref x)"
  shows "(run_reason one = MACHINE_EXITED \<longleftrightarrow>
      step_result (run_last one) = CPU_STEP_ECALL \<and> registers (m_cpu m) ! 17 = 93) \<and>
    (run_reason one = MACHINE_EXITED \<longrightarrow>
      m_exited x \<and> m_exit_code x = registers (m_cpu m) ! 10 \<and> registers (m_cpu x) = registers (m_cpu m) \<and>
      program_counter (m_cpu x) = program_counter (m_cpu m) \<and> m_memory x = m_memory m \<and>
      machine_step (Ref x) = (zero_run\<lparr>run_reason := MACHINE_EXITED\<rparr>, Ref x) \<and>
      (\<forall>limit. machine_run (Ref x) limit should_stop trace context =
         (zero_run\<lparr>run_reason := if limit = 0 then MACHINE_INVALID_ARGUMENT else MACHINE_EXITED\<rparr>, Ref x, context))) \<and>
    (run_reason one = MACHINE_TRAP \<longrightarrow> x = running m)"
proof -
  have last: "step_result r = res"
    if "cpu_step_recorded (Ref (m_cpu (running m))) (Ref (m_memory m)) = (res, c, mem, r)" for res c mem r
    using that by (cases rule: cpu_step_cases) simp_all
  from run assms(1,2) show ?thesis
  proof (cases rule: machine_step_cases)
    case (ready c mem r)
    with last [OF ready(2)] show ?thesis by simp
  next
    case (exit r)
    have x: "x = (running m)\<lparr>m_exited := True, m_exit_code := registers (m_cpu m) ! 10\<rparr>" using exit by simp
    then have "m_loaded x" "m_exited x" using assms(1) by simp_all
    then show ?thesis
      using exit last [OF exit(2)] machine_step_idle [of x]
      by (simp add: machine_run_def x running_def)
  next
    case (trap res r)
    with last [OF trap(2)] show ?thesis by auto
  qed
qed

text \<open>The sample program at its environment call, with 93 in a7.\<close>

definition exit_machine :: machine where
  "exit_machine = (fresh_machine exit_program)\<lparr>m_cpu := (cpu_with 17 93)\<lparr>program_counter := 4\<rparr>\<rparr>"

lemma exit_machine_ecall:
  "fst (cpu_step_recorded (Ref (m_cpu (running exit_machine))) (Ref (m_memory exit_machine))) = CPU_STEP_ECALL"
  by (simp add: exit_machine_def running_def fresh_machine_def cpu_with_def zero_cpu_def fetch_exit_program
      run_step run_decode)

theorem exit_and_trap_witness:
  "\<exists>one x. machine_step (Ref exit_machine) = (one, Ref x) \<and> run_reason one = MACHINE_EXITED \<and>
     m_exit_code x = 0 \<and> machine_step (Ref x) = (zero_run\<lparr>run_reason := MACHINE_EXITED\<rparr>, Ref x)"
proof -
  obtain one m' where "machine_step (Ref exit_machine) = (one, m')" by fastforce
  then obtain x where run: "machine_step (Ref exit_machine) = (one, Ref x)" using machine_step_Ref by blast
  have m: "m_loaded exit_machine" "\<not> m_exited exit_machine" "registers (m_cpu exit_machine) ! 17 = 93"
    "registers (m_cpu exit_machine) ! 10 = 0"
    by (simp_all add: exit_machine_def fresh_machine_def zero_machine_def cpu_with_def)
  have "run_reason one = MACHINE_EXITED"
    using run m(1,2) by (cases rule: machine_step_cases) (use exit_machine_ecall m(3) in simp_all)
  with exit_and_trap [OF m(1,2) run, of NULL NULL "()"] run m(4) show ?thesis by auto
qed

end
