(* ===== verification/Isa.thy ===== *)
theory Isa
  imports Prelude
begin

section \<open>The RV32I instruction set as a specification\<close>

text \<open>
  What the simulator promises, written down apart from its code: the abstract syntax of the 40
  base instructions, their 32-bit encoding by the bit layouts of \<^verbatim>\<open>docs/HELP.md\<close> ("Instruction
  formats"), and their meaning on an abstract machine ("Supported instructions", "RAM, loads, and
  stores", "Branches, jumps, and functions" and the trap table of "Execution environment").
  Nothing here follows the control flow of the C code: operands are words of their own width,
  comparisons and shifts are stated on signed and unsigned integers, and memory is a partial map
  from addresses to bytes. The theories \<open>Decode\<close> and \<open>Cpu_Refinement\<close> show that the decoder and
  the CPU implement this specification.
\<close>

subsection \<open>Syntax\<close>

type_synonym regno = "5 word"

datatype alu_op =
    Alu_add | Alu_sub | Alu_sll | Alu_slt | Alu_sltu | Alu_xor | Alu_srl | Alu_sra | Alu_or | Alu_and
datatype imm_op = Imm_addi | Imm_slti | Imm_sltiu | Imm_xori | Imm_ori | Imm_andi
datatype shift_op = Sh_slli | Sh_srli | Sh_srai
datatype branch_op = Br_eq | Br_ne | Br_lt | Br_ge | Br_ltu | Br_geu
datatype load_op = Ld_b | Ld_h | Ld_w | Ld_bu | Ld_hu
datatype store_op = St_b | St_h | St_w

text \<open>
  Operands in the order destination, sources, constant. The constant of a branch and of \<open>Jal\<close> is
  the offset in halfwords (the encoding has no bit for its zero low bit); that of \<open>Lui\<close> and
  \<open>Auipc\<close> is the upper 20 bits; \<open>Fence\<close> carries the fields the base instruction ignores.
\<close>

datatype instr =
    RegOp alu_op regno regno regno
  | ImmOp imm_op regno regno "12 word"
  | ShiftOp shift_op regno regno "5 word"
  | Lui regno "20 word"
  | Auipc regno "20 word"
  | Jal regno "20 word"
  | Jalr regno regno "12 word"
  | Branch branch_op regno regno "12 word"
  | Load load_op regno regno "12 word"
  | Store store_op regno regno "12 word"
  | Fence regno regno "12 word"
  | Ecall
  | Ebreak

subsection \<open>Encoding\<close>

text \<open>Six slices side by side: funct7, rs2, rs1, funct3, rd and the opcode in the low bits.\<close>

definition pack :: "7 word \<Rightarrow> regno \<Rightarrow> regno \<Rightarrow> 3 word \<Rightarrow> regno \<Rightarrow> 7 word \<Rightarrow> u32" where
  "pack f7 r2 r1 f3 r oc =
     ucast oc OR push_bit 7 (ucast r) OR push_bit 12 (ucast f3) OR push_bit 15 (ucast r1)
     OR push_bit 20 (ucast r2) OR push_bit 25 (ucast f7)"

text \<open>The I layout: a 12-bit constant over funct7 and rs2.\<close>

definition pack_i :: "12 word \<Rightarrow> regno \<Rightarrow> 3 word \<Rightarrow> regno \<Rightarrow> 7 word \<Rightarrow> u32" where
  "pack_i imm r1 f3 r oc = pack (ucast (drop_bit 5 imm)) (ucast imm) r1 f3 r oc"

text \<open>The S layout: the upper seven bits over funct7, the lower five over rd.\<close>

definition pack_s :: "12 word \<Rightarrow> regno \<Rightarrow> regno \<Rightarrow> 3 word \<Rightarrow> 7 word \<Rightarrow> u32" where
  "pack_s imm r2 r1 f3 oc = pack (ucast (drop_bit 5 imm)) r2 r1 f3 (ucast imm) oc"

text \<open>
  The B layout of the halfword offset \<open>h\<close> (bit \<open>i\<close> of the byte offset is bit \<open>i - 1\<close> of \<open>h\<close>):
  funct7 holds offset bits 12 and 10 to 5, rd holds offset bits 4 to 1 and 11.
\<close>

definition pack_b :: "12 word \<Rightarrow> regno \<Rightarrow> regno \<Rightarrow> 3 word \<Rightarrow> 7 word \<Rightarrow> u32" where
  "pack_b h r2 r1 f3 oc =
     pack (push_bit 6 (ucast (drop_bit 11 h)) OR ucast (drop_bit 4 h AND 0x3F)) r2 r1 f3
       (push_bit 1 (ucast (h AND 0xF)) OR ucast (drop_bit 10 h AND 1)) oc"

text \<open>The U layout: the 20-bit constant above rd.\<close>

definition pack_u :: "20 word \<Rightarrow> regno \<Rightarrow> 7 word \<Rightarrow> u32" where
  "pack_u imm r oc = ucast oc OR push_bit 7 (ucast r) OR push_bit 12 (ucast imm)"

text \<open>
  The J layout of the halfword offset \<open>h\<close>: word bit 31 holds offset bit 20, bits 30 to 21 hold
  offset bits 10 to 1, bit 20 holds offset bit 11 and bits 19 to 12 hold offset bits 19 to 12.
\<close>

definition pack_j :: "20 word \<Rightarrow> regno \<Rightarrow> 7 word \<Rightarrow> u32" where
  "pack_j h r oc =
     pack_u (push_bit 19 (drop_bit 19 h) OR push_bit 9 (h AND 0x3FF)
       OR push_bit 8 (drop_bit 10 h AND 1) OR (drop_bit 11 h AND 0xFF)) r oc"

fun alu_fun3 :: "alu_op \<Rightarrow> 3 word" where
  "alu_fun3 Alu_add = 0" | "alu_fun3 Alu_sub = 0" | "alu_fun3 Alu_sll = 1"
| "alu_fun3 Alu_slt = 2" | "alu_fun3 Alu_sltu = 3" | "alu_fun3 Alu_xor = 4"
| "alu_fun3 Alu_srl = 5" | "alu_fun3 Alu_sra = 5" | "alu_fun3 Alu_or = 6" | "alu_fun3 Alu_and = 7"

fun alu_fun7 :: "alu_op \<Rightarrow> 7 word" where
  "alu_fun7 Alu_sub = 0x20" | "alu_fun7 Alu_sra = 0x20" | "alu_fun7 _ = 0"

fun imm_fun3 :: "imm_op \<Rightarrow> 3 word" where
  "imm_fun3 Imm_addi = 0" | "imm_fun3 Imm_slti = 2" | "imm_fun3 Imm_sltiu = 3"
| "imm_fun3 Imm_xori = 4" | "imm_fun3 Imm_ori = 6" | "imm_fun3 Imm_andi = 7"

fun shift_fun3 :: "shift_op \<Rightarrow> 3 word" where
  "shift_fun3 Sh_slli = 1" | "shift_fun3 Sh_srli = 5" | "shift_fun3 Sh_srai = 5"

fun shift_fun7 :: "shift_op \<Rightarrow> 7 word" where
  "shift_fun7 Sh_srai = 0x20" | "shift_fun7 _ = 0"

fun branch_fun3 :: "branch_op \<Rightarrow> 3 word" where
  "branch_fun3 Br_eq = 0" | "branch_fun3 Br_ne = 1" | "branch_fun3 Br_lt = 4"
| "branch_fun3 Br_ge = 5" | "branch_fun3 Br_ltu = 6" | "branch_fun3 Br_geu = 7"

fun load_fun3 :: "load_op \<Rightarrow> 3 word" where
  "load_fun3 Ld_b = 0" | "load_fun3 Ld_h = 1" | "load_fun3 Ld_w = 2"
| "load_fun3 Ld_bu = 4" | "load_fun3 Ld_hu = 5"

fun store_fun3 :: "store_op \<Rightarrow> 3 word" where
  "store_fun3 St_b = 0" | "store_fun3 St_h = 1" | "store_fun3 St_w = 2"

primrec encode :: "instr \<Rightarrow> u32" where
  "encode (RegOp op r a b) = pack (alu_fun7 op) b a (alu_fun3 op) r 0x33"
| "encode (ImmOp op r a imm) = pack_i imm a (imm_fun3 op) r 0x13"
| "encode (ShiftOp op r a sh) = pack (shift_fun7 op) sh a (shift_fun3 op) r 0x13"
| "encode (Lui r imm) = pack_u imm r 0x37"
| "encode (Auipc r imm) = pack_u imm r 0x17"
| "encode (Jal r h) = pack_j h r 0x6F"
| "encode (Jalr r a imm) = pack_i imm a 0 r 0x67"
| "encode (Branch op a b h) = pack_b h b a (branch_fun3 op) 0x63"
| "encode (Load op r a imm) = pack_i imm a (load_fun3 op) r 0x03"
| "encode (Store op a b imm) = pack_s imm b a (store_fun3 op) 0x23"
| "encode (Fence r a imm) = pack_i imm a 0 r 0x0F"
| "encode Ecall = 0x00000073"
| "encode Ebreak = 0x00100073"

subsection \<open>The abstract machine\<close>

text \<open>Registers 1 to 31 by number, the PC, and RAM as a partial map from addresses.\<close>

record isa_state =
  reg_file :: "regno \<Rightarrow> u32"
  pc :: u32
  ram :: "nat \<rightharpoonup> u8"

datatype outcome = Retire isa_state | Trap nat u32

definition get_reg :: "isa_state \<Rightarrow> regno \<Rightarrow> u32" where
  "get_reg s r = (if r = 0 then 0 else reg_file s r)"

definition set_reg :: "regno \<Rightarrow> u32 \<Rightarrow> isa_state \<Rightarrow> isa_state" where
  "set_reg r v s = (if r = 0 then s else s\<lparr>reg_file := (reg_file s)(r := v)\<rparr>)"

text \<open>Trap causes by their numbers.\<close>

abbreviation (input) "cause_insn_misaligned \<equiv> 0 :: nat"
abbreviation (input) "cause_insn_access \<equiv> 1 :: nat"
abbreviation (input) "cause_illegal \<equiv> 2 :: nat"
abbreviation (input) "cause_breakpoint \<equiv> 3 :: nat"
abbreviation (input) "cause_load_misaligned \<equiv> 4 :: nat"
abbreviation (input) "cause_load_access \<equiv> 5 :: nat"
abbreviation (input) "cause_store_misaligned \<equiv> 6 :: nat"
abbreviation (input) "cause_store_access \<equiv> 7 :: nat"
abbreviation (input) "cause_user_ecall \<equiv> 8 :: nat"

subsection \<open>Operations\<close>

fun alu :: "alu_op \<Rightarrow> u32 \<Rightarrow> u32 \<Rightarrow> u32" where
  "alu Alu_add x y = x + y"
| "alu Alu_sub x y = x - y"
| "alu Alu_sll x y = word_of_nat (unat x * 2 ^ (unat y mod 32))"
| "alu Alu_slt x y = (if sint x < sint y then 1 else 0)"
| "alu Alu_sltu x y = (if unat x < unat y then 1 else 0)"
| "alu Alu_xor x y = x XOR y"
| "alu Alu_srl x y = word_of_nat (unat x div 2 ^ (unat y mod 32))"
| "alu Alu_sra x y = word_of_int (sint x div 2 ^ (unat y mod 32))"
| "alu Alu_or x y = x OR y"
| "alu Alu_and x y = x AND y"

fun alu_of_imm :: "imm_op \<Rightarrow> alu_op" where
  "alu_of_imm Imm_addi = Alu_add" | "alu_of_imm Imm_slti = Alu_slt"
| "alu_of_imm Imm_sltiu = Alu_sltu" | "alu_of_imm Imm_xori = Alu_xor"
| "alu_of_imm Imm_ori = Alu_or" | "alu_of_imm Imm_andi = Alu_and"

fun alu_of_shift :: "shift_op \<Rightarrow> alu_op" where
  "alu_of_shift Sh_slli = Alu_sll" | "alu_of_shift Sh_srli = Alu_srl" | "alu_of_shift Sh_srai = Alu_sra"

fun branch_taken_spec :: "branch_op \<Rightarrow> u32 \<Rightarrow> u32 \<Rightarrow> bool" where
  "branch_taken_spec Br_eq x y \<longleftrightarrow> x = y"
| "branch_taken_spec Br_ne x y \<longleftrightarrow> x \<noteq> y"
| "branch_taken_spec Br_lt x y \<longleftrightarrow> sint x < sint y"
| "branch_taken_spec Br_ge x y \<longleftrightarrow> sint x \<ge> sint y"
| "branch_taken_spec Br_ltu x y \<longleftrightarrow> unat x < unat y"
| "branch_taken_spec Br_geu x y \<longleftrightarrow> unat x \<ge> unat y"

text \<open>Constants as two's-complement numbers; offsets of branches and jumps count halfwords.\<close>

definition imm_value :: "12 word \<Rightarrow> u32" where "imm_value imm = word_of_int (sint imm)"
definition branch_offset :: "12 word \<Rightarrow> u32" where "branch_offset h = word_of_int (2 * sint h)"
definition jump_offset :: "20 word \<Rightarrow> u32" where "jump_offset h = word_of_int (2 * sint h)"
definition upper_value :: "20 word \<Rightarrow> u32" where "upper_value imm = word_of_nat (unat imm * 4096)"

fun load_width :: "load_op \<Rightarrow> nat" where
  "load_width Ld_b = 1" | "load_width Ld_bu = 1" | "load_width Ld_h = 2" | "load_width Ld_hu = 2"
| "load_width Ld_w = 4"

fun store_width :: "store_op \<Rightarrow> nat" where
  "store_width St_b = 1" | "store_width St_h = 2" | "store_width St_w = 4"

text \<open>The bytes of an aligned range, when the whole range is RAM.\<close>

definition ram_bytes :: "(nat \<rightharpoonup> u8) \<Rightarrow> nat \<Rightarrow> nat \<Rightarrow> u8 list option" where
  "ram_bytes r a n =
     (if list_all (\<lambda>i. r (a + i) \<noteq> None) [0..<n] then Some (map (\<lambda>i. the (r (a + i))) [0..<n]) else None)"

fun load_value :: "load_op \<Rightarrow> u8 list \<Rightarrow> u32" where
  "load_value Ld_b bs = word_of_int (sint (word_of_nat (le_value bs) :: 8 word))"
| "load_value Ld_h bs = word_of_int (sint (word_of_nat (le_value bs) :: 16 word))"
| "load_value Ld_w bs = word_of_nat (le_value bs)"
| "load_value Ld_bu bs = word_of_nat (le_value bs)"
| "load_value Ld_hu bs = word_of_nat (le_value bs)"

text \<open>The first \<open>n\<close> bytes of a value, the least significant first.\<close>

definition value_bytes :: "nat \<Rightarrow> u32 \<Rightarrow> u8 list" where
  "value_bytes n v = map (\<lambda>i. word_of_nat (unat v div 256 ^ i)) [0..<n]"

definition ram_store :: "(nat \<rightharpoonup> u8) \<Rightarrow> nat \<Rightarrow> u8 list \<Rightarrow> (nat \<rightharpoonup> u8)" where
  "ram_store r a bs = (\<lambda>x. if a \<le> x \<and> x < a + length bs then Some (bs ! (x - a)) else r x)"

subsection \<open>Execution of one instruction\<close>

definition next_pc_state :: "u32 \<Rightarrow> isa_state \<Rightarrow> isa_state" where
  "next_pc_state target s = s\<lparr>pc := target\<rparr>"

definition write_next :: "regno \<Rightarrow> u32 \<Rightarrow> isa_state \<Rightarrow> outcome" where
  "write_next r v s = Retire (next_pc_state (pc s + 4) (set_reg r v s))"

text \<open>A taken transfer needs a target aligned to an instruction.\<close>

definition jump_to :: "u32 \<Rightarrow> (isa_state \<Rightarrow> isa_state) \<Rightarrow> isa_state \<Rightarrow> outcome" where
  "jump_to target upd s =
     (if unat target mod 4 \<noteq> 0 then Trap cause_insn_misaligned target
      else Retire (next_pc_state target (upd s)))"

primrec exec :: "instr \<Rightarrow> isa_state \<Rightarrow> outcome" where
  "exec (RegOp op r a b) s = write_next r (alu op (get_reg s a) (get_reg s b)) s"
| "exec (ImmOp op r a imm) s = write_next r (alu (alu_of_imm op) (get_reg s a) (imm_value imm)) s"
| "exec (ShiftOp op r a sh) s = write_next r (alu (alu_of_shift op) (get_reg s a) (ucast sh)) s"
| "exec (Lui r imm) s = write_next r (upper_value imm) s"
| "exec (Auipc r imm) s = write_next r (pc s + upper_value imm) s"
| "exec (Jal r h) s = jump_to (pc s + jump_offset h) (set_reg r (pc s + 4)) s"
| "exec (Jalr r a imm) s =
     jump_to ((get_reg s a + imm_value imm) AND NOT 1) (set_reg r (pc s + 4)) s"
| "exec (Branch op a b h) s =
     (if branch_taken_spec op (get_reg s a) (get_reg s b)
      then jump_to (pc s + branch_offset h) id s
      else Retire (next_pc_state (pc s + 4) s))"
| "exec (Load op r a imm) s =
     (let addr = get_reg s a + imm_value imm
      in if unat addr mod load_width op \<noteq> 0 then Trap cause_load_misaligned addr
         else case ram_bytes (ram s) (unat addr) (load_width op) of
                None \<Rightarrow> Trap cause_load_access addr
              | Some bs \<Rightarrow> write_next r (load_value op bs) s)"
| "exec (Store op a b imm) s =
     (let addr = get_reg s a + imm_value imm
      in if unat addr mod store_width op \<noteq> 0 then Trap cause_store_misaligned addr
         else case ram_bytes (ram s) (unat addr) (store_width op) of
                None \<Rightarrow> Trap cause_store_access addr
              | Some _ \<Rightarrow>
                  Retire (next_pc_state (pc s + 4)
                    (s\<lparr>ram := ram_store (ram s) (unat addr)
                                (value_bytes (store_width op) (get_reg s b))\<rparr>)))"
| "exec (Fence r a imm) s = Retire (next_pc_state (pc s + 4) s)"
| "exec Ecall s = Trap cause_user_ecall 0"
| "exec Ebreak s = Trap cause_breakpoint (pc s)"

text \<open>
  One step of the machine as a relation: fetch at the PC, then the instruction the fetched word
  encodes; a word that encodes none is illegal.
\<close>

inductive isa_step :: "isa_state \<Rightarrow> outcome \<Rightarrow> bool" where
  fetch_misaligned: "unat (pc s) mod 4 \<noteq> 0 \<Longrightarrow> isa_step s (Trap cause_insn_misaligned (pc s))"
| fetch_access: "unat (pc s) mod 4 = 0 \<Longrightarrow> ram_bytes (ram s) (unat (pc s)) 4 = None \<Longrightarrow>
    isa_step s (Trap cause_insn_access (pc s))"
| illegal: "unat (pc s) mod 4 = 0 \<Longrightarrow> ram_bytes (ram s) (unat (pc s)) 4 = Some bs \<Longrightarrow>
    word_of_nat (le_value bs) = w \<Longrightarrow> w \<notin> range encode \<Longrightarrow>
    isa_step s (Trap cause_illegal w)"
| execute: "unat (pc s) mod 4 = 0 \<Longrightarrow> ram_bytes (ram s) (unat (pc s)) 4 = Some bs \<Longrightarrow>
    word_of_nat (le_value bs) = encode i \<Longrightarrow> isa_step s (exec i s)"

end
