(* ===== verification/Decode.thy ===== *)
theory Decode
  imports Instruction Isa
begin

section \<open>The decoder against the instruction set\<close>

text \<open>
  The decoder of \<open>Instruction\<close> is an exact inverse of the encoding of \<open>Isa\<close>: an encoded instruction
  is decoded to its kind, format, sign-extended constant and register operands, and a word is
  decoded to the unknown kind exactly when it encodes no instruction of RV32I.
\<close>

subsection \<open>Bits of a word\<close>

text \<open>The masks of the C code as runs of bits.\<close>

named_theorems mask_simps

lemma mask_consts [mask_simps]:
  "(x :: u32) AND 0x7F = x AND mask 7" "x AND 0x1F = x AND mask 5" "x AND 7 = x AND mask 3"
  "x AND 0xFFFFF000 = x AND push_bit 12 (mask 20)"
  "x AND 0xFF000 = x AND push_bit 12 (mask 8)"
  "x AND 0x800 = x AND push_bit 11 (mask 1)"
  "x AND 0x7FE = x AND push_bit 1 (mask 10)"
  "x AND 0x7E0 = x AND push_bit 5 (mask 6)"
  "x AND 0x1E = x AND push_bit 1 (mask 4)"
  "x AND 0xFE0 = x AND push_bit 5 (mask 7)"
  by (simp_all add: mask_eq_exp_minus_1)

subsection \<open>Fields and constants of a packed word\<close>

lemma pack_slices:
  "ucast (pack f7 r2 r1 f3 r oc AND 0x7F) = (ucast oc :: u8)"
  "ucast (drop_bit 7 (pack f7 r2 r1 f3 r oc) AND 0x1F) = (ucast r :: u8)"
  "ucast (drop_bit 12 (pack f7 r2 r1 f3 r oc) AND 7) = (ucast f3 :: u8)"
  "ucast (drop_bit 15 (pack f7 r2 r1 f3 r oc) AND 0x1F) = (ucast r1 :: u8)"
  "ucast (drop_bit 20 (pack f7 r2 r1 f3 r oc) AND 0x1F) = (ucast r2 :: u8)"
  "ucast (drop_bit 25 (pack f7 r2 r1 f3 r oc) AND 0x7F) = (ucast f7 :: u8)"
  unfolding pack_def mask_simps
  by (rule bit_word_eqI, auto simp: bit_simps dest: bit_imp_le_length)+

lemma pack_surj:
  "pack (ucast (drop_bit 25 w)) (ucast (drop_bit 20 w)) (ucast (drop_bit 15 w)) (ucast (drop_bit 12 w))
     (ucast (drop_bit 7 w)) (ucast w) = w"
  unfolding pack_def by (rule u32_eq_bits) (simp add: bit_simps bit_beyond)

lemma sign_extend_signed_take_bit:
  assumes "take_bit (Suc n) v = v"
  shows "sign_extend v (Suc n) = signed_take_bit n v"
proof -
  have "v XOR push_bit n 1 = flip_bit n v"
    by (rule flip_bit_eq_xor [symmetric])
  also have "\<dots> = v + (if bit v n then - (2 ^ n) else 2 ^ n)"
    by (simp add: flip_bit_eq_if set_bit_eq unset_bit_eq)
  finally show ?thesis
    using assms by (simp add: sign_extend_def Let_def signed_take_bit_eq_take_bit_minus)
qed

lemma bit_times_2: "bit (w * 2 :: 'a::len word) n \<longleftrightarrow> 0 < n \<and> n < LENGTH('a) \<and> bit w (n - 1)"
  using bit_double_iff [of w n] by (auto simp: mult.commute)

lemma sign_extend_12: "sign_extend (ucast (x :: 12 word)) 12 = word_of_int (sint x)"
proof -
  have "sign_extend (ucast x) (Suc 11) = signed_take_bit 11 (ucast x)"
    by (rule sign_extend_signed_take_bit, rule bit_word_eqI) (auto simp: bit_simps bit_times_2 dest: bit_imp_le_length)
  also have "\<dots> = scast x"
    by (rule bit_word_eqI) (auto simp: bit_simps bit_times_2 min_def)
  finally show ?thesis by (simp add: signed_def)
qed

lemma sign_extend_13: "sign_extend (push_bit 1 (ucast (x :: 12 word))) 13 = word_of_int (2 * sint x)"
proof -
  have "sign_extend (push_bit 1 (ucast x)) (Suc 12) = signed_take_bit 12 (push_bit 1 (ucast x))"
    by (rule sign_extend_signed_take_bit, rule bit_word_eqI) (auto simp: bit_simps bit_times_2 dest: bit_imp_le_length)
  also have "\<dots> = push_bit 1 (scast x)"
    by (rule bit_word_eqI) (auto simp: bit_simps bit_times_2 min_def)
  finally show ?thesis by (simp add: push_bit_eq_mult signed_def mult.commute)
qed

lemma sign_extend_21: "sign_extend (push_bit 1 (ucast (x :: 20 word))) 21 = word_of_int (2 * sint x)"
proof -
  have "sign_extend (push_bit 1 (ucast x)) (Suc 20) = signed_take_bit 20 (push_bit 1 (ucast x))"
    by (rule sign_extend_signed_take_bit, rule bit_word_eqI) (auto simp: bit_simps bit_times_2 dest: bit_imp_le_length)
  also have "\<dots> = push_bit 1 (scast x)"
    by (rule bit_word_eqI) (auto simp: bit_simps bit_times_2 min_def)
  finally show ?thesis by (simp add: push_bit_eq_mult signed_def mult.commute)
qed

lemma pack_i_immediate: "drop_bit 20 (pack_i imm r1 f3 r oc) = ucast imm"
 unfolding pack_i_def pack_def by (rule u32_eq_bits) (simp add: bit_simps bit_beyond)

lemma pack_s_immediate: "(drop_bit 20 (pack_s imm r2 r1 f3 oc) AND 0xFE0) OR (drop_bit 7 (pack_s imm r2 r1 f3 oc) AND 0x1F) = ucast imm"
 unfolding pack_s_def pack_def mask_simps by (rule u32_eq_bits) (simp add: bit_simps bit_beyond)

lemma pack_b_immediate: "(push_bit 12 (drop_bit 31 (pack_b h r2 r1 f3 oc))
            OR (push_bit 4 (pack_b h r2 r1 f3 oc) AND 0x800) OR (drop_bit 20 (pack_b h r2 r1 f3 oc) AND 0x7E0)
            OR (drop_bit 7 (pack_b h r2 r1 f3 oc) AND 0x1E)) = push_bit 1 (ucast h)"
 unfolding pack_b_def pack_def mask_simps by (rule u32_eq_bits) (simp add: bit_simps bit_times_2 bit_beyond)

lemma pack_u_immediate: "pack_u imm r oc AND 0xFFFFF000 = push_bit 12 (ucast imm)"
 unfolding pack_u_def mask_simps by (rule u32_eq_bits) (simp add: bit_simps bit_beyond)

lemma pack_j_immediate: "push_bit 20 (drop_bit 31 (pack_j h r oc))
            OR (pack_j h r oc AND 0xFF000) OR (drop_bit 9 (pack_j h r oc) AND 0x800)
            OR (drop_bit 20 (pack_j h r oc) AND 0x7FE) = push_bit 1 (ucast h)"
 unfolding pack_j_def pack_u_def mask_simps by (rule u32_eq_bits) (simp add: bit_simps bit_times_2 bit_beyond)

lemma pack_extract:
  "instruction_extract_fields (pack f7 r2 r1 f3 r oc) =
   \<lparr>raw = pack f7 r2 r1 f3 r oc, opcode = ucast oc, rd = ucast r, funct3 = ucast f3,
    rs1 = ucast r1, rs2 = ucast r2, funct7 = ucast f7\<rparr>"
  by (simp only: instruction_extract_fields_def pack_slices)

lemma pack_u_as_pack:
  "pack_u imm r oc = pack (ucast (drop_bit 13 imm)) (ucast (drop_bit 8 imm)) (ucast (drop_bit 3 imm)) (ucast imm) r oc"
  unfolding pack_def pack_u_def by (rule u32_eq_bits) (simp add: bit_simps bit_beyond)

lemma pack_u_extract:
  "opcode (instruction_extract_fields (pack_u imm r oc)) = ucast oc"
  "rd (instruction_extract_fields (pack_u imm r oc)) = ucast r"
  by (simp_all add: pack_u_as_pack pack_extract)

lemma upper_value_push: "upper_value imm = push_bit 12 (ucast imm)"
  by (simp add: upper_value_def push_bit_eq_mult unsigned_def)

lemma unat_ucast3: "unat (ucast (f3 :: 3 word) :: u8) = unat f3"
  by (simp add: unsigned_ucast_eq take_bit_nat_eq_self_iff order.strict_trans2 [OF unsigned_less [of f3]])

lemma unat_ucast7: "unat (ucast (oc :: 7 word) :: u8) = unat oc"
  by (simp add: unsigned_ucast_eq take_bit_nat_eq_self_iff order.strict_trans2 [OF unsigned_less [of oc]])

subsection \<open>Decoding an encoded instruction\<close>

text \<open>What the decoder should find in an encoded instruction.\<close>

fun kind_of :: "instr \<Rightarrow> InstructionKind" where
  "kind_of (RegOp Alu_add _ _ _) = INSTRUCTION_ADD"
| "kind_of (RegOp Alu_sub _ _ _) = INSTRUCTION_SUB"
| "kind_of (RegOp Alu_sll _ _ _) = INSTRUCTION_SLL"
| "kind_of (RegOp Alu_slt _ _ _) = INSTRUCTION_SLT"
| "kind_of (RegOp Alu_sltu _ _ _) = INSTRUCTION_SLTU"
| "kind_of (RegOp Alu_xor _ _ _) = INSTRUCTION_XOR"
| "kind_of (RegOp Alu_srl _ _ _) = INSTRUCTION_SRL"
| "kind_of (RegOp Alu_sra _ _ _) = INSTRUCTION_SRA"
| "kind_of (RegOp Alu_or _ _ _) = INSTRUCTION_OR"
| "kind_of (RegOp Alu_and _ _ _) = INSTRUCTION_AND"
| "kind_of (ImmOp Imm_addi _ _ _) = INSTRUCTION_ADDI"
| "kind_of (ImmOp Imm_slti _ _ _) = INSTRUCTION_SLTI"
| "kind_of (ImmOp Imm_sltiu _ _ _) = INSTRUCTION_SLTIU"
| "kind_of (ImmOp Imm_xori _ _ _) = INSTRUCTION_XORI"
| "kind_of (ImmOp Imm_ori _ _ _) = INSTRUCTION_ORI"
| "kind_of (ImmOp Imm_andi _ _ _) = INSTRUCTION_ANDI"
| "kind_of (ShiftOp Sh_slli _ _ _) = INSTRUCTION_SLLI"
| "kind_of (ShiftOp Sh_srli _ _ _) = INSTRUCTION_SRLI"
| "kind_of (ShiftOp Sh_srai _ _ _) = INSTRUCTION_SRAI"
| "kind_of (Lui _ _) = INSTRUCTION_LUI"
| "kind_of (Auipc _ _) = INSTRUCTION_AUIPC"
| "kind_of (Jal _ _) = INSTRUCTION_JAL"
| "kind_of (Jalr _ _ _) = INSTRUCTION_JALR"
| "kind_of (Branch Br_eq _ _ _) = INSTRUCTION_BEQ"
| "kind_of (Branch Br_ne _ _ _) = INSTRUCTION_BNE"
| "kind_of (Branch Br_lt _ _ _) = INSTRUCTION_BLT"
| "kind_of (Branch Br_ge _ _ _) = INSTRUCTION_BGE"
| "kind_of (Branch Br_ltu _ _ _) = INSTRUCTION_BLTU"
| "kind_of (Branch Br_geu _ _ _) = INSTRUCTION_BGEU"
| "kind_of (Load Ld_b _ _ _) = INSTRUCTION_LB"
| "kind_of (Load Ld_h _ _ _) = INSTRUCTION_LH"
| "kind_of (Load Ld_w _ _ _) = INSTRUCTION_LW"
| "kind_of (Load Ld_bu _ _ _) = INSTRUCTION_LBU"
| "kind_of (Load Ld_hu _ _ _) = INSTRUCTION_LHU"
| "kind_of (Store St_b _ _ _) = INSTRUCTION_SB"
| "kind_of (Store St_h _ _ _) = INSTRUCTION_SH"
| "kind_of (Store St_w _ _ _) = INSTRUCTION_SW"
| "kind_of (Fence _ _ _) = INSTRUCTION_FENCE"
| "kind_of Ecall = INSTRUCTION_ECALL"
| "kind_of Ebreak = INSTRUCTION_EBREAK"

fun format_of :: "instr \<Rightarrow> InstructionFormat" where
  "format_of (RegOp _ _ _ _) = INSTRUCTION_FORMAT_R"
| "format_of (Lui _ _) = INSTRUCTION_FORMAT_U"
| "format_of (Auipc _ _) = INSTRUCTION_FORMAT_U"
| "format_of (Jal _ _) = INSTRUCTION_FORMAT_J"
| "format_of (Branch _ _ _ _) = INSTRUCTION_FORMAT_B"
| "format_of (Store _ _ _ _) = INSTRUCTION_FORMAT_S"
| "format_of _ = INSTRUCTION_FORMAT_I"

fun immediate_of :: "instr \<Rightarrow> u32" where
  "immediate_of (ImmOp _ _ _ imm) = imm_value imm"
| "immediate_of (ShiftOp _ _ _ sh) = ucast sh"
| "immediate_of (Lui _ imm) = upper_value imm"
| "immediate_of (Auipc _ imm) = upper_value imm"
| "immediate_of (Jal _ h) = jump_offset h"
| "immediate_of (Jalr _ _ imm) = imm_value imm"
| "immediate_of (Branch _ _ _ h) = branch_offset h"
| "immediate_of (Load _ _ _ imm) = imm_value imm"
| "immediate_of (Store _ _ _ imm) = imm_value imm"
| "immediate_of _ = 0"

text \<open>The register operands an instruction has: destination, first and second source.\<close>

fun dest_of :: "instr \<Rightarrow> regno option" where
  "dest_of (RegOp _ r _ _) = Some r" | "dest_of (ImmOp _ r _ _) = Some r"
| "dest_of (ShiftOp _ r _ _) = Some r" | "dest_of (Lui r _) = Some r"
| "dest_of (Auipc r _) = Some r" | "dest_of (Jal r _) = Some r"
| "dest_of (Jalr r _ _) = Some r" | "dest_of (Load _ r _ _) = Some r" | "dest_of _ = None"

fun src1_of :: "instr \<Rightarrow> regno option" where
  "src1_of (RegOp _ _ a _) = Some a" | "src1_of (ImmOp _ _ a _) = Some a"
| "src1_of (ShiftOp _ _ a _) = Some a" | "src1_of (Jalr _ a _) = Some a"
| "src1_of (Branch _ a _ _) = Some a" | "src1_of (Load _ _ a _) = Some a"
| "src1_of (Store _ a _ _) = Some a" | "src1_of _ = None"

fun src2_of :: "instr \<Rightarrow> regno option" where
  "src2_of (RegOp _ _ _ b) = Some b" | "src2_of (Branch _ _ b _) = Some b"
| "src2_of (Store _ _ b _) = Some b" | "src2_of _ = None"

lemma pack_i_extract: "instruction_extract_fields (pack_i imm r1 f3 r oc) =
   \<lparr>raw = pack_i imm r1 f3 r oc, opcode = ucast oc, rd = ucast r, funct3 = ucast f3,
    rs1 = ucast r1, rs2 = ucast (ucast imm :: 5 word), funct7 = ucast (ucast (drop_bit 5 imm) :: 7 word)\<rparr>"
  by (simp add: pack_i_def pack_extract)

lemma pack_s_extract: "instruction_extract_fields (pack_s imm r2 r1 f3 oc) =
   \<lparr>raw = pack_s imm r2 r1 f3 oc, opcode = ucast oc, rd = ucast (ucast imm :: 5 word), funct3 = ucast f3,
    rs1 = ucast r1, rs2 = ucast r2, funct7 = ucast (ucast (drop_bit 5 imm) :: 7 word)\<rparr>"
  by (simp add: pack_s_def pack_extract)

lemma pack_b_extract:
   "opcode (instruction_extract_fields (pack_b h r2 r1 f3 oc)) = ucast oc"
   "funct3 (instruction_extract_fields (pack_b h r2 r1 f3 oc)) = ucast f3"
   "rs1 (instruction_extract_fields (pack_b h r2 r1 f3 oc)) = ucast r1"
   "rs2 (instruction_extract_fields (pack_b h r2 r1 f3 oc)) = ucast r2"
  by (simp_all add: pack_b_def pack_extract)

lemma pack_j_extract:
  "opcode (instruction_extract_fields (pack_j h r oc)) = ucast oc"
  "rd (instruction_extract_fields (pack_j h r oc)) = ucast r"
  by (simp_all add: pack_j_def pack_u_extract)

lemma ucast_regno: "ucast (ucast (r :: 5 word) :: u8) = (ucast r :: u32)"
  by (rule bit_word_eqI) (auto simp: bit_simps dest: bit_imp_le_length)

lemmas sign_extend_offsets = sign_extend_13 [simplified] sign_extend_21 [simplified]

text \<open>
  A decoded structure presents instruction \<open>i\<close>: kind, format, constant, the raw word, and each
  register operand that the instruction has in its slice.
\<close>

definition decodes_as :: "DecodedInstruction \<Rightarrow> instr \<Rightarrow> bool" where
  "decodes_as d i \<longleftrightarrow> kind d = kind_of i \<and> format d = format_of i \<and> immediate d = immediate_of i
     \<and> raw (instr_fields d) = encode i
     \<and> (\<forall>r. dest_of i = Some r \<longrightarrow> rd (instr_fields d) = ucast r)
     \<and> (\<forall>r. src1_of i = Some r \<longrightarrow> rs1 (instr_fields d) = ucast r)
     \<and> (\<forall>r. src2_of i = Some r \<longrightarrow> rs2 (instr_fields d) = ucast r)"

lemma raw_extract: "raw (instruction_extract_fields w) = w"
  by (simp add: instruction_extract_fields_def)

lemma decode_RegOp: "decodes_as (instruction_decode (encode (RegOp op r a b))) (RegOp op r a b)"
  by (cases op) (simp_all add: decodes_as_def instruction_decode_def Let_def pack_extract opcode_simps
     register_ops_def)

lemma decode_ImmOp: "decodes_as (instruction_decode (encode (ImmOp op r a imm))) (ImmOp op r a imm)"
  by (cases op) (simp_all add: decodes_as_def instruction_decode_def Let_def pack_i_extract opcode_simps
     immediate_ops_def pack_i_immediate sign_extend_12 imm_value_def)

lemma decode_ShiftOp: "decodes_as (instruction_decode (encode (ShiftOp op r a sh))) (ShiftOp op r a sh)"
  by (cases op) (simp_all add: decodes_as_def instruction_decode_def Let_def pack_extract opcode_simps ucast_regno)

lemma decode_Lui: "decodes_as (instruction_decode (encode (Lui r imm))) (Lui r imm)"
  by (simp add: decodes_as_def instruction_decode_def Let_def pack_u_extract raw_extract opcode_simps pack_u_immediate upper_value_push)

lemma decode_Auipc: "decodes_as (instruction_decode (encode (Auipc r imm))) (Auipc r imm)"
  by (simp add: decodes_as_def instruction_decode_def Let_def pack_u_extract raw_extract opcode_simps pack_u_immediate upper_value_push)

lemma decode_Jal: "decodes_as (instruction_decode (encode (Jal r h))) (Jal r h)"
  by (simp add: decodes_as_def instruction_decode_def Let_def pack_j_immediate pack_j_extract raw_extract
      opcode_simps sign_extend_offsets jump_offset_def)

lemma decode_Jalr: "decodes_as (instruction_decode (encode (Jalr r a imm))) (Jalr r a imm)"
  by (simp add: decodes_as_def instruction_decode_def Let_def pack_i_extract opcode_simps
     immediate_ops_def pack_i_immediate sign_extend_12 imm_value_def)

lemma decode_Branch: "decodes_as (instruction_decode (encode (Branch op a b h))) (Branch op a b h)"
  by (cases op) (simp_all add: decodes_as_def instruction_decode_def Let_def pack_b_extract opcode_simps raw_extract
     branches_def pack_b_immediate sign_extend_offsets branch_offset_def)

lemma decode_Load: "decodes_as (instruction_decode (encode (Load op r a imm))) (Load op r a imm)"
  by (cases op) (simp_all add: decodes_as_def instruction_decode_def Let_def pack_i_extract opcode_simps
     loads_def pack_i_immediate sign_extend_12 imm_value_def)

lemma decode_Store: "decodes_as (instruction_decode (encode (Store op a b imm))) (Store op a b imm)"
  by (cases op) (simp_all add: decodes_as_def instruction_decode_def Let_def pack_s_extract opcode_simps
     stores_def pack_s_immediate sign_extend_12 imm_value_def)

lemma decode_Fence: "decodes_as (instruction_decode (encode (Fence r a imm))) (Fence r a imm)"
  by (simp add: decodes_as_def instruction_decode_def Let_def pack_i_extract opcode_simps)

lemma decode_System: "decodes_as (instruction_decode (encode Ecall)) Ecall" "decodes_as (instruction_decode (encode Ebreak)) Ebreak"
  by (simp_all add: decodes_as_def instruction_decode_def Let_def instruction_extract_fields_def opcode_simps)

lemma decode_encode: "decodes_as (instruction_decode (encode i)) i"
  by (cases i) (simp_all only: decode_RegOp decode_ImmOp decode_ShiftOp decode_Lui decode_Auipc
      decode_Jal decode_Jalr decode_Branch decode_Load decode_Store decode_Fence decode_System)

lemma kind_of_known: "kind_of i \<noteq> INSTRUCTION_UNKNOWN"
  by (cases i rule: kind_of.cases) simp_all

subsection \<open>Every accepted word is an encoding\<close>

lemma opcode_eqs:
  fixes oc :: "7 word"
  shows "(ucast oc :: u8) = 0x03 \<longleftrightarrow> oc = 0x03" "(ucast oc :: u8) = 0x0F \<longleftrightarrow> oc = 0x0F"
    "(ucast oc :: u8) = 0x13 \<longleftrightarrow> oc = 0x13" "(ucast oc :: u8) = 0x17 \<longleftrightarrow> oc = 0x17"
    "(ucast oc :: u8) = 0x23 \<longleftrightarrow> oc = 0x23" "(ucast oc :: u8) = 0x33 \<longleftrightarrow> oc = 0x33"
    "(ucast oc :: u8) = 0x37 \<longleftrightarrow> oc = 0x37" "(ucast oc :: u8) = 0x63 \<longleftrightarrow> oc = 0x63"
    "(ucast oc :: u8) = 0x67 \<longleftrightarrow> oc = 0x67" "(ucast oc :: u8) = 0x6F \<longleftrightarrow> oc = 0x6F"
    "(ucast oc :: u8) = 0x73 \<longleftrightarrow> oc = 0x73"
    "(ucast oc :: u8) = 0 \<longleftrightarrow> oc = 0" "(ucast oc :: u8) = 0x20 \<longleftrightarrow> oc = 0x20"
  by (simp_all add: word_unat_eq_iff unat_ucast7 del: unsigned_ucast_eq)

lemma fun3_eqs:
  fixes f3 :: "3 word"
  shows "(ucast f3 :: u8) = 0 \<longleftrightarrow> f3 = 0" "(ucast f3 :: u8) = 1 \<longleftrightarrow> f3 = 1" "(ucast f3 :: u8) = 5 \<longleftrightarrow> f3 = 5"
  by (simp_all add: word_unat_eq_iff unat_ucast3 del: unsigned_ucast_eq)

lemma fun3_cases:
  fixes f3 :: "3 word"
  obtains "f3 = 0" | "f3 = 1" | "f3 = 2" | "f3 = 3" | "f3 = 4" | "f3 = 5" | "f3 = 6" | "f3 = 7"
proof -
  have "unat f3 < 8" using unsigned_less [of f3, where ?'a = nat] by simp
  then have "unat f3 \<in> {0, 1, 2, 3, 4, 5, 6, 7}" by auto
  then have "f3 \<in> {0, 1, 2, 3, 4, 5, 6, 7}" by (auto simp: word_unat_eq_iff)
  then show thesis using that by blast
qed

lemma pack_is_pack_i: "\<exists>imm. pack f7 r2 r1 f3 r oc = pack_i imm r1 f3 r oc"
proof
  show "pack f7 r2 r1 f3 r oc = pack_i (push_bit 5 (ucast f7) OR ucast r2) r1 f3 r oc"
    unfolding pack_i_def pack_def by (rule u32_eq_bits) (simp add: bit_simps bit_beyond)
qed

lemma pack_is_pack_s: "\<exists>imm. pack f7 r2 r1 f3 r oc = pack_s imm r2 r1 f3 oc"
proof
  show "pack f7 r2 r1 f3 r oc = pack_s (push_bit 5 (ucast f7) OR ucast r) r2 r1 f3 oc"
    unfolding pack_s_def pack_def by (rule u32_eq_bits) (simp add: bit_simps bit_beyond)
qed

lemma pack_is_pack_b: "\<exists>h. pack f7 r2 r1 f3 r oc = pack_b h r2 r1 f3 oc"
proof
  show "pack f7 r2 r1 f3 r oc =
    pack_b (push_bit 11 (ucast (drop_bit 6 f7)) OR push_bit 10 (ucast (r AND 1))
      OR push_bit 4 (ucast (f7 AND mask 6)) OR ucast (drop_bit 1 r)) r2 r1 f3 oc"
    unfolding pack_b_def pack_def
    by (rule u32_eq_bits) (simp add: bit_simps bit_times_2 bit_beyond,
        simp add: numeral_2_eq_2 numeral_3_eq_3)
qed

lemma pack_is_pack_u: "\<exists>imm. pack f7 r2 r1 f3 r oc = pack_u imm r oc"
proof
  show "pack f7 r2 r1 f3 r oc =
    pack_u (ucast f3 OR push_bit 3 (ucast r1) OR push_bit 8 (ucast r2) OR push_bit 13 (ucast f7)) r oc"
    unfolding pack_u_def pack_def by (rule u32_eq_bits) (simp add: bit_simps bit_beyond)
qed

lemma pack_u_is_pack_j: "\<exists>h. pack_u imm r oc = pack_j h r oc"
proof
  show "pack_u imm r oc =
    pack_j (push_bit 19 (drop_bit 19 imm) OR (drop_bit 9 imm AND mask 10)
      OR push_bit 10 (drop_bit 8 imm AND 1) OR push_bit 11 (imm AND mask 8)) r oc"
    unfolding pack_j_def pack_u_def by (rule u32_eq_bits) (simp add: bit_simps bit_beyond)
qed

lemma in_encode: "w = encode i \<Longrightarrow> w \<in> range encode" by simp

lemmas decode_simps = instruction_decode_def Let_def pack_extract opcode_simps opcode_eqs fun3_eqs unat_ucast3

text \<open>A word of the register or the constant arithmetic that is decoded is an instruction.\<close>

lemma decode_op_known:
  assumes "kind (instruction_decode (pack f7 r2 r1 f3 r 0x33)) \<noteq> INSTRUCTION_UNKNOWN"
  shows "pack f7 r2 r1 f3 r 0x33 \<in> range encode"
proof -
  from assms have "f7 = 0 \<or> f7 = 0x20 \<and> (f3 = 0 \<or> f3 = 5)" by (auto simp: decode_simps split: if_splits)
  then obtain op where "alu_fun7 op = f7" "alu_fun3 op = f3"
    by (cases f3 rule: fun3_cases) (auto intro: alu_fun7.simps alu_fun3.simps)
  then show ?thesis by (intro in_encode [of _ "RegOp op r r1 r2"]) simp
qed

lemma decode_op_imm_known:
  assumes "kind (instruction_decode (pack f7 r2 r1 f3 r 0x13)) \<noteq> INSTRUCTION_UNKNOWN"
  shows "pack f7 r2 r1 f3 r 0x13 \<in> range encode"
proof (cases "f3 = 1 \<or> f3 = 5")
  case True
  with assms have "f7 = 0 \<or> f7 = 0x20 \<and> f3 = 5"
    by (auto simp: decode_simps immediate_ops_def split: if_splits)
  with True obtain op where "shift_fun7 op = f7" "shift_fun3 op = f3"
    by (auto intro: shift_fun7.simps shift_fun3.simps)
  then show ?thesis by (intro in_encode [of _ "ShiftOp op r r1 r2"]) simp
next
  case False
  then obtain op where "imm_fun3 op = f3"
    by (cases f3 rule: fun3_cases) (auto intro: imm_fun3.simps)
  moreover obtain imm where "pack f7 r2 r1 f3 r 0x13 = pack_i imm r1 f3 r 0x13"
    using pack_is_pack_i by metis
  ultimately show ?thesis by (intro in_encode [of _ "ImmOp op r r1 imm"]) simp
qed

lemma decode_pack_known:
  assumes "kind (instruction_decode (pack f7 r2 r1 f3 r oc)) \<noteq> INSTRUCTION_UNKNOWN"
  shows "pack f7 r2 r1 f3 r oc \<in> range encode"
proof -
  let ?w = "pack f7 r2 r1 f3 r oc"
  obtain imm h sm u j where forms: "?w = pack_i imm r1 f3 r oc" "?w = pack_s sm r2 r1 f3 oc"
      "?w = pack_b h r2 r1 f3 oc" "?w = pack_u u r oc" "?w = pack_j j r oc"
    using pack_is_pack_i pack_is_pack_s pack_is_pack_b pack_is_pack_u pack_u_is_pack_j by metis
  consider (arith) "oc = 0x33 \<or> oc = 0x13" | (upper) "oc = 0x37 \<or> oc = 0x17 \<or> oc = 0x6F"
    | (plain) "oc = 0x67 \<or> oc = 0x0F" | (branch) "oc = 0x63" | (load) "oc = 0x03" | (store) "oc = 0x23" | (system) "oc = 0x73"
    using assms by (auto simp: decode_simps split: if_splits)
  then show ?thesis
  proof cases
    case arith
    with assms decode_op_known decode_op_imm_known show ?thesis by blast
  next
    case upper
    with forms(4,5) show ?thesis
      using in_encode [of ?w "Lui r u"] in_encode [of ?w "Auipc r u"] in_encode [of ?w "Jal r j"] by auto
  next
    case plain
    with assms have "f3 = 0" by (auto simp: decode_simps split: if_splits)
    with plain forms(1) show ?thesis
      using in_encode [of ?w "Jalr r r1 imm"] in_encode [of ?w "Fence r r1 imm"] by auto
  next
    case branch
    with assms obtain op where "branch_fun3 op = f3"
      by (cases f3 rule: fun3_cases) (auto simp: decode_simps branches_def intro: branch_fun3.simps)
    with branch forms(3) show ?thesis by (intro in_encode [of _ "Branch op r1 r2 h"]) simp
  next
    case load
    with assms obtain op where "load_fun3 op = f3"
      by (cases f3 rule: fun3_cases) (auto simp: decode_simps loads_def intro: load_fun3.simps)
    with load forms(1) show ?thesis by (intro in_encode [of _ "Load op r r1 imm"]) simp
  next
    case store
    with assms obtain op where "store_fun3 op = f3"
      by (cases f3 rule: fun3_cases) (auto simp: decode_simps stores_def intro: store_fun3.simps)
    with store forms(2) show ?thesis by (intro in_encode [of _ "Store op r1 r2 sm"]) simp
  next
    case system
    with assms have "?w = encode Ecall \<or> ?w = encode Ebreak" by (auto simp: decode_simps split: if_splits)
    then show ?thesis by (elim disjE) (rule in_encode, assumption)+
  qed
qed

lemma decode_known_encoded: "kind (instruction_decode w) \<noteq> INSTRUCTION_UNKNOWN \<Longrightarrow> w \<in> range encode"
  by (rule decode_pack_known [of "ucast (drop_bit 25 w)" "ucast (drop_bit 20 w)" "ucast (drop_bit 15 w)"
      "ucast (drop_bit 12 w)" "ucast (drop_bit 7 w)" "ucast w", unfolded pack_surj])

subsection \<open>The encoding is injective\<close>

lemma ucast_back:
  "ucast (ucast (x :: 7 word) :: u8) = x" "ucast (ucast (p :: 5 word) :: u8) = p"
  "ucast (ucast (f :: 3 word) :: u8) = f" "ucast (ucast (a :: 12 word) :: u32) = a"
  "ucast (ucast (u :: 20 word) :: u32) = u"
  by (rule bit_word_eqI, auto simp: bit_simps dest: bit_imp_le_length)+

lemma ucast_inject:
  "(ucast (x :: 7 word) :: u8) = ucast y \<longleftrightarrow> x = y" "(ucast (p :: 5 word) :: u8) = ucast q \<longleftrightarrow> p = q"
  "(ucast (f :: 3 word) :: u8) = ucast g \<longleftrightarrow> f = g" "(ucast (a :: 12 word) :: u32) = ucast b \<longleftrightarrow> a = b"
  "(ucast (u :: 20 word) :: u32) = ucast v \<longleftrightarrow> u = v"
  by (metis ucast_back)+

lemma pack_inject:
  "pack f7 r2 r1 f3 r oc = pack f7' r2' r1' f3' r' oc' \<longleftrightarrow>
     f7 = f7' \<and> r2 = r2' \<and> r1 = r1' \<and> f3 = f3' \<and> r = r' \<and> oc = oc'"
proof
  assume "pack f7 r2 r1 f3 r oc = pack f7' r2' r1' f3' r' oc'"
  then have "instruction_extract_fields (pack f7 r2 r1 f3 r oc) =
     instruction_extract_fields (pack f7' r2' r1' f3' r' oc')" by simp
  then show "f7 = f7' \<and> r2 = r2' \<and> r1 = r1' \<and> f3 = f3' \<and> r = r' \<and> oc = oc'"
    by (simp add: pack_extract ucast_inject)
qed simp

lemma pack_i_inject:
  "pack_i imm r1 f3 r oc = pack_i imm' r1' f3' r' oc' \<longleftrightarrow>
     imm = imm' \<and> r1 = r1' \<and> f3 = f3' \<and> r = r' \<and> oc = oc'"
proof
  assume eq: "pack_i imm r1 f3 r oc = pack_i imm' r1' f3' r' oc'"
  then have "(ucast imm :: u32) = ucast imm'" using pack_i_immediate by metis
  with eq show "imm = imm' \<and> r1 = r1' \<and> f3 = f3' \<and> r = r' \<and> oc = oc'"
    by (simp add: ucast_inject pack_i_def pack_inject)
qed simp

lemma pack_s_inject:
  "pack_s imm r2 r1 f3 oc = pack_s imm' r2' r1' f3' oc' \<longleftrightarrow>
     imm = imm' \<and> r2 = r2' \<and> r1 = r1' \<and> f3 = f3' \<and> oc = oc'"
proof
  assume eq: "pack_s imm r2 r1 f3 oc = pack_s imm' r2' r1' f3' oc'"
  then have "(ucast imm :: u32) = ucast imm'" using pack_s_immediate by metis
  with eq show "imm = imm' \<and> r2 = r2' \<and> r1 = r1' \<and> f3 = f3' \<and> oc = oc'"
    by (simp add: ucast_inject pack_s_def pack_inject)
qed simp

lemma halfword_offset_inject:
  "push_bit 1 (ucast (a :: 12 word) :: u32) = push_bit 1 (ucast b) \<longleftrightarrow> a = b"
  "push_bit 1 (ucast (u :: 20 word) :: u32) = push_bit 1 (ucast v) \<longleftrightarrow> u = v"
proof -
  have unshift: "drop_bit 1 (push_bit 1 (ucast a :: u32)) = ucast a" for a :: "12 word"
    by (rule bit_word_eqI) (auto simp: bit_simps bit_times_2 dest: bit_imp_le_length)
  show "push_bit 1 (ucast a :: u32) = push_bit 1 (ucast b) \<longleftrightarrow> a = b"
    by (metis unshift ucast_inject(4))
  have unshift: "drop_bit 1 (push_bit 1 (ucast u :: u32)) = ucast u" for u :: "20 word"
    by (rule bit_word_eqI) (auto simp: bit_simps bit_times_2 dest: bit_imp_le_length)
  show "push_bit 1 (ucast u :: u32) = push_bit 1 (ucast v) \<longleftrightarrow> u = v"
    by (metis unshift ucast_inject(5))
qed

lemma pack_b_inject:
  "pack_b h r2 r1 f3 oc = pack_b h' r2' r1' f3' oc' \<longleftrightarrow>
     h = h' \<and> r2 = r2' \<and> r1 = r1' \<and> f3 = f3' \<and> oc = oc'"
proof
  assume eq: "pack_b h r2 r1 f3 oc = pack_b h' r2' r1' f3' oc'"
  then have "push_bit 1 (ucast h :: u32) = push_bit 1 (ucast h')" using pack_b_immediate by metis
  with eq show "h = h' \<and> r2 = r2' \<and> r1 = r1' \<and> f3 = f3' \<and> oc = oc'"
    by (simp only: halfword_offset_inject) (simp add: pack_b_def pack_inject)
qed simp

lemma pack_u_inject: "pack_u imm r oc = pack_u imm' r' oc' \<longleftrightarrow> imm = imm' \<and> r = r' \<and> oc = oc'"
proof
  assume eq: "pack_u imm r oc = pack_u imm' r' oc'"
  have unshift: "drop_bit 12 (push_bit 12 (ucast u :: u32)) = ucast u" for u :: "20 word"
    by (rule bit_word_eqI) (auto simp: bit_simps dest: bit_imp_le_length)
  from eq have "push_bit 12 (ucast imm :: u32) = push_bit 12 (ucast imm')" using pack_u_immediate by metis
  then have "(ucast imm :: u32) = ucast imm'" using unshift by metis
  with eq show "imm = imm' \<and> r = r' \<and> oc = oc'"
    by (simp add: ucast_inject pack_u_as_pack pack_inject)
qed simp

lemma pack_j_inject: "pack_j h r oc = pack_j h' r' oc' \<longleftrightarrow> h = h' \<and> r = r' \<and> oc = oc'"
proof
  assume eq: "pack_j h r oc = pack_j h' r' oc'"
  then have "push_bit 1 (ucast h :: u32) = push_bit 1 (ucast h')" using pack_j_immediate by metis
  with eq show "h = h' \<and> r = r' \<and> oc = oc'"
    by (simp only: halfword_offset_inject) (simp add: pack_j_def pack_u_inject)
qed simp

lemma pack_opcode: "ucast (pack f7 r2 r1 f3 r oc) = oc" "ucast (pack_u imm r oc) = oc"
  unfolding pack_def pack_u_def
  by (rule bit_word_eqI, auto simp: bit_simps dest: bit_imp_le_length)+

fun opcode_of :: "instr \<Rightarrow> 7 word" where
  "opcode_of (RegOp _ _ _ _) = 0x33" | "opcode_of (ImmOp _ _ _ _) = 0x13"
| "opcode_of (ShiftOp _ _ _ _) = 0x13" | "opcode_of (Lui _ _) = 0x37" | "opcode_of (Auipc _ _) = 0x17"
| "opcode_of (Jal _ _) = 0x6F" | "opcode_of (Jalr _ _ _) = 0x67" | "opcode_of (Branch _ _ _ _) = 0x63"
| "opcode_of (Load _ _ _ _) = 0x03" | "opcode_of (Store _ _ _ _) = 0x23" | "opcode_of (Fence _ _ _) = 0x0F"
| "opcode_of Ecall = 0x73" | "opcode_of Ebreak = 0x73"

lemma encode_opcode: "ucast (encode i) = opcode_of i"
  by (cases i) (simp_all add: pack_i_def pack_s_def pack_b_def pack_j_def pack_opcode)

lemma fun_fields_inject:
  "alu_fun7 x = alu_fun7 y \<and> alu_fun3 x = alu_fun3 y \<longleftrightarrow> x = y"
  "shift_fun7 u = shift_fun7 v \<and> shift_fun3 u = shift_fun3 v \<longleftrightarrow> u = v"
  "imm_fun3 a = imm_fun3 b \<longleftrightarrow> a = b" "branch_fun3 p = branch_fun3 q \<longleftrightarrow> p = q"
  "load_fun3 l = load_fun3 m \<longleftrightarrow> l = m" "store_fun3 s = store_fun3 t \<longleftrightarrow> s = t"
  "shift_fun3 u \<noteq> imm_fun3 a"
  subgoal by (cases x; cases y) simp_all
  subgoal by (cases u; cases v) simp_all
  subgoal by (cases a; cases b) simp_all
  subgoal by (cases p; cases q) simp_all
  subgoal by (cases l; cases m) simp_all
  subgoal by (cases s; cases t) simp_all
  subgoal by (cases u; cases a) simp_all
  done

lemmas pack_injects = pack_inject pack_i_inject pack_s_inject pack_b_inject pack_u_inject pack_j_inject

lemma pack_i_not_shift: "pack_i imm a (imm_fun3 op) r oc \<noteq> pack f7 sh a' (shift_fun3 op') r' oc'"
  using fun_fields_inject(7) [of op' op] by (auto simp: pack_i_def pack_inject)

lemma encode_inject: "encode i = encode j \<longleftrightarrow> i = j"
proof
  assume eq: "encode i = encode j"
  then have oc: "opcode_of i = opcode_of j" using encode_opcode by metis
  note simps = pack_injects fun_fields_inject pack_i_not_shift pack_i_not_shift [symmetric]
  show "i = j"
    by (cases i) (use eq oc in \<open>cases j; auto simp: simps\<close>)+
qed simp

subsection \<open>Signed values\<close>

lemma sint_word_of_int_small:
  assumes "- (2 ^ 31) \<le> k" "k < 2 ^ 31"
  shows "sint (word_of_int k :: u32) = k"
  using signed_take_bit_int_eq_self [of 31 k] assms by (simp add: signed_of_int)

lemma instruction_signed_value_sint: "instruction_signed_value v = sint v"
proof -
  have bound: "uint v < 2 ^ 32" "0 \<le> uint v" using uint_lt2p [of v] by simp_all
  show ?thesis
  proof (cases "v \<le> 0x7FFFFFFF")
    case True
    then have "uint v < 2 ^ 31" by (simp add: word_le_def)
    then have "sint (word_of_int (uint v) :: u32) = uint v"
      using bound(2) by (intro sint_word_of_int_small) linarith+
    moreover have "(word_of_int (uint v) :: u32) = v" by (rule word_of_int_uint)
    ultimately show ?thesis using True by (simp only: instruction_signed_value_def if_True)
  next
    case False
    then have "2 ^ 31 \<le> uint v" by (simp add: word_le_def)
    then have "sint (word_of_int (uint v - 2 ^ 32) :: u32) = uint v - 2 ^ 32"
      using bound by (intro sint_word_of_int_small) simp_all
    moreover have "(word_of_int (uint v - 2 ^ 32) :: u32) = v" by simp
    ultimately have "sint v = uint v - 2 ^ 32" by (simp only:)
    then show ?thesis using False by (simp add: instruction_signed_value_def)
  qed
qed

lemma sint_signed_take_bit: "n < 32 \<Longrightarrow> sint (signed_take_bit n (v :: u32)) = signed_take_bit n (uint v)"
proof (rule bit_eqI)
  fix m
  assume "n < 32"
  then show "bit (sint (signed_take_bit n v)) m \<longleftrightarrow> bit (signed_take_bit n (uint v)) m"
    by (auto simp: bit_simps min_def)
qed

subsection \<open>Properties\<close>

text \<open>
  C9. Decoding inverts encoding: for each of the 40 instructions and all operand values the
  decoder finds the instruction's kind and format, the sign-extended or shifted constant with its
  scattered bits put back in place, and the register operands.
\<close>

theorem decode_of_encode: "decodes_as (instruction_decode (encode i)) i"
  by (rule decode_encode)

text \<open>
  C8. The decoder accepts exactly RV32I: a word is decoded to a known kind if and only if it is
  the encoding of an instruction, which is then the only one with that encoding.
\<close>

theorem decode_known_iff:
  "kind (instruction_decode w) \<noteq> INSTRUCTION_UNKNOWN \<longleftrightarrow> (\<exists>!i. encode i = w)"
proof
  assume "kind (instruction_decode w) \<noteq> INSTRUCTION_UNKNOWN"
  then have "w \<in> range encode" by (rule decode_known_encoded)
  then obtain i where "w = encode i" by (rule rangeE)
  then show "\<exists>!i. encode i = w" by (auto simp: encode_inject)
next
  assume "\<exists>!i. encode i = w"
  then obtain i where "w = encode i" by (elim ex1E) (rule that [OF sym])
  then show "kind (instruction_decode w) \<noteq> INSTRUCTION_UNKNOWN"
    using decode_encode [of i] kind_of_known [of i] by (simp add: decodes_as_def)
qed

text \<open>
  The signed value of a 32-bit pattern is its two's-complement value, and sign extension from
  \<open>n + 1\<close> bits, with bit \<open>n\<close> as the sign, keeps the two's-complement value of these bits.
\<close>

theorem signed_values:
  assumes "n < 32"
  shows "instruction_signed_value v = sint v \<and>
    instruction_signed_value (sign_extend (take_bit (Suc n) v) (Suc n)) =
      (if bit v n then uint (take_bit (Suc n) v) - 2 ^ Suc n else uint (take_bit (Suc n) v))"
proof
  show "instruction_signed_value v = sint v" by (rule instruction_signed_value_sint)
  have "sign_extend (take_bit (Suc n) v) (Suc n) = signed_take_bit n v"
    by (subst sign_extend_signed_take_bit) (simp, rule bit_word_eqI, auto simp: bit_simps min_def)
  then have "instruction_signed_value (sign_extend (take_bit (Suc n) v) (Suc n)) = signed_take_bit n (uint v)"
    using assms by (simp only: instruction_signed_value_sint sint_signed_take_bit)
  also have "\<dots> = take_bit (Suc n) (uint v) - 2 ^ Suc n * of_bool (bit (uint v) n)"
    by (rule signed_take_bit_eq_take_bit_minus)
  finally show "instruction_signed_value (sign_extend (take_bit (Suc n) v) (Suc n)) =
      (if bit v n then uint (take_bit (Suc n) v) - 2 ^ Suc n else uint (take_bit (Suc n) v))"
    using assms by (simp add: unsigned_take_bit_eq bit_uint_iff)
qed

theorem signed_values_witness:
  "instruction_signed_value (sign_extend (take_bit 12 0xABCDEF12) 12) = - 238"
  using signed_values [of 11 "0xABCDEF12"] by (simp add: take_bit_eq_mod bit_iff_odd)

end
