(* ===== verification/Cpu_Refinement.thy ===== *)
theory Cpu_Refinement
  imports Cpu Decode
begin

section \<open>The CPU implements the instruction set\<close>

text \<open>
  A refinement of the specification \<open>Isa\<close> by the CPU model. CPU and memory are abstracted to a
  register file by number, a PC and a partial map of addresses to bytes (\<open>abs_state\<close>), the result
  and record of a step to an outcome (\<open>outcome_of\<close>). The sized accesses are related to ranges of
  the byte map, the arithmetic of the \<^verbatim>\<open>switch\<close> to arithmetic on integers, and each shape of
  instruction (value, jump, branch, load, store, trap) to its execution in the specification.
\<close>

subsection \<open>The abstract state\<close>

definition ram_of :: "memory \<Rightarrow> nat \<rightharpoonup> u8" where
  "ram_of m = (\<lambda>a. if a < mem_size m then Some (bytes_of m ! a) else None)"

definition abs_state :: "cpu \<Rightarrow> memory \<Rightarrow> isa_state" where
  "abs_state c m = \<lparr>reg_file = (\<lambda>r. registers c ! unat r), pc = program_counter c, ram = ram_of m\<rparr>"

fun outcome_of :: "CpuStepResult \<times> cpu ptr \<times> memory ptr \<times> step_record \<Rightarrow> outcome" where
  "outcome_of (res, c, m, r) =
     (if res = CPU_STEP_OK then Retire (abs_state (the c) (the m))
      else Trap (cause_number (trap_cause (step_trap r))) (trap_value (step_trap r)))"

lemma abs_state_simps [simp]:
  "pc (abs_state c m) = program_counter c" "ram (abs_state c m) = ram_of m"
  "abs_state (c\<lparr>instruction_count := n\<rparr>) m = abs_state c m"
  "abs_state (c\<lparr>program_counter := p\<rparr>) m = next_pc_state p (abs_state c m)"
  by (simp_all add: abs_state_def next_pc_state_def)

lemma regno_bound: "unat (r :: regno) < 32"
  using unsigned_less [of r, where ?'a = nat] by simp

lemma get_reg_abs: "get_reg (abs_state c m) r = register_value c (unat r)"
  by (simp add: get_reg_def abs_state_def register_value_def unat_eq_0)

lemma set_reg_abs:
  assumes "length (registers c) = 32"
  shows "set_reg r v (abs_state c m) = abs_state (with_register c (unat r) v) m"
proof (cases "r = 0")
  case True
  then show ?thesis by (simp add: set_reg_def with_register_def)
next
  case False
  then have r: "unat r \<noteq> 0" by (simp only: unat_eq_0 not_False_eq_True)
  have "registers (with_register c (unat r) v) ! unat x = (if x = r then v else registers c ! unat x)" for x
  proof (cases "x = r")
    case True
    with r assms regno_bound [of r] show ?thesis by (simp only: with_register_def) simp
  next
    case False
    then have "unat r \<noteq> unat x" using word_unat_eq_iff [of x r] by metis
    with r False show ?thesis by (simp only: with_register_def) simp
  qed
  then have "(\<lambda>x. registers (with_register c (unat r) v) ! unat x) = (\<lambda>x. registers c ! unat x)(r := v)"
    by (simp only: fun_upd_def)
  with False show ?thesis by (simp only: set_reg_def abs_state_def with_register_simps) simp
qed

lemma unat_regno: "unat (ucast (r :: regno) :: u8) = unat r"
  using regno_bound [of r] by (simp add: unsigned_ucast_eq take_bit_nat_eq_self_iff)

subsection \<open>RAM\<close>

lemma ram_bytes_of:
  assumes "memory_wf m" "0 < n"
  shows "ram_bytes (ram_of m) a n =
    (if a + n \<le> mem_size m then Some (take n (drop a (bytes_of m))) else None)"
proof -
  have "list_all (\<lambda>i. ram_of m (a + i) \<noteq> None) [0..<n] \<longleftrightarrow> a + n \<le> mem_size m"
  proof
    assume "list_all (\<lambda>i. ram_of m (a + i) \<noteq> None) [0..<n]"
    then have "ram_of m (a + (n - 1)) \<noteq> None"
      unfolding list_all_iff using assms(2) by (elim ballE [of _ _ "n - 1"]) simp_all
    then show "a + n \<le> mem_size m" using assms(2) by (auto simp: ram_of_def split: if_splits)
  qed (auto simp: list_all_iff ram_of_def)
  moreover have "map (\<lambda>i. the (ram_of m (a + i))) [0..<n] = take n (drop a (bytes_of m))"
    if "a + n \<le> mem_size m"
  proof -
    have "mem_bytes m \<noteq> None" using assms that by (auto simp: memory_wf_def split: option.splits)
    then have "length (bytes_of m) = mem_size m" using assms(1) by (auto simp: memory_wf_def)
    with that show ?thesis by (intro nth_equalityI) (auto simp: ram_of_def)
  qed
  ultimately show ?thesis by (simp add: ram_bytes_def)
qed

lemma value_bytes_low: "value_bytes n v = low_bytes n v"
proof -
  have "(word_of_nat (unat v div 256 ^ i) :: u8) = ucast (drop_bit (8 * i) v)" for i
    by (simp add: word_unat_eq_iff unat_byte_of power_mult unat_of_nat del: unsigned_ucast_eq)
  then show ?thesis by (simp add: value_bytes_def low_bytes_def)
qed

lemma ram_store_of:
  assumes "memory_wf m" "a + length bs \<le> mem_size m"
  shows "ram_store (ram_of m) a bs = ram_of (m\<lparr>mem_bytes := Ref (blit (bytes_of m) a bs)\<rparr>)"
proof (cases "mem_bytes m")
  case None
  with assms have "bs = []" "mem_size m = 0" by (auto simp: memory_wf_def)
  then show ?thesis by (simp add: ram_store_def ram_of_def fun_eq_iff)
next
  case (Some b)
  with assms(1) have "length b = mem_size m" by (rule memory_wf_bytes)
  with Some assms(2) show ?thesis
    by (auto simp: ram_store_def ram_of_def fun_eq_iff nth_blit_inside nth_blit_outside not_less not_le)
qed

lemma memory_access_valid_ram:
  assumes "memory_wf m" "unat a mod w = 0" "0 < w"
  shows "memory_access_valid (Ref m) a w \<longleftrightarrow> ram_bytes (ram_of m) (unat a) w \<noteq> None"
  using assms by (auto simp: memory_access_valid_iff ram_bytes_of mod_eq_0_iff_dvd) (auto simp: memory_wf_def split: option.splits)

lemma read_width_ram:
  assumes "memory_wf m" "w \<in> {1, 2, 4}" "unat a mod w = 0"
  shows "read_width (Ref m) a w = map_option (\<lambda>bs. word_of_nat (le_value bs)) (ram_bytes (ram_of m) (unat a) w)"
  using data_port.load_wf_eq [OF width_port [OF assms(2)] assms(1), of a]
    memory_access_valid_ram [OF assms(1,3)] assms(2) ram_bytes_of [OF assms(1), of w "unat a"]
  by (cases "unat a + w \<le> mem_size m") auto

lemma write_width_ram:
  assumes "memory_wf m" "w \<in> {1, 2, 4}" "unat a mod w = 0" "ram_bytes (ram_of m) (unat a) w \<noteq> None"
  obtains m' where "write_width (Ref m) a w v = Some m'"
    "ram_of m' = ram_store (ram_of m) (unat a) (value_bytes w v)"
proof -
  have "memory_access_valid (Ref m) a w" using memory_access_valid_ram [OF assms(1,3)] assms(2,4) by auto
  then have "write_width (Ref m) a w v =
      Some (m\<lparr>mem_bytes := Ref (blit (bytes_of m) (unat a) (low_bytes w v))\<rparr>)"
    using data_port.store_wf_eq [OF width_port [OF assms(2)] assms(1), of a v] by simp
  moreover have "unat a + w \<le> mem_size m"
    using assms by (auto simp: ram_bytes_of split: if_splits)
  ultimately show thesis
    using ram_store_of [OF assms(1), of "unat a" "low_bytes w v"] by (intro that) (simp_all add: value_bytes_low)
qed

subsection \<open>Values\<close>

lemma alu_shifts:
  "alu Alu_sll x y = push_bit (unat y mod 32) x"
  "alu Alu_srl x y = drop_bit (unat y mod 32) x"
  "alu Alu_sra x y = signed_drop_bit (unat y mod 32) x"
proof -
  show "alu Alu_sll x y = push_bit (unat y mod 32) x" by (simp add: push_bit_eq_mult)
  have "unat (drop_bit (unat y mod 32) x) = unat x div 2 ^ (unat y mod 32)"
    by (subst unsigned_drop_bit_eq) (simp only: take_bit_nat_eq_self [OF unsigned_less] drop_bit_eq_div)
  then have "drop_bit (unat y mod 32) x = word_of_nat (unat x div 2 ^ (unat y mod 32))"
    by (simp only: word_unat_eq_iff) (simp only: unat_of_nat mod_less [OF le_less_trans [OF div_le_dividend unsigned_less]])
  then show "alu Alu_srl x y = drop_bit (unat y mod 32) x" by simp
  have "sint (signed_drop_bit (unat y mod 32) x) = sint x div 2 ^ (unat y mod 32)"
    by (simp only: sint_signed_drop_bit_eq drop_bit_eq_div)
  from arg_cong [OF this, of "word_of_int :: int \<Rightarrow> u32"]
  have "signed_drop_bit (unat y mod 32) x = word_of_int (sint x div 2 ^ (unat y mod 32))"
    by (simp only: of_int_sint scast_id)
  then show "alu Alu_sra x y = signed_drop_bit (unat y mod 32) x" by simp
qed

lemma small_amount: "unat (sh :: 5 word) mod 32 = unat sh" "unat (ucast sh :: u32) = unat sh"
  using unsigned_less [of sh, where ?'a = nat] 
  by (simp_all add: unsigned_ucast_eq take_bit_nat_eq_self_iff)

text \<open>The word that the \<^verbatim>\<open>switch\<close> computes for a register or immediate operation.\<close>

lemma operation_values:
  "add32 x y = alu Alu_add x y" "ucast ((ucast x :: u64) - ucast y) = alu Alu_sub x y"
  "ucast (push_bit (unat (y AND 31)) (ucast x :: u64)) = alu Alu_sll x y"
  "bool32 (signed_less x y) = alu Alu_slt x y" "bool32 (x < y) = alu Alu_sltu x y"
  "x XOR y = alu Alu_xor x y" "drop_bit (unat (y AND 31)) x = alu Alu_srl x y"
  "arithmetic_right x y = alu Alu_sra x y" "x OR y = alu Alu_or x y" "x AND y = alu Alu_and x y"
  by (simp_all only: add32_eq sub32_eq alu_shifts amount_lt shift_left_eq arithmetic_right_eq)
    (simp_all add: signed_less_iff word_less_nat_alt)

lemma sign_extend_byte:
  assumes "n < 256"
  shows "load_extend INSTRUCTION_LB (word_of_nat n) = word_of_int (sint (word_of_nat n :: 8 word))"
proof -
  have top: "bit (word_of_nat n :: u32) 7 \<longleftrightarrow> (word_of_nat n :: u32) AND 0x80 \<noteq> 0"
    using bit_iff_and_push_bit_not_eq_0 [of "word_of_nat n :: u32" 7] by simp
  have "(word_of_nat n :: u32) = ucast (word_of_nat n :: 8 word)"
    using assms by (simp add: word_unat_eq_iff unat_of_nat unsigned_ucast_eq take_bit_nat_eq_self)
  then obtain b :: "8 word" where b: "(word_of_nat n :: u32) = ucast b" "word_of_nat n = b" by simp
  have mask: "(0xFFFFFF00 :: u32) = push_bit 8 (mask 24)" by (simp add: mask_eq_exp_minus_1)
  have "(if bit b 7 then ucast b OR 0xFFFFFF00 else ucast b :: u32) = scast b"
    unfolding mask by (rule bit_word_eqI, rename_tac n, case_tac "n = 7")
      (auto simp: bit_simps min_def dest: bit_imp_le_length)
  moreover have "bit (ucast b :: u32) 7 = bit b 7" by (simp add: bit_simps)
  ultimately show ?thesis using top b by (simp add: load_extend_def signed_def)
qed

lemma sign_extend_half:
  assumes "n < 65536"
  shows "load_extend INSTRUCTION_LH (word_of_nat n) = word_of_int (sint (word_of_nat n :: 16 word))"
proof -
  have top: "bit (word_of_nat n :: u32) 15 \<longleftrightarrow> (word_of_nat n :: u32) AND 0x8000 \<noteq> 0"
    using bit_iff_and_push_bit_not_eq_0 [of "word_of_nat n :: u32" 15] by simp
  have "(word_of_nat n :: u32) = ucast (word_of_nat n :: 16 word)"
    using assms by (simp add: word_unat_eq_iff unat_of_nat unsigned_ucast_eq take_bit_nat_eq_self)
  then obtain b :: "16 word" where b: "(word_of_nat n :: u32) = ucast b" "word_of_nat n = b" by simp
  have mask: "(0xFFFF0000 :: u32) = push_bit 16 (mask 16)" by (simp add: mask_eq_exp_minus_1)
  have "(if bit b 15 then ucast b OR 0xFFFF0000 else ucast b :: u32) = scast b"
    unfolding mask by (rule bit_word_eqI, rename_tac n, case_tac "n = 15")
      (auto simp: bit_simps min_def dest: bit_imp_le_length)
  moreover have "bit (ucast b :: u32) 15 = bit b 15" by (simp add: bit_simps)
  ultimately show ?thesis using top b by (simp add: load_extend_def signed_def)
qed

lemma load_extend_value:
  assumes "length bs = load_width op"
  shows "load_extend (kind_of (Load op r a imm)) (word_of_nat (le_value bs)) = load_value op bs"
proof (cases op)
  case Ld_b
  with assms le_value_bound [of bs] show ?thesis by (simp add: sign_extend_byte)
next
  case Ld_h
  with assms le_value_bound [of bs] show ?thesis by (simp add: sign_extend_half)
qed (simp_all add: load_extend_def)

lemma low_bytes_cong: "unat v mod 256 ^ n = unat w mod 256 ^ n \<Longrightarrow> low_bytes n v = low_bytes n w"
  by (rule le_value_inj) (simp_all add: le_value_low_bytes)

lemma store_value_bytes:
  assumes "w \<in> {1, 2, 4}"
  shows "low_bytes w (store_value w v) = low_bytes w v"
proof -
  have "unat (ucast (ucast v :: u8) :: u32) mod 256 = unat v mod 256"
    "unat (ucast (ucast v :: u16) :: u32) mod 65536 = unat v mod 65536"
    by (simp_all only: unsigned_ucast_eq unsigned_take_bit_eq) (simp_all add: take_bit_eq_mod mod_mod_cancel)
  then show ?thesis using assms by (auto intro!: low_bytes_cong simp: store_value_def)
qed

subsection \<open>What each kind of instruction does\<close>

text \<open>
  The situation after a successful fetch: word \<open>w\<close> at the PC, decoded to a known kind.
\<close>

definition fetches :: "cpu \<Rightarrow> memory \<Rightarrow> u32 \<Rightarrow> bool" where
  "fetches c m w \<longleftrightarrow> length (registers c) = 32 \<and> memory_wf m \<and> \<not> halted c
     \<and> unat (program_counter c) mod 4 = 0 \<and> memory_read_u32 (Ref m) (program_counter c) True = Some w
     \<and> kind (instruction_decode w) \<noteq> INSTRUCTION_UNKNOWN"

text \<open>The \<^verbatim>\<open>switch\<close> on the fetched word.\<close>

definition switch_on :: "cpu \<Rightarrow> u32 \<Rightarrow> trap_request + effects" where
  "switch_on c w =
     execute_operation (kind (instruction_decode w)) (program_counter c) w
       (register_value c (unat (rs1 (instruction_extract_fields w))))
       (register_value c (unat (rs2 (instruction_extract_fields w))))
       (immediate (instruction_decode w)) (initial_effects (program_counter c))"

lemma execute_fetches:
  assumes "fetches c m w"
  obtains r1 where "pc_before r1 = pc_before r" "step_trap r1 = step_trap r"
    "execute (Ref c) (Ref m) r =
     (case switch_on c w of
        Inl (res, cause, v) \<Rightarrow>
          (case fault r1 res cause v of (res, r) \<Rightarrow> (res, Ref c, Ref m, r))
      | Inr e \<Rightarrow>
     (case execute_transfer (program_counter c) (instruction_decode w) e r1 of
        Inl (res, r) \<Rightarrow> (res, Ref c, Ref m, r)
      | Inr (e, r) \<Rightarrow>
     (case execute_access (Ref m) (instruction_decode w)
         (register_value c (unat (rs1 (instruction_extract_fields w))))
         (register_value c (unat (rs2 (instruction_extract_fields w)))) e r of
        Inl (res, r) \<Rightarrow> (res, Ref c, Ref m, r)
      | Inr (m, e, r) \<Rightarrow>
     (case execute_retire (Ref c) (rd (instruction_extract_fields w)) e r of
        (res, c, r) \<Rightarrow> (res, c, m, r)))))"
  using assms
  by (intro that [of "r\<lparr>step_fetched := True, step_instruction := instruction_decode w,
        rs1_value := register_value c (unat (rs1 (instruction_extract_fields w))),
        rs2_value := register_value c (unat (rs2 (instruction_extract_fields w)))\<rparr>"])
    (simp_all add: execute_def execute_fetch_eq fetches_def switch_on_def Let_def
      cong del: sum.case_cong_weak prod.case_cong_weak)

lemmas retire_simps = execute_retire_eq [OF decoded_register_bounds(1)]

lemma initial_effects_simps [simp]:
  "next_pc (initial_effects p) = p + 4" "writes_register (initial_effects p)"
  "\<not> transfer (initial_effects p)" "\<not> store_access (initial_effects p)"
  "access_width (initial_effects p) = 0" "result_value (initial_effects p) = 0"
  by (simp_all add: initial_effects_def add32_eq CPU_INSTRUCTION_SIZE_def)

lemmas stage_defs = execute_transfer_def execute_access_def retire_simps Let_def fault_def add32_eq
  CPU_INSTRUCTION_SIZE_def

lemma run_trap:
  assumes "fetches c m w" "switch_on c w = Inl (res, cause, v)"
  shows "outcome_of (execute (Ref c) (Ref m) r) = Trap (cause_number cause) v"
  using assms execute_operation_trap [of _ _ _ _ _ _ _ res cause v]
  by (rule_tac execute_fetches [of c m w r]) (auto simp: fault_def switch_on_def)

lemma run_value:
  assumes f: "fetches c m w" and sw: "switch_on c w = Inr (initial_effects (program_counter c)\<lparr>result_value := v\<rparr>)"
    and dest: "unat (rd (instruction_extract_fields w)) = unat (x :: regno)"
  shows "outcome_of (execute (Ref c) (Ref m) r) = write_next x v (abs_state c m)"
proof -
  have len: "length (registers c) = 32" using f by (simp add: fetches_def)
  show ?thesis
    by (rule execute_fetches [OF f, of r])
      (simp add: sw stage_defs dest write_next_def set_reg_abs [OF len])
qed

lemma run_fence:
  assumes f: "fetches c m w" and sw: "switch_on c w = Inr (initial_effects (program_counter c)\<lparr>writes_register := False\<rparr>)"
  shows "outcome_of (execute (Ref c) (Ref m) r) = Retire (next_pc_state (program_counter c + 4) (abs_state c m))"
  by (rule execute_fetches [OF f, of r]) (simp add: sw stage_defs)

lemma run_jump:
  assumes f: "fetches c m w"
    and sw: "switch_on c w = Inr (initial_effects (program_counter c)
      \<lparr>result_value := program_counter c + 4, transfer := True, next_pc := t\<rparr>)"
    and fmt: "format (instruction_decode w) \<noteq> INSTRUCTION_FORMAT_B"
    and dest: "unat (rd (instruction_extract_fields w)) = unat (x :: regno)"
  shows "outcome_of (execute (Ref c) (Ref m) r) =
    jump_to t (set_reg x (program_counter c + 4)) (abs_state c m)"
proof -
  have len: "length (registers c) = 32" using f by (simp add: fetches_def)
  show ?thesis
    by (rule execute_fetches [OF f, of r])
      (simp add: sw fmt stage_defs dest jump_to_def set_reg_abs [OF len])
qed

lemma run_branch:
  assumes f: "fetches c m w"
    and sw: "switch_on c w = Inr (initial_effects (program_counter c)\<lparr>transfer := b, writes_register := False\<rparr>)"
    and fmt: "format (instruction_decode w) = INSTRUCTION_FORMAT_B"
  shows "outcome_of (execute (Ref c) (Ref m) r) =
    (if b then jump_to (program_counter c + immediate (instruction_decode w)) id (abs_state c m)
     else Retire (next_pc_state (program_counter c + 4) (abs_state c m)))"
  by (rule execute_fetches [OF f, of r]) (simp add: sw fmt stage_defs jump_to_def)

lemma run_load:
  assumes f: "fetches c m w"
    and sw: "switch_on c w = Inr (initial_effects (program_counter c)\<lparr>access_width := n\<rparr>)"
    and n: "n \<in> {1, 2, 4}"
    and dest: "unat (rd (instruction_extract_fields w)) = unat (x :: regno)"
    and a: "a = register_value c (unat (rs1 (instruction_extract_fields w))) + immediate (instruction_decode w)"
  shows "outcome_of (execute (Ref c) (Ref m) r) =
    (if unat a mod n \<noteq> 0 then Trap cause_load_misaligned a
     else case ram_bytes (ram_of m) (unat a) n of
            None \<Rightarrow> Trap cause_load_access a
          | Some bs \<Rightarrow> write_next x (load_extend (kind (instruction_decode w)) (word_of_nat (le_value bs)))
              (abs_state c m))"
proof -
  have wf: "length (registers c) = 32" "memory_wf m" using f by (simp_all add: fetches_def)
  have "n \<noteq> 0" using n by auto
  then show ?thesis
    by (rule_tac execute_fetches [OF f, of r], cases "unat a mod n = 0")
      (simp_all add: sw stage_defs dest write_next_def set_reg_abs [OF wf(1)] read_width_ram [OF wf(2) n]
        split: option.split flip: a)
qed

lemma run_store:
  assumes f: "fetches c m w"
    and sw: "switch_on c w = Inr (initial_effects (program_counter c)
      \<lparr>access_width := n, store_access := True, writes_register := False\<rparr>)"
    and n: "n \<in> {1, 2, 4}"
    and a: "a = register_value c (unat (rs1 (instruction_extract_fields w))) + immediate (instruction_decode w)"
    and v: "v = register_value c (unat (rs2 (instruction_extract_fields w)))"
  shows "outcome_of (execute (Ref c) (Ref m) r) =
    (if unat a mod n \<noteq> 0 then Trap cause_store_misaligned a
     else case ram_bytes (ram_of m) (unat a) n of
            None \<Rightarrow> Trap cause_store_access a
          | Some _ \<Rightarrow> Retire (next_pc_state (program_counter c + 4)
              (abs_state c m \<lparr>ram := ram_store (ram_of m) (unat a) (value_bytes n v)\<rparr>)))"
proof -
  have wf: "memory_wf m" using f by (simp add: fetches_def)
  have pos: "n \<noteq> 0" using n by auto
  obtain r1 where run: "execute (Ref c) (Ref m) r = (case switch_on c w of
        Inl (res, cause, v) \<Rightarrow>
          (case fault r1 res cause v of (res, r) \<Rightarrow> (res, Ref c, Ref m, r))
      | Inr e \<Rightarrow>
     (case execute_transfer (program_counter c) (instruction_decode w) e r1 of
        Inl (res, r) \<Rightarrow> (res, Ref c, Ref m, r)
      | Inr (e, r) \<Rightarrow>
     (case execute_access (Ref m) (instruction_decode w)
         (register_value c (unat (rs1 (instruction_extract_fields w)))) v e r of
        Inl (res, r) \<Rightarrow> (res, Ref c, Ref m, r)
      | Inr (m, e, r) \<Rightarrow>
     (case execute_retire (Ref c) (rd (instruction_extract_fields w)) e r of
        (res, c, r) \<Rightarrow> (res, c, m, r)))))"
    using execute_fetches [OF f, of r] v by metis
  show ?thesis
  proof (cases "unat a mod n = 0")
    case False
    with pos show ?thesis by (simp add: run sw stage_defs flip: a)
  next
    case True
    show ?thesis
    proof (cases "ram_bytes (ram_of m) (unat a) n")
      case None
      with True pos show ?thesis
        by (simp add: run sw stage_defs read_width_ram [OF wf n] flip: a)
    next
      case (Some bs)
      with write_width_ram [OF wf n True, of "store_value n v"] obtain m' where
        m': "write_width (Ref m) a n (store_value n v) = Some m'"
        "ram_of m' = ram_store (ram_of m) (unat a) (value_bytes n (store_value n v))" by auto
      have "abs_state c m' = abs_state c m \<lparr>ram := ram_store (ram_of m) (unat a) (value_bytes n v)\<rparr>"
        by (simp add: abs_state_def m'(2) value_bytes_low store_value_bytes [OF n])
      with Some True pos m'(1) show ?thesis
        by (simp add: run sw stage_defs read_width_ram [OF wf n] flip: a)
    qed
  qed
qed

subsection \<open>Every instruction\<close>

text \<open>The operands of an encoded instruction as the fetched fields present them.\<close>

lemma decoded_operands:
  assumes "decodes_as (instruction_decode w) i"
  shows "dest_of i = Some x \<Longrightarrow> unat (rd (instruction_extract_fields w)) = unat x"
    and "src1_of i = Some a \<Longrightarrow>
      register_value c (unat (rs1 (instruction_extract_fields w))) = get_reg (abs_state c m) a"
    and "src2_of i = Some b \<Longrightarrow>
      register_value c (unat (rs2 (instruction_extract_fields w))) = get_reg (abs_state c m) b"
  using assms by (simp_all add: decodes_as_def get_reg_abs unat_regno)

lemma decoded_parts:
  assumes "decodes_as (instruction_decode w) i"
  shows "kind (instruction_decode w) = kind_of i" "format (instruction_decode w) = format_of i"
    "immediate (instruction_decode w) = immediate_of i"
  using assms by (simp_all add: decodes_as_def)

lemma refines_RegOp:
  assumes f: "fetches c m w" and d: "decodes_as (instruction_decode w) (RegOp op x a b)"
  shows "outcome_of (execute (Ref c) (Ref m) r) = exec (RegOp op x a b) (abs_state c m)"
proof -
  note ops = decoded_operands(2,3) [OF d, of _ c m, simplified]
  have "switch_on c w = Inr (initial_effects (program_counter c)
      \<lparr>result_value := alu op (get_reg (abs_state c m) a) (get_reg (abs_state c m) b)\<rparr>)"
    using ops by (cases op) (simp_all only: switch_on_def decoded_parts [OF d] kind_of.simps
        execute_operation.simps operation_values(1-9) alu.simps(10))
  from run_value [OF f this decoded_operands(1) [OF d]] show ?thesis by simp
qed

lemma refines_ImmOp:
  assumes f: "fetches c m w" and d: "decodes_as (instruction_decode w) (ImmOp op x a imm)"
  shows "outcome_of (execute (Ref c) (Ref m) r) = exec (ImmOp op x a imm) (abs_state c m)"
proof -
  note ops = decoded_operands(2) [OF d, of _ c m, simplified]
  have "switch_on c w = Inr (initial_effects (program_counter c)
      \<lparr>result_value := alu (alu_of_imm op) (get_reg (abs_state c m) a) (imm_value imm)\<rparr>)"
    using ops by (cases op) (simp_all only: switch_on_def decoded_parts [OF d] kind_of.simps
        immediate_of.simps alu_of_imm.simps execute_operation.simps operation_values)
  from run_value [OF f this decoded_operands(1) [OF d]] show ?thesis by simp
qed

lemma refines_ShiftOp:
  assumes f: "fetches c m w" and d: "decodes_as (instruction_decode w) (ShiftOp op x a sh)"
  shows "outcome_of (execute (Ref c) (Ref m) r) = exec (ShiftOp op x a sh) (abs_state c m)"
proof -
  note ops = decoded_operands(2) [OF d, of _ c m, simplified]
  have "unat sh < 32" by (rule regno_bound)
  with ops have "switch_on c w = Inr (initial_effects (program_counter c)
      \<lparr>result_value := alu (alu_of_shift op) (get_reg (abs_state c m) a) (ucast sh)\<rparr>)"
    by (cases op) (simp_all only: switch_on_def decoded_parts [OF d] kind_of.simps immediate_of.simps
        alu_of_shift.simps execute_operation.simps operation_values(8) alu_shifts small_amount
        shift_left_eq)
  from run_value [OF f this decoded_operands(1) [OF d]] show ?thesis by simp
qed

lemma refines_Lui:
  assumes f: "fetches c m w" and d: "decodes_as (instruction_decode w) (Lui x imm)"
  shows "outcome_of (execute (Ref c) (Ref m) r) = exec (Lui x imm) (abs_state c m)"
proof -
  have "switch_on c w = Inr (initial_effects (program_counter c)\<lparr>result_value := upper_value imm\<rparr>)"
    by (simp add: switch_on_def decoded_parts [OF d])
  from run_value [OF f this decoded_operands(1) [OF d]] show ?thesis by simp
qed

lemma refines_Auipc:
  assumes f: "fetches c m w" and d: "decodes_as (instruction_decode w) (Auipc x imm)"
  shows "outcome_of (execute (Ref c) (Ref m) r) = exec (Auipc x imm) (abs_state c m)"
proof -
  have "switch_on c w = Inr (initial_effects (program_counter c)
      \<lparr>result_value := program_counter c + upper_value imm\<rparr>)"
    by (simp add: switch_on_def decoded_parts [OF d] add32_eq)
  from run_value [OF f this decoded_operands(1) [OF d]] show ?thesis by simp
qed

lemma refines_Jal:
  assumes f: "fetches c m w" and d: "decodes_as (instruction_decode w) (Jal x h)"
  shows "outcome_of (execute (Ref c) (Ref m) r) = exec (Jal x h) (abs_state c m)"
proof -
  have "switch_on c w = Inr (initial_effects (program_counter c)\<lparr>result_value := program_counter c + 4,
      transfer := True, next_pc := program_counter c + jump_offset h\<rparr>)"
    by (simp add: switch_on_def decoded_parts [OF d] add32_eq)
  from run_jump [OF f this _ decoded_operands(1) [OF d]] show ?thesis by (simp add: decoded_parts [OF d])
qed

lemma refines_Jalr:
  assumes f: "fetches c m w" and d: "decodes_as (instruction_decode w) (Jalr x a imm)"
  shows "outcome_of (execute (Ref c) (Ref m) r) = exec (Jalr x a imm) (abs_state c m)"
proof -
  note ops = decoded_operands(2) [OF d, of _ c m, simplified]
  have "switch_on c w = Inr (initial_effects (program_counter c)\<lparr>result_value := program_counter c + 4,
      transfer := True, next_pc := (get_reg (abs_state c m) a + imm_value imm) AND NOT 1\<rparr>)"
    using ops by (simp add: switch_on_def decoded_parts [OF d] add32_eq)
  from run_jump [OF f this _ decoded_operands(1) [OF d]] show ?thesis by (simp add: decoded_parts [OF d])
qed

lemma refines_Branch:
  assumes f: "fetches c m w" and d: "decodes_as (instruction_decode w) (Branch op a b h)"
  shows "outcome_of (execute (Ref c) (Ref m) r) = exec (Branch op a b h) (abs_state c m)"
proof -
  note ops = decoded_operands(2,3) [OF d, of _ c m, simplified]
  have "switch_on c w = Inr (initial_effects (program_counter c)\<lparr>transfer :=
      branch_taken_spec op (get_reg (abs_state c m) a) (get_reg (abs_state c m) b), writes_register := False\<rparr>)"
    using ops by (cases op) (simp_all add: switch_on_def decoded_parts [OF d]
        signed_less_iff word_less_nat_alt word_le_nat_alt not_less)
  from run_branch [OF f this] show ?thesis by (simp add: decoded_parts [OF d])
qed

lemma refines_Load:
  assumes f: "fetches c m w" and d: "decodes_as (instruction_decode w) (Load op x a imm)"
  shows "outcome_of (execute (Ref c) (Ref m) r) = exec (Load op x a imm) (abs_state c m)"
proof -
  note ops = decoded_operands(2) [OF d, of _ c m, simplified]
  have sw: "switch_on c w = Inr (initial_effects (program_counter c)\<lparr>access_width := load_width op\<rparr>)"
    by (cases op) (simp_all add: switch_on_def decoded_parts [OF d])
  have n: "load_width op \<in> {1, 2, 4}" "load_width op \<noteq> 0" by (cases op, simp_all)+
  have wf: "memory_wf m" using f by (simp add: fetches_def)
  have len: "length bs = load_width op" if "ram_bytes (ram_of m) p (load_width op) = Some bs" for p bs
    using that by (auto simp: ram_bytes_def split: if_splits)
  note ext = load_extend_value [OF len, where r = x and a = a and imm = imm]
  have addr: "get_reg (abs_state c m) a + imm_value imm =
      register_value c (unat (rs1 (instruction_extract_fields w))) + immediate (instruction_decode w)"
    using ops by (simp add: decoded_parts [OF d])
  show ?thesis
    using run_load [OF f sw n(1) decoded_operands(1) [OF d, of x] addr, of r]
    by (simp add: decoded_parts [OF d] Let_def ext split: option.split)
qed

lemma refines_Store:
  assumes f: "fetches c m w" and d: "decodes_as (instruction_decode w) (Store op a b imm)"
  shows "outcome_of (execute (Ref c) (Ref m) r) = exec (Store op a b imm) (abs_state c m)"
proof -
  note ops = decoded_operands(2,3) [OF d, of _ c m, simplified]
  have sw: "switch_on c w = Inr (initial_effects (program_counter c)
      \<lparr>access_width := store_width op, store_access := True, writes_register := False\<rparr>)"
    by (cases op) (simp_all add: switch_on_def decoded_parts [OF d])
  have n: "store_width op \<in> {1, 2, 4}" by (cases op) simp_all
  have addr: "get_reg (abs_state c m) a + imm_value imm =
      register_value c (unat (rs1 (instruction_extract_fields w))) + immediate (instruction_decode w)"
    and v: "get_reg (abs_state c m) b = register_value c (unat (rs2 (instruction_extract_fields w)))"
    using ops by (simp_all add: decoded_parts [OF d])
  show ?thesis
    using run_store [OF f sw n addr v, of r] by (simp add: Let_def split: option.split)
qed

lemma refines_Fence:
  assumes f: "fetches c m w" and d: "decodes_as (instruction_decode w) (Fence x a imm)"
  shows "outcome_of (execute (Ref c) (Ref m) r) = exec (Fence x a imm) (abs_state c m)"
proof -
  have "switch_on c w = Inr (initial_effects (program_counter c)\<lparr>writes_register := False\<rparr>)"
    by (simp add: switch_on_def decoded_parts [OF d])
  from run_fence [OF f this] show ?thesis by simp
qed

lemma refines_System:
  assumes f: "fetches c m w"
  shows "decodes_as (instruction_decode w) Ecall \<Longrightarrow>
      outcome_of (execute (Ref c) (Ref m) r) = exec Ecall (abs_state c m)"
    and "decodes_as (instruction_decode w) Ebreak \<Longrightarrow>
      outcome_of (execute (Ref c) (Ref m) r) = exec Ebreak (abs_state c m)"
proof -
  assume d: "decodes_as (instruction_decode w) Ecall"
  have "switch_on c w = Inl (CPU_STEP_ECALL, CPU_TRAP_USER_ECALL, 0)"
    by (simp add: switch_on_def decoded_parts [OF d])
  from run_trap [OF f this] show "outcome_of (execute (Ref c) (Ref m) r) = exec Ecall (abs_state c m)" by simp
next
  assume d: "decodes_as (instruction_decode w) Ebreak"
  have "switch_on c w = Inl (CPU_STEP_BREAKPOINT, CPU_TRAP_BREAKPOINT, program_counter c)"
    by (simp add: switch_on_def decoded_parts [OF d])
  from run_trap [OF f this] show "outcome_of (execute (Ref c) (Ref m) r) = exec Ebreak (abs_state c m)" by simp
qed

lemmas refines = refines_RegOp refines_ImmOp refines_ShiftOp refines_Lui refines_Auipc refines_Jal
  refines_Jalr refines_Branch refines_Load refines_Store refines_Fence refines_System

lemma execute_refines:
  assumes "fetches c m w" "decodes_as (instruction_decode w) i"
  shows "outcome_of (execute (Ref c) (Ref m) r) = exec i (abs_state c m)"
  using assms(2) by (cases i) (simp_all only: refines [OF assms(1)])

subsection \<open>The step relation\<close>

lemma outcome_recorded:
  "outcome_of (cpu_step_recorded (Ref c) (Ref m)) = outcome_of (execute (Ref c) (Ref m) (start_record c))"
  by (auto simp: cpu_step_recorded_eq split: prod.splits option.splits)

lemma fetch_ram:
  assumes "memory_wf m" "unat (program_counter c) mod 4 = 0"
  shows "memory_read_u32 (Ref m) (program_counter c) True =
    map_option (\<lambda>bs. word_of_nat (le_value bs)) (ram_bytes (ram_of m) (unat (program_counter c)) 4)"
  using read_width_ram [OF assms(1), of 4 "program_counter c"] assms(2) by (simp add: read_width_def)

inductive_cases isa_stepE: "isa_step s out"

lemma isa_step_misaligned:
  "unat (pc s) mod 4 \<noteq> 0 \<Longrightarrow> isa_step s out \<longleftrightarrow> out = Trap cause_insn_misaligned (pc s)"
  by (auto intro: isa_step.fetch_misaligned elim!: isa_stepE)

lemma isa_step_no_fetch:
  "unat (pc s) mod 4 = 0 \<Longrightarrow> ram_bytes (ram s) (unat (pc s)) 4 = None \<Longrightarrow>
    isa_step s out \<longleftrightarrow> out = Trap cause_insn_access (pc s)"
  using isa_step.fetch_access [of s] by (auto elim!: isa_stepE)

lemma isa_step_illegal:
  "unat (pc s) mod 4 = 0 \<Longrightarrow> ram_bytes (ram s) (unat (pc s)) 4 = Some bs \<Longrightarrow>
    word_of_nat (le_value bs) \<notin> range encode \<Longrightarrow>
    isa_step s out \<longleftrightarrow> out = Trap cause_illegal (word_of_nat (le_value bs))"
  by (auto intro: isa_step.illegal elim!: isa_stepE)

lemma isa_step_execute:
  "unat (pc s) mod 4 = 0 \<Longrightarrow> ram_bytes (ram s) (unat (pc s)) 4 = Some bs \<Longrightarrow>
    word_of_nat (le_value bs) = encode i \<Longrightarrow> isa_step s out \<longleftrightarrow> out = exec i s"
  by (auto simp: encode_inject intro: isa_step.execute elim!: isa_stepE)


text \<open>A CPU that is not halted never gives up without a trap.\<close>

lemma execute_early_traps:
  "\<not> halted c \<Longrightarrow> execute_fetch (Ref c) (Ref m) r = Inl (res, r1) \<Longrightarrow> trap_of_result res \<noteq> None"
  "execute_transfer p d e r = Inl (res, r1) \<Longrightarrow> trap_of_result res \<noteq> None"
  "execute_access (Ref m) d x y e r = Inl (res, r1) \<Longrightarrow> trap_of_result res \<noteq> None"
  by (auto simp: execute_fetch_eq execute_transfer_def execute_access_def Let_def fault_def
      split: if_splits option.splits)

lemma execute_ok_or_trap:
  assumes "\<not> halted c" "execute (Ref c) (Ref m) r = (res, c', m', r')"
  shows "res = CPU_STEP_OK \<or> trap_of_result res \<noteq> None"
  using assms execute_early_traps execute_operation_trap
  by (auto simp: execute_def Let_def fault_def retire_simps dest!: execute_fetch_Inr(7)
      split: sum.splits prod.splits)

lemma cpu_step_ok_or_trap:
  assumes "\<not> halted c" "cpu_step_recorded (Ref c) (Ref m) = (res, c', m', r)"
  shows "res = CPU_STEP_OK \<or> trap_raised (step_trap r)"
proof -
  obtain r0 where "execute (Ref c) (Ref m) (start_record c) = (res, c', m', r0)"
    using assms(2) by (auto simp: cpu_step_recorded_eq split: prod.splits)
  note ok = execute_ok_or_trap [OF assms(1) this]
  from assms(2) show ?thesis by (cases rule: cpu_step_cases) (use ok in auto)
qed

lemma execute_known_or_illegal:
  assumes "\<not> halted c" "unat (program_counter c) mod 4 = 0"
    "memory_read_u32 (Ref m) (program_counter c) True = Some w"
    "kind (instruction_decode w) = INSTRUCTION_UNKNOWN"
  shows "outcome_of (execute (Ref c) (Ref m) r) = Trap cause_illegal w"
  using assms by (simp add: execute_def execute_fetch_eq Let_def fault_def)

lemma fetched_step:
  assumes wf: "cpu_wf c" "memory_wf m" and run: "\<not> halted c"
    and aligned: "unat (program_counter c) mod 4 = 0"
    and bytes: "ram_bytes (ram_of m) (unat (program_counter c)) 4 = Some bs"
  shows "isa_step (abs_state c m) out \<longleftrightarrow> out = outcome_of (cpu_step_recorded (Ref c) (Ref m))"
proof -
  define w :: u32 where "w = word_of_nat (le_value bs)"
  have word: "memory_read_u32 (Ref m) (program_counter c) True = Some w"
    using bytes by (simp add: fetch_ram [OF wf(2) aligned] w_def)
  show ?thesis
  proof (cases "kind (instruction_decode w) = INSTRUCTION_UNKNOWN")
    case True
    then have "w \<notin> range encode" using decode_encode kind_of_known by (auto simp: decodes_as_def)
    with bytes aligned isa_step_illegal [of "abs_state c m" bs out]
      execute_known_or_illegal [OF run aligned word True, of "start_record c"]
    show ?thesis by (simp add: outcome_recorded w_def)
  next
    case False
    then obtain i where i: "w = encode i" using decode_known_encoded by (metis rangeE)
    have "fetches c m w"
      using wf run aligned word False by (simp add: fetches_def cpu_wf_def CPU_REGISTER_COUNT_def)
    moreover have "decodes_as (instruction_decode w) i" unfolding i by (rule decode_encode)
    ultimately have "outcome_of (execute (Ref c) (Ref m) (start_record c)) = exec i (abs_state c m)"
      by (rule execute_refines)
    with bytes aligned i isa_step_execute [of "abs_state c m" bs i out]
    show ?thesis by (simp add: outcome_recorded w_def)
  qed
qed

lemma cpu_step_refines:
  assumes wf: "cpu_wf c" "memory_wf m" and run: "\<not> halted c"
  shows "(isa_step (abs_state c m) out \<longleftrightarrow> out = outcome_of (cpu_step_recorded (Ref c) (Ref m))) \<and>
    (case cpu_step_recorded (Ref c) (Ref m) of (res, _, _, r) \<Rightarrow>
       res = CPU_STEP_OK \<or> trap_raised (step_trap r))"
proof (intro conjI)
  show "case cpu_step_recorded (Ref c) (Ref m) of (res, _, _, r) \<Rightarrow>
       res = CPU_STEP_OK \<or> trap_raised (step_trap r)"
    using cpu_step_ok_or_trap [OF run] by (auto split: prod.split)
  let ?p = "program_counter c" and ?r = "start_record c"
  show "isa_step (abs_state c m) out \<longleftrightarrow> out = outcome_of (cpu_step_recorded (Ref c) (Ref m))"
  proof (cases "unat ?p mod 4 = 0")
    case False
    with run have "outcome_of (execute (Ref c) (Ref m) ?r) = Trap cause_insn_misaligned ?p"
      by (simp add: execute_def execute_fetch_eq fault_def)
    with False isa_step_misaligned [of "abs_state c m" out] show ?thesis by (simp add: outcome_recorded)
  next
    case aligned: True
    show ?thesis
    proof (cases "ram_bytes (ram_of m) (unat ?p) 4")
      case None
      with run aligned have "outcome_of (execute (Ref c) (Ref m) ?r) = Trap cause_insn_access ?p"
        by (simp add: execute_def execute_fetch_eq fetch_ram [OF wf(2)] fault_def)
      with None aligned isa_step_no_fetch [of "abs_state c m" out] show ?thesis by (simp add: outcome_recorded)
    next
      case (Some bs)
      from fetched_step [OF wf run aligned this] show ?thesis .
    qed
  qed
qed

subsection \<open>Properties\<close>

text \<open>
  C1. The CPU implements RV32I. For every well-formed CPU and RAM that is not halted, one step of
  the simulator has exactly the outcome that the instruction set prescribes: the step relation of
  the specification relates the abstract state to one outcome only, which is the abstraction of
  the state after the step when the instruction retires, and the trap cause and value of the step
  record otherwise; and a step that does not retire has raised a trap.
\<close>

theorem cpu_step_refines_isa:
  assumes wf: "cpu_wf c" "memory_wf m" and run: "\<not> halted c"
  shows "(isa_step (abs_state c m) out \<longleftrightarrow> out = outcome_of (cpu_step_recorded (Ref c) (Ref m))) \<and>
    (case cpu_step_recorded (Ref c) (Ref m) of (res, _, _, r) \<Rightarrow>
       res = CPU_STEP_OK \<or> trap_raised (step_trap r))"
  using assms by (rule cpu_step_refines)

text \<open>The step of \<^verbatim>\<open>addi x5, x0, 7\<close> as a step of the instruction set.\<close>

theorem cpu_step_refines_isa_witness:
  "\<exists>c' m'. isa_step (abs_state zero_cpu (code_memory 0x00700293 0)) (Retire (abs_state c' m'))
     \<and> register_value c' 5 = 7"
proof -
  obtain c' m' r where run: "cpu_step_recorded (Ref zero_cpu) (Ref (code_memory 0x00700293 0)) =
      (CPU_STEP_OK, Ref c', Ref m', r)" and x5: "register_value c' 5 = 7" by (rule run_addi)
  have "\<not> halted zero_cpu" by (simp add: zero_cpu_def)
  from cpu_step_refines_isa [OF cpu_wf_zero code_memory_wf [of "0x00700293" 0] this,
      where out = "Retire (abs_state c' m')"] run
  have "isa_step (abs_state zero_cpu (code_memory 0x00700293 0)) (Retire (abs_state c' m'))" by simp
  with x5 show ?thesis by blast
qed

end
