(* ===== verification/Machine_Refinement.thy ===== *)
theory Machine_Refinement
  imports Machine Cpu_Refinement
begin

section \<open>Runs of the machine are executions of the instruction set\<close>

text \<open>
  The refinement of \<^verbatim>\<open>src/machine.c\<close>: the steps and runs of the machine, seen through the
  abstract state of the CPU and RAM, are executions of the specification in theory Isa. The
  step lemma rests on the refinement of one CPU step; the run lemma is an induction on the loop.
  So every state that steps, stops and resets reach is one of an execution of the loaded program.
\<close>


text \<open>The abstract state of a machine, and an instruction that retires in the specification.\<close>

definition machine_state :: "machine \<Rightarrow> isa_state" where
  "machine_state m = abs_state (m_cpu m) (m_memory m)"

definition isa_retires :: "isa_state \<Rightarrow> isa_state \<Rightarrow> bool" where
  "isa_retires s s' \<longleftrightarrow> isa_step s (Retire s')"

lemma machine_state_flags [simp]:
  "machine_state (running m) = machine_state m" "machine_state (stopped m) = machine_state m"
  "machine_state (m\<lparr>m_exited := b, m_exit_code := n\<rparr>) = machine_state m"
  by (simp_all add: machine_state_def running_def stopped_def abs_state_def)

text \<open>The trap that a result reports: cause and value from the record of its last attempt.\<close>

definition reported_trap :: "MachineRun \<Rightarrow> outcome" where
  "reported_trap r = Trap (cause_number (trap_cause (step_trap (run_last r)))) (trap_value (step_trap (run_last r)))"

lemma machine_step_simulates:
  assumes "live m" and run: "machine_step (Ref m) = (one, Ref x)"
  shows "if run_reason one = MACHINE_READY then isa_retires (machine_state m) (machine_state x)
    else machine_state x = machine_state m \<and> isa_step (machine_state m) (reported_trap one)"
proof -
  have m: "m_loaded m" "\<not> m_exited m" "cpu_wf (m_cpu (running m))" "memory_wf (m_memory m)"
      "\<not> halted (m_cpu (running m))"
    using assms(1) by (simp_all add: live_def machine_wf_def cpu_wf_def running_def)
  have state: "abs_state (m_cpu (running m)) (m_memory m) = machine_state m"
    using machine_state_flags(1) [of m] by (simp add: machine_state_def)
  note refines = cpu_step_refines [OF m(3-5), unfolded state]
  from run m(1,2) show ?thesis
  proof (cases rule: machine_step_cases)
    case (ready c mem r)
    then show ?thesis
      using refines [of "Retire (machine_state x)"] by (simp add: isa_retires_def machine_state_def)
  next
    case (exit r)
    then show ?thesis
      using refines [of "reported_trap one"] by (simp add: reported_trap_def)
  next
    case (trap res r)
    then show ?thesis
      using refines [of "reported_trap one"] by (simp add: reported_trap_def)
  qed
qed

lemma run_loop_simulates:
  assumes "live m" "run_attempts sofar \<le> limit"
    "run_loop limit should_stop trace (Ref m) context sofar = (r, Ref x, context')"
  shows "\<exists>n. (isa_retires ^^ n) (machine_state m) (machine_state x)
    \<and> run_retired r = run_retired sofar + of_nat n \<and> unat (run_attempts sofar) + n \<le> unat limit
    \<and> (run_reason r \<in> {MACHINE_TRAP, MACHINE_EXITED} \<longrightarrow> isa_step (machine_state x) (reported_trap r))"
  using assms
proof (induction limit should_stop trace "Ref m" "context" sofar arbitrary: m rule: run_loop.induct)
  case (1 limit should_stop trace ctx0 sofar)
  obtain stop ctx where ask: "ask_stop should_stop ctx0 = (stop, ctx)" by fastforce
  obtain one m1 where step: "machine_step (Ref m) = (one, m1)" by fastforce
  from live_step [OF "1.prems"(1) step] obtain y where
    y: "m1 = Ref y" "run_attempts one = 1" "run_retired one = 1 - failed_attempts one"
    "run_reason one = MACHINE_READY \<Longrightarrow> live y"
    "run_reason one \<in> {MACHINE_READY, MACHINE_EXITED, MACHINE_TRAP}" by metis
  note sim = machine_step_simulates [OF "1.prems"(1) step [unfolded y(1)]]
  define sofar1 where "sofar1 = sofar\<lparr>run_attempts := run_attempts sofar + run_attempts one,
    run_retired := run_retired sofar + run_retired one, run_last := run_last one\<rparr>"
  note loop = run_loop.simps [of limit should_stop trace "Ref m" ctx0 sofar]
  show ?case
  proof (cases "run_attempts sofar < limit \<and> \<not> stop")
    case False
    with "1.prems" ask show ?thesis
      by (intro exI [of _ 0]) (auto simp: loop word_le_nat_alt split: if_splits)
  next
    case go: True
    then have grow: "run_attempts sofar1 \<le> limit" "unat (run_attempts sofar1) = unat (run_attempts sofar) + 1"
      using y(2) unat_inc [of "run_attempts sofar" limit] by (simp_all add: sofar1_def inc_le)
    show ?thesis
    proof (cases "run_reason one = MACHINE_READY")
      case False
      with "1.prems"(3) ask step y(1) go have "r = sofar1\<lparr>run_reason := run_reason one\<rparr>" "x = y"
        by (simp_all add: loop Let_def sofar1_def)
      with False y(3,5) sim go show ?thesis
        by (intro exI [of _ 0]) (auto simp: sofar1_def reported_trap_def word_less_nat_alt)
    next
      case True
      with "1.prems"(3) ask step y(1) go have
        "run_loop limit should_stop trace (Ref y) (tell_trace trace one ctx) sofar1 = (r, Ref x, context')"
        by (simp add: loop Let_def sofar1_def)
      with go True y(4) grow(1) have "\<exists>n. (isa_retires ^^ n) (machine_state y) (machine_state x)
          \<and> run_retired r = run_retired sofar1 + of_nat n \<and> unat (run_attempts sofar1) + n \<le> unat limit
          \<and> (run_reason r \<in> {MACHINE_TRAP, MACHINE_EXITED} \<longrightarrow> isa_step (machine_state x) (reported_trap r))"
        by (intro "1.hyps" [OF _ ask [symmetric] _ step [unfolded y(1), symmetric] refl refl,
            folded sofar1_def]) simp_all
      then obtain n where n: "(isa_retires ^^ n) (machine_state y) (machine_state x)"
          "run_retired r = run_retired sofar1 + of_nat n" "unat (run_attempts sofar1) + n \<le> unat limit"
          "run_reason r \<in> {MACHINE_TRAP, MACHINE_EXITED} \<longrightarrow> isa_step (machine_state x) (reported_trap r)"
        by blast
      have "(isa_retires ^^ Suc n) (machine_state m) (machine_state x)"
        using sim True n(1) by (intro relpowp_Suc_I2) simp_all
      with n True y(3) grow(2) show ?thesis
        by (intro exI [of _ "Suc n"]) (simp add: sofar1_def add.assoc)
    qed
  qed
qed

subsection \<open>Executions from the start\<close>

text \<open>The state in which a program starts: registers zero, the PC at the entry, and the RAM of the program.\<close>

definition isa_start :: "program \<Rightarrow> isa_state" where
  "isa_start p = \<lparr>reg_file = (\<lambda>_. 0), pc = entry p, ram = ram_of (prog_memory p)\<rparr>"

lemma machine_state_fresh: "machine_state (fresh_machine p) = isa_start p"
  using regno_bound
  by (auto simp: machine_state_def fresh_machine_def isa_start_def abs_state_def zero_cpu_def size_simps)

text \<open>Whatever sequence of steps, stops and resets is applied, the state is one of the program's executions.\<close>

lemma machine_ops_follow:
  assumes p: "program_wf p" and reached: "machine_op\<^sup>*\<^sup>* (fresh_machine p) m"
  shows "isa_retires\<^sup>*\<^sup>* (isa_start p) (machine_state m)"
  using reached
proof (induction rule: rtranclp_induct)
  case base
  then show ?case by (simp add: machine_state_fresh)
next
  case (step y z)
  have y: "machine_wf y \<and> m_loaded y"
    using machine_ops_keep [OF step.hyps(1) machine_wf_fresh [OF p]] by (simp add: fresh_machine_def)
  from step.hyps(2) show ?case
  proof cases
    case (op_step one)
    show ?thesis
    proof (cases "m_exited y")
      case True
      with op_step step.IH machine_step_idle [of y] show ?thesis by simp
    next
      case False
      with y have "live y" by (simp add: live_def)
      from machine_step_simulates [OF this op_step] step.IH show ?thesis
        by (cases "run_reason one = MACHINE_READY") auto
    qed
  next
    case op_stop
    with step.IH show ?thesis by simp
  next
    case op_reset
    then have "z = fresh_machine p" using reset_reached [OF p step.hyps(1)] by simp
    then show ?thesis by (simp add: machine_state_fresh)
  qed
qed

subsection \<open>Properties\<close>

text \<open>
  C5. A run is an execution of the instruction set. For a loaded machine that has not exited, the
  run loop takes the abstract state through exactly as many retiring steps of the specification
  as it reports retired instructions, whatever the limit and the callbacks; and when it ends by a
  trap or an exit, the specification takes the trap that the last record reports in the state
  reached.
\<close>

theorem machine_run_simulates:
  assumes "machine_wf m" "m_loaded m" "\<not> m_exited m" "0 < limit"
    and "machine_run (Ref m) limit should_stop trace context = (r, Ref x, context')"
  shows "(isa_retires ^^ unat (run_retired r)) (machine_state m) (machine_state x) \<and>
    (run_reason r \<in> {MACHINE_TRAP, MACHINE_EXITED} \<longrightarrow> isa_step (machine_state x) (reported_trap r))"
proof -
  have loop: "run_loop limit should_stop trace (Ref m) context zero_run = (r, Ref x, context')"
    using assms by (simp add: machine_run_def word_neq_0_conv split: if_splits)
  have start: "live m" "run_attempts zero_run \<le> limit" using assms(1-3) by (simp_all add: live_def zero_run_def)
  obtain n where
    n: "(isa_retires ^^ n) (machine_state m) (machine_state x)" "run_retired r = run_retired zero_run + of_nat n"
      "unat (run_attempts zero_run) + n \<le> unat limit"
      "run_reason r \<in> {MACHINE_TRAP, MACHINE_EXITED} \<longrightarrow> isa_step (machine_state x) (reported_trap r)"
    using run_loop_simulates [OF start loop] by blast
  have "n < 2 ^ 64" using n(3) unsigned_less [of limit, where ?'a = nat] by simp
  then have "unat (run_retired r) = n" by (simp add: n(2) zero_run_def unat_of_nat)
  with n(1,4) show ?thesis by simp
qed

theorem machine_run_simulates_witness:
  "\<exists>r x c. machine_run (Ref (fresh_machine exit_program)) 5 NULL NULL () = (r, Ref x, c) \<and>
     (isa_retires ^^ unat (run_retired r)) (machine_state (fresh_machine exit_program)) (machine_state x)"
proof -
  obtain r m' c where run: "machine_run (Ref (fresh_machine exit_program)) 5 NULL NULL () = (r, m', c)"
    by (metis prod_cases3)
  obtain x where x: "m' = Ref x" using wf.run_keeps [OF exit_run_live(1) run] by blast
  have "(0 :: u64) < 5" by simp
  from machine_run_simulates [OF exit_run_live this run [unfolded x]] run [unfolded x]
  show ?thesis by (intro exI [of _ r] exI [of _ x] exI [of _ c]) simp
qed

end
