(* ===== verification/Guest_Code.thy ===== *)
theory Guest_Code
  imports Machine_Refinement
begin

section \<open>Machine code of guest programs\<close>

text \<open>
  Guest programs as lists of instructions of the specification that lie in RAM. The theory has the
  rules by which a state that stands at such code executes it, the PC-relative code that loads an
  address or calls a function, and the connection with the image of a loaded program.
\<close>

subsection \<open>Code in RAM\<close>

text \<open>The word at an address, and a list of instructions from an aligned address on.\<close>

definition fetched :: "(nat \<rightharpoonup> u8) \<Rightarrow> u32 \<Rightarrow> u32 option" where
  "fetched r a = map_option (\<lambda>bs. word_of_nat (le_value bs)) (ram_bytes r (unat a) 4)"

definition code_at :: "(nat \<rightharpoonup> u8) \<Rightarrow> u32 \<Rightarrow> instr list \<Rightarrow> bool" where
  "code_at r a code \<longleftrightarrow> unat a mod 4 = 0
     \<and> (\<forall>i<length code. fetched r (a + 4 * of_nat i) = Some (encode (code ! i)))"

lemma unat_mod_4: "unat (a + 4 * b) mod 4 = unat a mod 4" for a b :: u32
proof -
  have d: "(4 :: nat) dvd 2 ^ LENGTH(32)" by simp
  have "unat (a + 4 * b) = (unat a + unat (4 * b)) mod 2 ^ LENGTH(32)" by (rule unat_word_ariths)
  moreover have "unat (4 * b) = 4 * unat b mod 2 ^ LENGTH(32)" using unat_word_ariths(2) [of 4 b] by simp
  ultimately have "unat (a + 4 * b) mod 4 = (unat a + 4 * unat b mod 2 ^ LENGTH(32)) mod 4"
    by (simp only: mod_mod_cancel [OF d])
  also have "\<dots> = (unat a + 4 * unat b mod 2 ^ LENGTH(32) mod 4) mod 4" by (simp only: mod_add_right_eq)
  also have "\<dots> = (unat a + 4 * unat b mod 4) mod 4" by (simp only: mod_mod_cancel [OF d])
  finally show ?thesis by simp
qed

lemma code_at_append:
  "code_at r a (c @ c') \<longleftrightarrow> code_at r a c \<and> code_at r (a + 4 * of_nat (length c)) c'"
proof -
  have split: "(\<forall>i<length c + n. P i) \<longleftrightarrow> (\<forall>i<length c. P i) \<and> (\<forall>i<n. P (length c + i))" for P n
    by (auto, metis le_Suc_ex nat_add_left_cancel_less not_less)
  have addr: "a + 4 * of_nat (length c + i) = a + 4 * of_nat (length c) + 4 * of_nat i" for i
    by (simp only: of_nat_add distrib_left add.assoc)
  have "(\<forall>i<length (c @ c'). fetched r (a + 4 * of_nat i) = Some (encode ((c @ c') ! i))) \<longleftrightarrow>
    (\<forall>i<length c. fetched r (a + 4 * of_nat i) = Some (encode (c ! i))) \<and>
    (\<forall>i<length c'. fetched r (a + 4 * of_nat (length c) + 4 * of_nat i) = Some (encode (c' ! i)))"
    unfolding length_append split addr by (simp add: nth_append del: of_nat_add)
  then show ?thesis unfolding code_at_def unat_mod_4 by blast
qed

lemma code_at_Cons:
  "code_at r a (i # c) \<longleftrightarrow> unat a mod 4 = 0 \<and> fetched r a = Some (encode i) \<and> code_at r (a + 4) c"
  using code_at_append [of r a "[i]" c] by (auto simp: code_at_def)

lemma code_at_Nil: "code_at r a [] \<longleftrightarrow> unat a mod 4 = 0"
  by (simp add: code_at_def)

lemma isa_step_fetched:
  assumes "unat (pc s) mod 4 = 0" "fetched (ram s) (pc s) = Some (encode i)"
  shows "isa_step s out \<longleftrightarrow> out = exec i s"
  using assms by (auto simp: fetched_def isa_step_execute)

text \<open>A state at the first instruction executes it.\<close>

lemma retires_code:
  "code_at (ram s) (pc s) (i # c) \<Longrightarrow> exec i s = Retire s' \<Longrightarrow> isa_retires s s'"
  by (simp add: isa_retires_def code_at_Cons isa_step_fetched)

text \<open>Code stays in place when the RAM changes elsewhere.\<close>

lemma fetched_cong:
  assumes "\<And>x. unat a \<le> x \<Longrightarrow> x < unat a + 4 \<Longrightarrow> r x = r' x"
  shows "fetched r a = fetched r' a"
proof -
  have "r (unat a + i) = r' (unat a + i)" if "i < 4" for i using assms that by simp
  then have "ram_bytes r (unat a) 4 = ram_bytes r' (unat a) 4"
    unfolding ram_bytes_def list_all_iff by (auto intro!: map_cong)
  then show ?thesis by (simp add: fetched_def)
qed

lemma code_at_cong:
  assumes "unat a + 4 * length c \<le> 2 ^ 32" "\<And>x. unat a \<le> x \<Longrightarrow> x < unat a + 4 * length c \<Longrightarrow> r x = r' x"
  shows "code_at r a c = code_at r' a c"
proof -
  have "fetched r (a + 4 * of_nat i) = fetched r' (a + 4 * of_nat i)" if i: "i < length c" for i
  proof (rule fetched_cong)
    have u: "unat (4 * of_nat i :: u32) = 4 * i" using i assms(1) by (simp add: unat_word_ariths unat_of_nat)
    have "unat (a + 4 * of_nat i) = unat a + 4 * i"
      using u i assms(1) by (subst unat_add_small) simp_all
    then show "r x = r' x" if "unat (a + 4 * of_nat i) \<le> x" "x < unat (a + 4 * of_nat i) + 4" for x
      using that i assms(2) [of x] by simp
  qed
  then show ?thesis by (simp add: code_at_def)
qed

subsection \<open>Symbols\<close>

text \<open>
  The two parts of a PC-relative distance, as the assembler and the linker fill them in: the low 12
  bits are sign-extended by the instruction, so the high part is rounded.
\<close>

definition pcrel_hi :: "u32 \<Rightarrow> 20 word" where "pcrel_hi d = ucast (drop_bit 12 (d + 0x800))"
definition pcrel_lo :: "u32 \<Rightarrow> 12 word" where "pcrel_lo d = ucast d"

lemma pcrel_sum: "upper_value (pcrel_hi d) + imm_value (pcrel_lo d) = d"
proof -
  have u: "upper_value (pcrel_hi d) = (d + 0x800) AND NOT (mask 12)"
  proof -
    have "upper_value h = push_bit 12 (ucast h)" for h
      by (simp add: upper_value_def push_bit_eq_mult word_unat_eq_iff unat_word_ariths)
    then have "upper_value (pcrel_hi d) = push_bit 12 (ucast (ucast (drop_bit 12 (d + 0x800)) :: 20 word))"
      by (simp add: pcrel_hi_def)
    also have "\<dots> = (d + 0x800) AND NOT (mask 12)"
      by (rule bit_word_eqI) (auto simp: bit_push_bit_iff bit_unsigned_iff bit_drop_bit_eq bit_and_iff bit_not_iff bit_mask_iff)
    finally show ?thesis .
  qed
  have l: "imm_value (pcrel_lo d) = ((d + 0x800) AND mask 12) - 0x800"
  proof -
    have "sint (pcrel_lo d) = signed_take_bit 11 (uint d)"
      by (simp add: pcrel_lo_def sint_uint unsigned_ucast_eq signed_take_bit_take_bit)
    also have "\<dots> = take_bit 12 (uint d + 2048) - 2048"
      by (simp add: signed_take_bit_eq_take_bit_shift)
    finally have "imm_value (pcrel_lo d) = word_of_int (take_bit 12 (uint d + 2048)) - 2048"
      by (simp add: imm_value_def)
    also have "(word_of_int (take_bit 12 (uint d + 2048)) :: u32) = take_bit 12 (d + 2048)"
      by (simp flip: take_bit_of_int)
    finally show ?thesis by (simp add: take_bit_eq_mask)
  qed
  have "(w AND NOT (mask 12)) + (w AND mask 12) = w" for w :: u32
  proof -
    have "(w AND NOT (mask 12)) AND (w AND mask 12) = 0" "(w AND NOT (mask 12)) OR (w AND mask 12) = w"
      by (rule bit_word_eqI, auto simp: bit_and_iff bit_or_iff bit_not_iff)+
    then show ?thesis by (simp add: disjunctive_add_eq_or)
  qed
  from this [of "d + 0x800"] show ?thesis unfolding u l by (simp only: add_diff_eq add_diff_cancel_right')
qed

text \<open>
  The expansions of the pseudo instructions \<^verbatim>\<open>la\<close> and \<^verbatim>\<open>call\<close> at an address.
\<close>

definition load_address_code :: "u32 \<Rightarrow> regno \<Rightarrow> u32 \<Rightarrow> instr list" where
  "load_address_code p r target = [Auipc r (pcrel_hi (target - p)), ImmOp Imm_addi r r (pcrel_lo (target - p))]"

definition call_code :: "u32 \<Rightarrow> u32 \<Rightarrow> instr list" where
  "call_code p target = [Auipc 1 (pcrel_hi (target - p)), Jalr 1 1 (pcrel_lo (target - p))]"

subsection \<open>Execution\<close>

lemma state_simps [simp]:
  "pc (next_pc_state p s) = p" "ram (next_pc_state p s) = ram s" "pc (set_reg r v s) = pc s" "ram (set_reg r v s) = ram s"
  "get_reg (next_pc_state p s) r = get_reg s r" "next_pc_state p (next_pc_state q s) = next_pc_state p s"
  "set_reg r v (next_pc_state p s) = next_pc_state p (set_reg r v s)"
  "get_reg (set_reg r v s) r' = (if r' = r \<and> r \<noteq> 0 then v else get_reg s r')"
  "set_reg r v (set_reg r w s) = set_reg r v s"
  by (auto simp: next_pc_state_def set_reg_def get_reg_def)

lemma two_steps: "isa_retires s t \<Longrightarrow> isa_retires t u \<Longrightarrow> (isa_retires ^^ 2) s u"
  by (auto simp: numeral_2_eq_2)

lemma load_address_runs:
  assumes "code_at (ram s) p (load_address_code p r target)" "pc s = p" "r \<noteq> 0"
  shows "(isa_retires ^^ 2) s (next_pc_state (p + 8) (set_reg r target s))"
proof -
  let ?t = "next_pc_state (p + 4) (set_reg r (p + upper_value (pcrel_hi (target - p))) s)"
  have c: "code_at (ram s) p [Auipc r (pcrel_hi (target - p)), ImmOp Imm_addi r r (pcrel_lo (target - p))]"
    using assms(1) by (simp add: load_address_code_def)
  have "isa_retires s ?t"
    by (rule retires_code [OF c [folded assms(2)]]) (simp add: write_next_def assms(2))
  moreover have "isa_retires ?t (next_pc_state (p + 8) (set_reg r target s))"
  proof (rule retires_code)
    show "code_at (ram ?t) (pc ?t) [ImmOp Imm_addi r r (pcrel_lo (target - p))]" using c by (simp add: code_at_Cons)
    show "exec (ImmOp Imm_addi r r (pcrel_lo (target - p))) ?t = Retire (next_pc_state (p + 8) (set_reg r target s))"
      using assms(3) pcrel_sum [of "target - p"] by (simp add: write_next_def add.assoc)
  qed
  ultimately show ?thesis by (rule two_steps)
qed

lemma clear_low_bit:
  fixes a :: u32
  assumes "unat a mod 4 = 0"
  shows "a AND NOT 1 = a"
proof -
  have "even (unat a)" using assms by presburger
  then have "\<not> bit (unat a) 0" by (simp add: bit_0)
  then have "\<not> bit a 0" by (simp add: bit_unsigned_iff)
  then show ?thesis
    by (intro bit_word_eqI) (auto simp: bit_and_iff bit_not_iff bit_1_iff intro: gr0I)
qed

lemma call_runs:
  assumes "code_at (ram s) p (call_code p target)" "pc s = p" "unat target mod 4 = 0"
  shows "(isa_retires ^^ 2) s (next_pc_state target (set_reg 1 (p + 8) s))"
proof -
  let ?t = "next_pc_state (p + 4) (set_reg 1 (p + upper_value (pcrel_hi (target - p))) s)"
  have c: "code_at (ram s) p [Auipc 1 (pcrel_hi (target - p)), Jalr 1 1 (pcrel_lo (target - p))]"
    using assms(1) by (simp add: call_code_def)
  have "isa_retires s ?t"
    by (rule retires_code [OF c [folded assms(2)]]) (simp add: write_next_def assms(2))
  moreover have "isa_retires ?t (next_pc_state target (set_reg 1 (p + 8) s))"
  proof (rule retires_code)
    show "code_at (ram ?t) (pc ?t) [Jalr 1 1 (pcrel_lo (target - p))]" using c by (simp add: code_at_Cons)
    show "exec (Jalr 1 1 (pcrel_lo (target - p))) ?t = Retire (next_pc_state target (set_reg 1 (p + 8) s))"
      using pcrel_sum [of "target - p"] clear_low_bit [OF assms(3)] assms(3) by (simp add: jump_to_def add.assoc)
  qed
  ultimately show ?thesis by (rule two_steps)
qed

lemma runs_trans: "(R ^^ m) s t \<Longrightarrow> (R ^^ n) t u \<Longrightarrow> (R ^^ (m + n)) s u" for R :: "'s \<Rightarrow> 's \<Rightarrow> bool"
  unfolding relpowp_add by (rule relcomppI)

lemma set_reg_swap: "r \<noteq> q \<Longrightarrow> set_reg r v (set_reg q w s) = set_reg q w (set_reg r v s)"
  by (auto simp: set_reg_def fun_upd_twist)

lemma set_reg_same: "get_reg s r = v \<Longrightarrow> set_reg r v s = s"
  by (auto simp: set_reg_def get_reg_def)

lemma next_pc_same: "pc s = p \<Longrightarrow> next_pc_state p s = s"
  by (auto simp: next_pc_state_def)

subsection \<open>Images\<close>

text \<open>Code that the image of a program holds is in the RAM it starts with.\<close>

lemma fetched_read:
  assumes "memory_wf m" "unat a mod 4 = 0"
  shows "fetched (ram_of m) a = memory_read_u32 (Ref m) a True"
  using fetch_ram [OF assms(1), of "zero_cpu\<lparr>program_counter := a\<rparr>"] assms(2) by (simp add: fetched_def)

lemma image_code_at:
  assumes "memory_size_valid sz" "unat l mod 4 = 0" "unat l + 4 * length code \<le> sz"
  shows "code_at (ram (isa_start (image_program fmt sz l e (concat (map bytes32 (map encode code)))))) l code"
proof -
  let ?p = "image_program fmt sz l e (concat (map bytes32 (map encode code)))"
  have len: "length (concat (map bytes32 ws)) = 4 * length ws" for ws
    by (induction ws) (simp_all add: bytes32_def)
  have wf: "memory_wf (prog_memory ?p)"
    using assms len [of "map encode code"] by (simp add: image_program_def memory_wf_def)
  have "fetched (ram_of (prog_memory ?p)) (l + 4 * of_nat i) = Some (encode (code ! i))" if "i < length code" for i
    using image_program_word [OF assms(1,2), of "map encode code" i fmt e] assms(3) that
      fetched_read [OF wf, of "l + 4 * of_nat i"] assms(2) by (simp add: unat_mod_4)
  then show ?thesis using assms(2) by (simp add: code_at_def isa_start_def)
qed

end
