(* ===== verification/Text.thy ===== *)
theory Text
  imports Prelude "HOL-Library.Char_ord"
begin

section \<open>Text output and numerals\<close>

text \<open>
  The conversions of \<^verbatim>\<open>printf\<close> that the program uses, as functions on strings, and the reading of
  a numeral back. The theory shows that the conversions determine the number, how long their
  results are, and how a line of text splits into tokens.
\<close>

subsection \<open>Numerals\<close>

definition digit_char :: "nat \<Rightarrow> char" where
  "digit_char d = char_of (if d < 10 then 48 + d else 55 + d)"

definition digit_value :: "char \<Rightarrow> nat" where
  "digit_value c = (let n = of_char c in if n < 58 then n - 48 else if n < 97 then n - 55 else n - 87)"

text \<open>The digits of a number in a base of at least two, without leading zeros.\<close>

function digits :: "nat \<Rightarrow> nat \<Rightarrow> string" where
  "digits base n =
     (if base < 2 \<or> n < base then [digit_char n] else digits base (n div base) @ [digit_char (n mod base)])"
  by pat_completeness auto
termination
  by (relation "measure snd") auto

declare digits.simps [simp del]

definition numeral_value :: "nat \<Rightarrow> string \<Rightarrow> nat" where
  "numeral_value base s = foldl (\<lambda>v c. v * base + digit_value c) 0 s"

text \<open>\<^verbatim>\<open>%u\<close>, \<^verbatim>\<open>%X\<close>, zero padding to a width, and \<^verbatim>\<open>%d\<close>.\<close>

definition dec :: "nat \<Rightarrow> string" where
  "dec n = digits 10 n"

definition hex :: "nat \<Rightarrow> string" where
  "hex n = digits 16 n"

definition pad :: "nat \<Rightarrow> string \<Rightarrow> string" where
  "pad width s = replicate (width - length s) CHR ''0'' @ s"

definition signed_dec :: "int \<Rightarrow> string" where
  "signed_dec i = (if i < 0 then CHR ''-'' # dec (nat (- i)) else dec (nat i))"

text \<open>Blanks up to a width, before (\<^verbatim>\<open>%5u\<close>) or after the text (\<^verbatim>\<open>%-5s\<close>), and lines of output.\<close>

definition right_aligned :: "nat \<Rightarrow> string \<Rightarrow> string" where
  "right_aligned width s = replicate (width - length s) CHR '' '' @ s"

definition left_aligned :: "nat \<Rightarrow> string \<Rightarrow> string" where
  "left_aligned width s = s @ replicate (width - length s) CHR '' ''"

definition newline :: char where
  "newline = CHR 0x0A"

definition text_line :: "string \<Rightarrow> string" where
  "text_line s = s @ [newline]"

definition text_block :: "string list \<Rightarrow> string" where
  "text_block ls = concat (map text_line ls)"

text \<open>\<^verbatim>\<open>0x%08X\<close> of a 32-bit word.\<close>

definition word_hex :: "nat \<Rightarrow> string" where
  "word_hex n = ''0x'' @ pad 8 (hex n)"

lemma digit_value_char: "d < 36 \<Longrightarrow> digit_value (digit_char d) = d"
  by (simp add: digit_value_def digit_char_def Let_def)

lemma numeral_value_snoc: "numeral_value base (s @ [c]) = numeral_value base s * base + digit_value c"
  by (simp add: numeral_value_def)

lemma numeral_value_digits: "2 \<le> base \<Longrightarrow> base \<le> 36 \<Longrightarrow> numeral_value base (digits base n) = n"
proof (induction base n rule: digits.induct)
  case (1 base n)
  show ?case
  proof (cases "n < base")
    case True
    with "1.prems" show ?thesis by (simp add: digits.simps [of base n] numeral_value_def digit_value_char)
  next
    case False
    have "n mod base < 36" using "1.prems" by (meson dual_order.strict_trans1 mod_less_divisor order.strict_trans2 zero_less_numeral)
    with 1 False show ?thesis
      by (simp add: digits.simps [of base n] numeral_value_snoc digit_value_char div_mult_mod_eq)
  qed
qed

lemma numeral_value_dec: "numeral_value 10 (dec n) = n"
  using numeral_value_digits [of 10 n] by (simp add: dec_def)

lemma numeral_value_hex: "numeral_value 16 (hex n) = n"
  using numeral_value_digits [of 16 n] by (simp add: hex_def)

lemma numeral_value_pad: "numeral_value base (pad width s) = numeral_value base s"
proof -
  have "foldl (\<lambda>v c. v * base + digit_value c) 0 (replicate k CHR ''0'') = 0" for k
    by (induction k) (simp_all add: digit_value_def)
  then show ?thesis by (simp add: numeral_value_def pad_def)
qed

lemma dec_inject [simp]: "dec m = dec n \<longleftrightarrow> m = n"
  by (metis numeral_value_dec)

lemma hex_inject [simp]: "hex m = hex n \<longleftrightarrow> m = n"
  by (metis numeral_value_hex)

lemma pad_hex_inject [simp]: "pad w (hex m) = pad w (hex n) \<longleftrightarrow> m = n"
  by (metis numeral_value_hex numeral_value_pad)

text \<open>The characters of a numeral lie between \<^verbatim>\<open>0\<close> and \<^verbatim>\<open>F\<close>.\<close>

definition numeral_char :: "char \<Rightarrow> bool" where
  "numeral_char c \<longleftrightarrow> 48 \<le> (of_char c :: nat) \<and> of_char c \<le> (70 :: nat)"

lemma digits_chars: "2 \<le> base \<Longrightarrow> base \<le> 16 \<Longrightarrow> c \<in> set (digits base n) \<Longrightarrow> numeral_char c"
proof (induction base n rule: digits.induct)
  case (1 base n)
  have digit: "numeral_char (digit_char d)" if "d < base" for d
    using that "1.prems"(2) by (simp add: numeral_char_def digit_char_def)
  show ?case
  proof (cases "n < base")
    case True
    with 1 digit show ?thesis by (simp add: digits.simps [of base n])
  next
    case False
    have "n mod base < base" using "1.prems" by simp
    with 1 False digit show ?thesis by (auto simp: digits.simps [of base n])
  qed
qed

lemma dec_chars: "c \<in> set (dec n) \<Longrightarrow> numeral_char c"
  by (rule digits_chars) (simp_all add: dec_def)

lemma hex_chars: "c \<in> set (hex n) \<Longrightarrow> numeral_char c"
  by (rule digits_chars) (simp_all add: hex_def)

lemma digits_ne [simp]: "digits b n \<noteq> []"
  by (subst digits.simps) simp

lemma dec_ne [simp]: "dec n \<noteq> []" "hex n \<noteq> []"
  by (simp_all add: dec_def hex_def)

lemma minus_not_digit: "CHR ''-'' \<notin> set (dec n)"
  using dec_chars [of "CHR ''-''" n] by (auto simp: numeral_char_def)

lemma signed_dec_inject [simp]: "signed_dec i = signed_dec j \<longleftrightarrow> i = j"
proof -
  have "CHR ''-'' # dec m \<noteq> dec n" for m n using minus_not_digit [of n] by (metis list.set_intros(1))
  then show ?thesis by (auto simp: signed_dec_def nat_eq_iff dest: sym)
qed

lemma length_digits: "n < base ^ k \<Longrightarrow> 0 < k \<Longrightarrow> length (digits base n) \<le> k"
proof (induction k arbitrary: n)
  case (Suc k)
  show ?case
  proof (cases "base < 2 \<or> n < base")
    case True
    then show ?thesis by (simp add: digits.simps [of base n])
  next
    case False
    then have "0 < k" using Suc.prems(1) by (cases k) simp_all
    have "n div base < base ^ k" using Suc.prems(1) by (simp add: less_mult_imp_div_less mult.commute)
    with Suc.IH [OF this \<open>0 < k\<close>] False show ?thesis by (simp add: digits.simps [of base n])
  qed
qed simp

subsection \<open>Tokens\<close>

text \<open>
  The maximal runs of characters that are not separators, as \<^verbatim>\<open>strtok\<close> finds them one after
  the other.
\<close>

function tokens :: "(char \<Rightarrow> bool) \<Rightarrow> string \<Rightarrow> string list" where
  "tokens sep s =
     (let t = dropWhile sep s in
      if t = [] then []
      else takeWhile (\<lambda>c. \<not> sep c) t # tokens sep (dropWhile (\<lambda>c. \<not> sep c) t))"
  by pat_completeness auto
termination
proof (relation "measure (length \<circ> snd)")
  fix sep :: "char \<Rightarrow> bool" and s t
  assume t: "t = dropWhile sep s" "t \<noteq> []"
  have "\<not> sep (hd t)" unfolding t(1) by (rule hd_dropWhile) (use t in blast)
  then have "length (dropWhile (\<lambda>c. \<not> sep c) t) < length t"
    using t(2) length_dropWhile_le [of "\<lambda>c. \<not> sep c" "tl t"] by (cases t) auto
  also have "\<dots> \<le> length s" by (simp add: t(1) length_dropWhile_le)
  finally show "((sep, dropWhile (\<lambda>c. \<not> sep c) t), sep, s) \<in> measure (length \<circ> snd)" by simp
qed simp

declare tokens.simps [simp del]

lemma tokens_Nil [simp]: "tokens sep [] = []"
  by (simp add: tokens.simps)

lemma tokens_sep [simp]: "sep c \<Longrightarrow> tokens sep (c # s) = tokens sep s"
  by (simp add: tokens.simps [of sep "c # s"] tokens.simps [of sep s])

lemma tokens_token:
  assumes "t \<noteq> []" "\<And>c. c \<in> set t \<Longrightarrow> \<not> sep c" "s = [] \<or> sep (hd s)"
  shows "tokens sep (t @ s) = t # tokens sep s"
proof -
  have "dropWhile sep (t @ s) = t @ s" using assms(1,2) by (cases t) auto
  moreover have "takeWhile (\<lambda>c. \<not> sep c) (t @ s) = t" "dropWhile (\<lambda>c. \<not> sep c) (t @ s) = s"
    using assms(2,3) by (cases s; auto simp: takeWhile_append dropWhile_append)+
  ultimately show ?thesis using assms(1) unfolding tokens.simps [of sep "t @ s"] Let_def by simp
qed

lemma tokens_parts:
  "t \<in> set (tokens sep s) \<Longrightarrow> t \<noteq> [] \<and> (\<forall>c\<in>set t. \<not> sep c \<and> c \<in> set s)"
proof (induction sep s rule: tokens.induct)
  case (1 sep s)
  define t0 where "t0 = dropWhile sep s"
  define t1 where "t1 = dropWhile (\<lambda>c. \<not> sep c) t0"
  have sub: "set t0 \<subseteq> set s" "set t1 \<subseteq> set t0"
    by (auto simp: t0_def t1_def dest: set_dropWhileD)
  from "1.prems" have ne: "t0 \<noteq> []" and t: "t = takeWhile (\<lambda>c. \<not> sep c) t0 \<or> t \<in> set (tokens sep t1)"
    unfolding tokens.simps [of sep s] Let_def t0_def [symmetric] t1_def [symmetric] by (auto split: if_splits)
  have "\<not> sep (hd t0)" using ne unfolding t0_def by (rule hd_dropWhile)
  then have first: "takeWhile (\<lambda>c. \<not> sep c) t0 \<noteq> []" using ne by (cases t0) auto
  from t show ?case
  proof
    assume "t = takeWhile (\<lambda>c. \<not> sep c) t0"
    with first sub(1) show ?thesis by (auto dest: set_takeWhileD)
  next
    assume "t \<in> set (tokens sep t1)"
    from "1.IH" [OF t0_def ne this [unfolded t1_def]] sub show ?thesis by (auto simp: t1_def)
  qed
qed

end
