(* ===== verification/Numbers.thy ===== *)
theory Numbers
  imports Program Text
begin

section \<open>Numbers on the command line\<close>

text \<open>
  The model of the two functions of \<^verbatim>\<open>src/monitor.c\<close> that read numbers and RAM sizes from options
  and commands. C strings are strings without NUL characters. The theory shows exactly which texts
  are accepted with which value, and that numbers the simulator prints are read back.
\<close>

subsection \<open>Operations\<close>

definition isdigit :: "u8 \<Rightarrow> bool" where
  "isdigit ch \<longleftrightarrow> 48 \<le> ch \<and> ch \<le> 57"

definition digit_of :: "nat \<Rightarrow> char \<Rightarrow> bool" where
  "digit_of base c = (if base = 10 then isdigit (of_char c) else isxdigit (of_char c))"

text \<open>
  \<^verbatim>\<open>strtoull\<close> on a text that starts with a digit of the base and not with \<^verbatim>\<open>0x\<close>, as it is called here:
  the value, the text after the digits, and whether the value was out of the range of 64 bits.
\<close>

definition strtoull :: "string \<Rightarrow> nat \<Rightarrow> nat \<times> string \<times> bool" where
  "strtoull s base =
     (let v = numeral_value base (takeWhile (digit_of base) s); others = dropWhile (digit_of base) s in
      if v \<ge> 2 ^ 64 then (2 ^ 64 - 1, others, True) else (v, others, False))"

text \<open>The checks of all characters, the conversion and its checks.\<close>

definition parse_digits :: "string \<Rightarrow> nat \<Rightarrow> u64 \<Rightarrow> u64 option" where
  "parse_digits t base maximum =
     (if \<exists>c\<in>set t. \<not> digit_of base c then None
      else case strtoull t base of (parsed, end_text, erange) \<Rightarrow>
        if erange \<or> end_text \<noteq> [] \<or> parsed > unat maximum then None
        else Some (of_nat parsed))"

definition hex_prefixed :: "string \<Rightarrow> bool" where
  "hex_prefixed t \<longleftrightarrow>
     hd t = CHR ''0'' \<and> tl t \<noteq> [] \<and> (hd (tl t) = CHR ''x'' \<or> hd (tl t) = CHR ''X'')"

definition number :: "string ptr \<Rightarrow> u64 \<Rightarrow> u64 option" where
  "number s maximum =
     (case s of NULL \<Rightarrow> None
      | Ref t \<Rightarrow>
      if t = [] \<or> hd t = CHR ''+'' \<or> hd t = CHR ''-'' \<or> isspace (of_char (hd t)) then None
      else if hex_prefixed t
      then let t = drop 2 t in
        if t = [] \<or> \<not> isxdigit (of_char (hd t)) then None else parse_digits t 16 maximum
      else parse_digits t 10 maximum)"

text \<open>The amount before the unit, in bytes.\<close>

definition ram_amount :: "string \<Rightarrow> nat \<Rightarrow> nat option" where
  "ram_amount digits_text unit_size =
     (if length digits_text \<ge> 32 then None
      else
      case number (Ref digits_text) (of_nat (MEMORY_MAX_SIZE div unit_size)) of None \<Rightarrow> None
      | Some amount \<Rightarrow>
          let ram_size = unat amount * unit_size in
          if \<not> memory_size_valid ram_size then None else Some ram_size)"

definition parse_ram_size :: "string \<Rightarrow> nat option" where
  "parse_ram_size s =
     (let len = length s in
      if len > 3 \<and> drop (len - 3) s = ''KiB'' then ram_amount (take (len - 3) s) MEMORY_KIB
      else if len > 3 \<and> drop (len - 3) s = ''MiB'' then ram_amount (take (len - 3) s) MEMORY_MIB
      else if len > 1 \<and> s ! (len - 1) = CHR ''B'' then ram_amount (take (len - 1) s) MEMORY_BYTE_SIZE
      else None)"

subsection \<open>Numerals\<close>

text \<open>What a text denotes: decimal digits, or hexadecimal digits after \<^verbatim>\<open>0x\<close> or \<^verbatim>\<open>0X\<close>.\<close>

definition denotes :: "string \<Rightarrow> nat \<Rightarrow> bool" where
  "denotes s v \<longleftrightarrow>
     (s \<noteq> [] \<and> (\<forall>c\<in>set s. digit_of 10 c) \<and> v = numeral_value 10 s)
     \<or> (\<exists>x h. s = CHR ''0'' # x # h \<and> (x = CHR ''x'' \<or> x = CHR ''X'') \<and> h \<noteq> [] \<and> (\<forall>c\<in>set h. digit_of 16 c)
          \<and> v = numeral_value 16 h)"

lemma not_digits:
  "\<not> digit_of 10 (CHR ''+'')" "\<not> digit_of 10 (CHR ''-'')" "\<not> digit_of 10 (CHR ''x'')" "\<not> digit_of 10 (CHR ''X'')"
  "isspace (of_char c) \<Longrightarrow> \<not> digit_of 10 c" "\<not> isspace (of_char CHR ''0'')"
  by (auto simp: digit_of_def isdigit_def isspace_def word_le_nat_alt)

lemma strtoull_digits:
  "\<forall>c\<in>set s. digit_of base c \<Longrightarrow> strtoull s base =
     (if numeral_value base s \<ge> 2 ^ 64 then (2 ^ 64 - 1, [], True) else (numeral_value base s, [], False))"
  by (simp add: strtoull_def Let_def takeWhile_eq_all_conv [THEN iffD2] dropWhile_eq_Nil_conv [THEN iffD2])

lemma digit_16: "isxdigit (of_char c) \<longleftrightarrow> digit_of 16 c"
  by (simp add: digit_of_def)

lemma unat_64:
  assumes "n < 2 ^ 64"
  shows "unat (of_nat n :: u64) = n"
proof -
  have "n < 2 ^ LENGTH(64)" using assms by simp
  then show ?thesis by (simp only: unsigned_of_nat take_bit_nat_eq_self of_nat_id)
qed

lemma parse_digits_Some:
  "parse_digits t base maximum = Some v \<longleftrightarrow>
    (\<forall>c\<in>set t. digit_of base c) \<and> unat v = numeral_value base t \<and> v \<le> maximum"
proof (cases "\<forall>c\<in>set t. digit_of base c")
  case True
  define n where "n = numeral_value base t"
  have len: "LENGTH(64) = 64" by simp
  have bound: "unat maximum < 2 ^ 64" using unsigned_less [of maximum, where ?'a = nat] unfolding len .
  then have l: "parse_digits t base maximum = (if n \<le> unat maximum then Some (of_nat n) else None)"
    using True by (auto simp: parse_digits_def strtoull_digits n_def [symmetric])
  show ?thesis
  proof (cases "n \<le> unat maximum")
    case True
    with bound have "unat (of_nat n :: u64) = n" by (intro unat_64) linarith
    with True l \<open>\<forall>c\<in>set t. digit_of base c\<close> show ?thesis by (auto simp: n_def [symmetric] word_le_nat_alt)
  next
    case False
    with l show ?thesis by (auto simp: n_def [symmetric] word_le_nat_alt)
  qed
qed (simp add: parse_digits_def)

lemma number_denotes: "number (Ref s) maximum = Some v \<longleftrightarrow> denotes s (unat v) \<and> v \<le> maximum"
proof (cases "s \<noteq> [] \<and> hex_prefixed s")
  case True
  then obtain x h where s: "s = CHR ''0'' # x # h" "x = CHR ''x'' \<or> x = CHR ''X''"
    by (cases s; cases "tl s") (auto simp: hex_prefixed_def)
  have "denotes s n \<longleftrightarrow> h \<noteq> [] \<and> (\<forall>c\<in>set h. digit_of 16 c) \<and> n = numeral_value 16 h" for n
    using s not_digits by (auto simp: denotes_def)
  moreover have "number (Ref s) maximum = Some v \<longleftrightarrow>
      h \<noteq> [] \<and> (\<forall>c\<in>set h. digit_of 16 c) \<and> unat v = numeral_value 16 h \<and> v \<le> maximum"
    using s not_digits(6) by (cases h) (auto simp: number_def Let_def digit_16 parse_digits_Some hex_prefixed_def)
  ultimately show ?thesis by blast
next
  case False
  then have "denotes s n \<longleftrightarrow> s \<noteq> [] \<and> (\<forall>c\<in>set s. digit_of 10 c) \<and> n = numeral_value 10 s" for n
    by (auto simp: denotes_def hex_prefixed_def)
  moreover have "number (Ref s) maximum = Some v \<longleftrightarrow>
      s \<noteq> [] \<and> (\<forall>c\<in>set s. digit_of 10 c) \<and> unat v = numeral_value 10 s \<and> v \<le> maximum"
    using False not_digits by (cases s) (auto simp: number_def parse_digits_Some)
  ultimately show ?thesis by blast
qed

text \<open>The units of RAM sizes.\<close>

definition unit_of :: "string \<Rightarrow> nat option" where
  "unit_of suffix = map_of [(''KiB'', MEMORY_KIB), (''MiB'', MEMORY_MIB), (''B'', MEMORY_BYTE_SIZE)] suffix"

lemma denotes_ne [simp]: "\<not> denotes [] v"
  by (simp add: denotes_def)

lemma denotes_last: "denotes s v \<Longrightarrow> digit_of 16 (last s)"
proof -
  assume "denotes s v"
  then consider "s \<noteq> []" "\<forall>c\<in>set s. digit_of 10 c" | x h where "s = CHR ''0'' # x # h" "h \<noteq> []" "\<forall>c\<in>set h. digit_of 16 c"
    by (auto simp: denotes_def)
  then show ?thesis
  proof cases
    case 1
    then have "digit_of 10 (last s)" by simp
    then show ?thesis by (simp add: digit_of_def isdigit_def isxdigit_def)
  qed simp
qed

lemma no_unit_digit: "\<not> denotes (d @ ''Ki'') v" "\<not> denotes (d @ ''Mi'') v"
  using denotes_last [of "d @ ''Ki''" v] denotes_last [of "d @ ''Mi''" v]
  by (auto simp: digit_of_def isxdigit_def word_le_nat_alt)

lemma ram_amount_Some:
  assumes "0 < u"
  shows "ram_amount d u = Some n \<longleftrightarrow> length d < 32 \<and> (\<exists>v. denotes d v \<and> n = v * u \<and> memory_size_valid n)"
    (is "_ \<longleftrightarrow> ?r")
proof
  assume "ram_amount d u = Some n"
  then obtain w where "length d < 32" "number (Ref d) (of_nat (MEMORY_MAX_SIZE div u)) = Some w" "n = unat w * u"
    "memory_size_valid n"
    by (auto simp: ram_amount_def Let_def split: option.splits if_splits)
  then show ?r by (auto simp: number_denotes)
next
  assume ?r
  then obtain v where v: "length d < 32" "denotes d v" "n = v * u" "memory_size_valid n" by blast
  then have "v * u \<le> MEMORY_MAX_SIZE" by (simp add: memory_size_valid_def)
  then have le: "v \<le> MEMORY_MAX_SIZE div u" using assms by (simp add: less_eq_div_iff_mult_less_eq)
  have "MEMORY_MAX_SIZE div u < 2 ^ 32" by (rule le_less_trans [OF div_le_dividend]) (simp add: size_simps)
  then have "unat (of_nat v :: u64) = v" "unat (of_nat (MEMORY_MAX_SIZE div u) :: u64) = MEMORY_MAX_SIZE div u"
    using le by (intro unat_64; simp)+
  then have "number (Ref d) (of_nat (MEMORY_MAX_SIZE div u)) = Some (of_nat v)"
    using v(2) le by (simp only: number_denotes word_le_nat_alt)
  then show "ram_amount d u = Some n"
    using v \<open>unat (of_nat v :: u64) = v\<close> by (simp add: ram_amount_def)
qed

lemma parse_ram_size_parts:
  assumes "d \<noteq> []"
  shows "parse_ram_size (d @ ''KiB'') = ram_amount d MEMORY_KIB"
    "parse_ram_size (d @ ''MiB'') = ram_amount d MEMORY_MIB"
    "\<forall>e. e \<noteq> [] \<longrightarrow> d \<noteq> e @ ''Ki'' \<and> d \<noteq> e @ ''Mi'' \<Longrightarrow> parse_ram_size (d @ ''B'') = ram_amount d MEMORY_BYTE_SIZE"
proof -
  have l: "0 < length d" using assms by simp
  then show "parse_ram_size (d @ ''KiB'') = ram_amount d MEMORY_KIB"
    "parse_ram_size (d @ ''MiB'') = ram_amount d MEMORY_MIB"
    by (simp_all add: parse_ram_size_def)
  assume no: "\<forall>e. e \<noteq> [] \<longrightarrow> d \<noteq> e @ ''Ki'' \<and> d \<noteq> e @ ''Mi''"
  have "drop (length d - 2) d \<noteq> ''Ki'' \<and> drop (length d - 2) d \<noteq> ''Mi''" if "2 < length d"
    using no [THEN spec, of "take (length d - 2) d"] append_take_drop_id [of "length d - 2" d] that
    by (auto simp del: append_take_drop_id)
  then show "parse_ram_size (d @ ''B'') = ram_amount d MEMORY_BYTE_SIZE"
    using l by (auto simp: parse_ram_size_def nth_append)
qed

lemma unit_of_Some: "unit_of u = Some k \<longleftrightarrow>
    u = ''KiB'' \<and> k = MEMORY_KIB \<or> u = ''MiB'' \<and> k = MEMORY_MIB \<or> u = ''B'' \<and> k = MEMORY_BYTE_SIZE"
  by (auto simp: unit_of_def)

lemma parse_ram_size_split:
  assumes "parse_ram_size s \<noteq> None"
  obtains d u k where "s = d @ u" "unit_of u = Some k" "d \<noteq> []"
proof -
  have some: "\<exists>k. unit_of (drop (length s - n) s) = Some k" "n < length s"
    if "n = 3 \<and> 3 < length s \<and> (drop (length s - 3) s = ''KiB'' \<or> drop (length s - 3) s = ''MiB'')
      \<or> n = 1 \<and> 1 < length s \<and> s ! (length s - 1) = CHR ''B''" for n :: nat
    using that by (auto simp: unit_of_Some Cons_nth_drop_Suc [symmetric])
  obtain n :: nat where "n = 3 \<and> 3 < length s \<and> (drop (length s - 3) s = ''KiB'' \<or> drop (length s - 3) s = ''MiB'')
      \<or> n = 1 \<and> 1 < length s \<and> s ! (length s - 1) = CHR ''B''"
    using assms by (auto simp: parse_ram_size_def Let_def split: if_splits)
  then have "\<exists>k. unit_of (drop (length s - n) s) = Some k" "n < length s" by (rule some)+
  then show thesis using that [of "take (length s - n) s" "drop (length s - n) s"] by (cases s) auto
qed

lemma parse_ram_size_denotes:
  "parse_ram_size s = Some n \<longleftrightarrow>
    (\<exists>d u k v. s = d @ u \<and> unit_of u = Some k \<and> length d < 32 \<and> denotes d v \<and> n = v * k \<and> memory_size_valid n)"
    (is "_ \<longleftrightarrow> ?r")
proof -
  have units: "0 < MEMORY_KIB" "0 < MEMORY_MIB" "0 < MEMORY_BYTE_SIZE" by (simp_all add: size_simps)
  have eq: "parse_ram_size (d @ u) = ram_amount d k" if "unit_of u = Some k" "denotes d v" for d u k v
  proof -
    have "d \<noteq> []" "\<forall>e. e \<noteq> [] \<longrightarrow> d \<noteq> e @ ''Ki'' \<and> d \<noteq> e @ ''Mi''" using that(2) no_unit_digit by auto
    then show ?thesis using that(1) parse_ram_size_parts by (auto simp: unit_of_Some)
  qed
  have pos: "0 < k" if "unit_of u = Some k" for u k using that units by (auto simp: unit_of_Some)
  show ?thesis
  proof
    assume some: "parse_ram_size s = Some n"
    then obtain d u k where s: "s = d @ u" "unit_of u = Some k" "d \<noteq> []" using parse_ram_size_split [of s] by blast
    show ?r
    proof (cases "u = ''B'' \<and> (\<exists>e. e \<noteq> [] \<and> (d = e @ ''Ki'' \<or> d = e @ ''Mi''))")
      case True
      then obtain e where e: "e \<noteq> []" "d = e @ ''Ki'' \<and> k = MEMORY_BYTE_SIZE \<or> d = e @ ''Mi'' \<and> k = MEMORY_BYTE_SIZE"
        using s(2) by (auto simp: unit_of_Some)
      then have "ram_amount e MEMORY_KIB = Some n \<and> s = e @ ''KiB'' \<or> ram_amount e MEMORY_MIB = Some n \<and> s = e @ ''MiB''"
        using some s(1) True parse_ram_size_parts(1,2) [OF e(1)] by auto
      then show ?thesis using units by (auto simp: ram_amount_Some unit_of_Some)
    next
      case False
      then have "parse_ram_size (d @ u) = ram_amount d k"
        using s(2,3) parse_ram_size_parts [OF s(3)] by (auto simp: unit_of_Some)
      with some s pos show ?thesis by (metis ram_amount_Some)
    qed
  next
    assume ?r
    then show "parse_ram_size s = Some n" using eq pos by (metis ram_amount_Some)
  qed
qed

subsection \<open>Printed numbers\<close>

lemma digit_chars:
  "d < 10 \<Longrightarrow> digit_of 10 (digit_char d)" "d < 16 \<Longrightarrow> digit_of 16 (digit_char d)"
proof -
  have "list_all (\<lambda>d. digit_of 10 (digit_char d)) [0..<10]" "list_all (\<lambda>d. digit_of 16 (digit_char d)) [0..<16]"
    by code_simp+
  then show "d < 10 \<Longrightarrow> digit_of 10 (digit_char d)" "d < 16 \<Longrightarrow> digit_of 16 (digit_char d)"
    by (simp_all add: list_all_iff)
qed

lemma digits_digit_of: "c \<in> set (digits base n) \<Longrightarrow> base = 10 \<or> base = 16 \<Longrightarrow> digit_of base c"
proof (induction base n rule: digits.induct)
  case (1 base n)
  show ?case
  proof (cases "n < base")
    case True
    with 1 digit_chars show ?thesis by (auto simp: digits.simps [of base n])
  next
    case False
    have "n mod base < base" using "1.prems"(2) by auto
    with 1 False digit_chars show ?thesis by (auto simp: digits.simps [of base n])
  qed
qed

lemma denotes_dec: "denotes (dec n) n"
  by (auto simp: denotes_def numeral_value_dec dest: digits_digit_of [of _ 10 n, folded dec_def])

lemma denotes_hex: "denotes (''0x'' @ pad w (hex n)) n"
proof -
  have zero: "digit_of 16 CHR ''0''" by code_simp
  have "digit_of 16 c" if "c \<in> set (pad w (hex n))" for c
  proof -
    have "c = CHR ''0'' \<or> c \<in> set (digits 16 n)" using that by (auto simp: pad_def hex_def)
    then show ?thesis using zero digits_digit_of [of c 16 n] by blast
  qed
  moreover have "pad w (hex n) \<noteq> []" by (simp add: pad_def)
  ultimately show ?thesis by (simp add: denotes_def numeral_value_pad numeral_value_hex)
qed

subsection \<open>Properties\<close>

text \<open>
  C38. A text is accepted as a number exactly when it is a decimal numeral, or a hexadecimal one after
  \<^verbatim>\<open>0x\<close> or \<^verbatim>\<open>0X\<close>, whose value is at most the given maximum; the result is that value. So signs,
  blanks, empty texts, other characters anywhere and values beyond 64 bits are refused. The decimal
  and the padded hexadecimal form in which the simulator prints a number are read back as that number.
\<close>

theorem number_exact:
  "(number (Ref s) maximum = Some v \<longleftrightarrow> denotes s (unat v) \<and> v \<le> maximum)
   \<and> number (Ref (dec (unat v))) (- 1) = Some v \<and> number (Ref (''0x'' @ pad w (hex (unat v)))) (- 1) = Some v"
  using number_denotes denotes_dec denotes_hex by (simp add: number_denotes del: append_Cons append_Nil)

text \<open>
  C39. A text is accepted as a RAM size exactly when it is a number of at most 31 characters and one
  of the units \<^verbatim>\<open>B\<close>, \<^verbatim>\<open>KiB\<close> and \<^verbatim>\<open>MiB\<close>, and the product is a RAM size the memory accepts: a multiple
  of 4 from 4 bytes to 256 MiB; the result is that size.
\<close>

theorem ram_size_exact:
  "parse_ram_size s = Some n \<longleftrightarrow>
    (\<exists>d u k v. s = d @ u \<and> unit_of u = Some k \<and> length d < 32 \<and> denotes d v \<and> n = v * k \<and> memory_size_valid n)"
  by (rule parse_ram_size_denotes)

end
