(* ===== verification/Disassembly.thy ===== *)
theory Disassembly
  imports Decode Text
begin

section \<open>Disassembly\<close>

text \<open>
  The model of \<^verbatim>\<open>src/disassembly.c\<close>: the table of mnemonics, syntax and descriptions, the names of
  the formats, and the text of an instruction word. The theory shows that the text is the assembly
  of the instruction that the word encodes, that it fits the buffers of the callers, and that it
  determines the instruction.
\<close>

subsection \<open>The table\<close>

record InstructionInfo =
  info_name :: string
  info_syntax :: string
  info_description :: string

definition instructions :: "InstructionInfo list" where
  "instructions =
    [
     \<lparr>info_name = ''unknown'', info_syntax = ''.word value'',
      info_description = ''Unsupported or illegal in this RV32I environment.''\<rparr>,
     \<lparr>info_name = ''add'', info_syntax = ''add rd, rs1, rs2'',
      info_description = ''Add two registers; retain the low 32 bits.''\<rparr>,
     \<lparr>info_name = ''sub'', info_syntax = ''sub rd, rs1, rs2'',
      info_description = ''Subtract rs2 from rs1; retain the low 32 bits.''\<rparr>,
     \<lparr>info_name = ''sll'', info_syntax = ''sll rd, rs1, rs2'',
      info_description = ''Shift left by the low five bits of rs2.''\<rparr>,
     \<lparr>info_name = ''slt'', info_syntax = ''slt rd, rs1, rs2'',
      info_description = ''Write 1 when rs1 is less than rs2 as signed values.''\<rparr>,
     \<lparr>info_name = ''sltu'', info_syntax = ''sltu rd, rs1, rs2'',
      info_description = ''Write 1 when rs1 is less than rs2 as unsigned values.''\<rparr>,
     \<lparr>info_name = ''xor'', info_syntax = ''xor rd, rs1, rs2'',
      info_description = ''Bitwise exclusive OR.''\<rparr>,
     \<lparr>info_name = ''srl'', info_syntax = ''srl rd, rs1, rs2'',
      info_description = ''Logical right shift; fill high bits with zero.''\<rparr>,
     \<lparr>info_name = ''sra'', info_syntax = ''sra rd, rs1, rs2'',
      info_description = ''Arithmetic right shift; preserve the sign bit.''\<rparr>,
     \<lparr>info_name = ''or'', info_syntax = ''or rd, rs1, rs2'',
      info_description = ''Bitwise inclusive OR.''\<rparr>,
     \<lparr>info_name = ''and'', info_syntax = ''and rd, rs1, rs2'',
      info_description = ''Bitwise AND.''\<rparr>,
     \<lparr>info_name = ''addi'', info_syntax = ''addi rd, rs1, imm'',
      info_description = ''Add a sign-extended 12-bit constant.''\<rparr>,
     \<lparr>info_name = ''slti'', info_syntax = ''slti rd, rs1, imm'',
      info_description = ''Signed comparison with a sign-extended constant.''\<rparr>,
     \<lparr>info_name = ''sltiu'', info_syntax = ''sltiu rd, rs1, imm'',
      info_description = ''Unsigned comparison after sign-extending the constant.''\<rparr>,
     \<lparr>info_name = ''xori'', info_syntax = ''xori rd, rs1, imm'',
      info_description = ''XOR with a sign-extended 12-bit constant.''\<rparr>,
     \<lparr>info_name = ''ori'', info_syntax = ''ori rd, rs1, imm'',
      info_description = ''OR with a sign-extended 12-bit constant.''\<rparr>,
     \<lparr>info_name = ''andi'', info_syntax = ''andi rd, rs1, imm'',
      info_description = ''AND with a sign-extended 12-bit constant.''\<rparr>,
     \<lparr>info_name = ''slli'', info_syntax = ''slli rd, rs1, shamt'',
      info_description = ''Logical left shift by 0 through 31.''\<rparr>,
     \<lparr>info_name = ''srli'', info_syntax = ''srli rd, rs1, shamt'',
      info_description = ''Logical right shift by 0 through 31.''\<rparr>,
     \<lparr>info_name = ''srai'', info_syntax = ''srai rd, rs1, shamt'',
      info_description = ''Arithmetic right shift by 0 through 31.''\<rparr>,
     \<lparr>info_name = ''lui'', info_syntax = ''lui rd, imm20'',
      info_description = ''Place 20 immediate bits in bits 31 through 12.''\<rparr>,
     \<lparr>info_name = ''auipc'', info_syntax = ''auipc rd, imm20'',
      info_description = ''Add an upper immediate to this instruction's PC.''\<rparr>,
     \<lparr>info_name = ''jal'', info_syntax = ''jal rd, offset'',
      info_description = ''Write PC+4 to rd and jump to PC plus signed offset.''\<rparr>,
     \<lparr>info_name = ''jalr'', info_syntax = ''jalr rd, offset(rs1)'',
      info_description = ''Write PC+4 to rd; jump to rs1+offset with bit 0 cleared.''\<rparr>,
     \<lparr>info_name = ''beq'', info_syntax = ''beq rs1, rs2, offset'',
      info_description = ''Branch when the register values are equal.''\<rparr>,
     \<lparr>info_name = ''bne'', info_syntax = ''bne rs1, rs2, offset'',
      info_description = ''Branch when the register values differ.''\<rparr>,
     \<lparr>info_name = ''blt'', info_syntax = ''blt rs1, rs2, offset'',
      info_description = ''Branch on signed less-than.''\<rparr>,
     \<lparr>info_name = ''bge'', info_syntax = ''bge rs1, rs2, offset'',
      info_description = ''Branch on signed greater-than or equal.''\<rparr>,
     \<lparr>info_name = ''bltu'', info_syntax = ''bltu rs1, rs2, offset'',
      info_description = ''Branch on unsigned less-than.''\<rparr>,
     \<lparr>info_name = ''bgeu'', info_syntax = ''bgeu rs1, rs2, offset'',
      info_description = ''Branch on unsigned greater-than or equal.''\<rparr>,
     \<lparr>info_name = ''lb'', info_syntax = ''lb rd, offset(rs1)'',
      info_description = ''Read a byte and sign-extend it to 32 bits.''\<rparr>,
     \<lparr>info_name = ''lh'', info_syntax = ''lh rd, offset(rs1)'',
      info_description = ''Read an aligned halfword and sign-extend it.''\<rparr>,
     \<lparr>info_name = ''lw'', info_syntax = ''lw rd, offset(rs1)'',
      info_description = ''Read an aligned 32-bit little-endian word.''\<rparr>,
     \<lparr>info_name = ''lbu'', info_syntax = ''lbu rd, offset(rs1)'',
      info_description = ''Read a byte and zero-extend it.''\<rparr>,
     \<lparr>info_name = ''lhu'', info_syntax = ''lhu rd, offset(rs1)'',
      info_description = ''Read an aligned halfword and zero-extend it.''\<rparr>,
     \<lparr>info_name = ''sb'', info_syntax = ''sb rs2, offset(rs1)'',
      info_description = ''Store the low byte of rs2.''\<rparr>,
     \<lparr>info_name = ''sh'', info_syntax = ''sh rs2, offset(rs1)'',
      info_description = ''Store the low halfword of rs2 at an aligned address.''\<rparr>,
     \<lparr>info_name = ''sw'', info_syntax = ''sw rs2, offset(rs1)'',
      info_description = ''Store rs2 as an aligned little-endian word.''\<rparr>,
     \<lparr>info_name = ''fence'', info_syntax = ''fence'',
      info_description = ''Order memory accesses; this sequential machine already orders them.''\<rparr>,
     \<lparr>info_name = ''ecall'', info_syntax = ''ecall'',
      info_description = ''Request an environment service; the core reports a precise trap.''\<rparr>,
     \<lparr>info_name = ''ebreak'', info_syntax = ''ebreak'',
      info_description = ''Report a precise breakpoint trap without retiring the instruction.''\<rparr>
    ]"

text \<open>The enumerators are given by their values; a value outside the table counts as unknown.\<close>

definition instruction_info :: "nat \<Rightarrow> InstructionInfo" where
  "instruction_info k = (let k = (if k \<ge> INSTRUCTION_COUNT then 0 else k) in instructions ! k)"

definition format_names :: "string list" where
  "format_names = [''unknown'', ''R'', ''I'', ''S'', ''B'', ''U'', ''J'']"

definition instruction_format_name :: "nat \<Rightarrow> string" where
  "instruction_format_name f = (if f < length format_names then format_names ! f else format_names ! 0)"

subsection \<open>The text of a word\<close>

definition reg_text :: "u8 \<Rightarrow> string" where
  "reg_text r = CHR ''x'' # dec (unat r)"

definition disassembly_text :: "u32 \<Rightarrow> string" where
  "disassembly_text word =
    (let d = instruction_decode word; f = instr_fields d;
         name = info_name (instruction_info (kind_index (kind d)))
     in
     if kind d = INSTRUCTION_UNKNOWN then ''.word 0x'' @ pad 8 (hex (unat word))
     else if kind d = INSTRUCTION_FENCE then
       ''fence pred=0x'' @ hex (unat (drop_bit 24 word AND 15)) @ '', succ=0x'' @ hex (unat (drop_bit 20 word AND 15))
         @ '', fm=0x'' @ hex (unat (drop_bit 28 word))
     else if kind d = INSTRUCTION_ECALL \<or> kind d = INSTRUCTION_EBREAK then name
     else if format d = INSTRUCTION_FORMAT_R then
       name @ '' '' @ reg_text (rd f) @ '', '' @ reg_text (rs1 f) @ '', '' @ reg_text (rs2 f)
     else if format d = INSTRUCTION_FORMAT_U then
       name @ '' '' @ reg_text (rd f) @ '', 0x'' @ pad 5 (hex (unat (drop_bit 12 (immediate d))))
     else if format d = INSTRUCTION_FORMAT_J then
       name @ '' '' @ reg_text (rd f) @ '', '' @ signed_dec (instruction_signed_value (immediate d))
     else if format d = INSTRUCTION_FORMAT_B then
       name @ '' '' @ reg_text (rs1 f) @ '', '' @ reg_text (rs2 f) @ '', ''
         @ signed_dec (instruction_signed_value (immediate d))
     else if format d = INSTRUCTION_FORMAT_S then
       name @ '' '' @ reg_text (rs2 f) @ '', '' @ signed_dec (instruction_signed_value (immediate d))
         @ ''('' @ reg_text (rs1 f) @ '')''
     else if kind d = INSTRUCTION_JALR \<or> (kind d \<ge> INSTRUCTION_LB \<and> kind d \<le> INSTRUCTION_LHU) then
       name @ '' '' @ reg_text (rd f) @ '', '' @ signed_dec (instruction_signed_value (immediate d))
         @ ''('' @ reg_text (rs1 f) @ '')''
     else
       name @ '' '' @ reg_text (rd f) @ '', '' @ reg_text (rs1 f) @ '', ''
         @ signed_dec (instruction_signed_value (immediate d)))"

text \<open>
  \<^verbatim>\<open>snprintf\<close> writes what fits before the terminator and returns the full length; the result is
  whether all of the text fitted, and the text written (\<open>None\<close> when nothing is written). \<open>present\<close>:
  whether there is a buffer.
\<close>

definition instruction_disassemble :: "u32 \<Rightarrow> bool \<Rightarrow> nat \<Rightarrow> bool \<times> string option" where
  "instruction_disassemble word present capacity =
     (if \<not> present \<or> capacity = 0 then (False, None)
      else let text = disassembly_text word in
        (length text < capacity, Some (take (capacity - 1) text)))"

subsection \<open>Assembly\<close>

text \<open>
  The assembly text of an instruction of the specification: the mnemonics of the RISC-V manual, the
  registers by number and the constants as signed numbers. Nothing of it is looked up in the tables
  of the code.
\<close>

primrec alu_name :: "alu_op \<Rightarrow> string" where
  "alu_name Alu_add = ''add''" | "alu_name Alu_sub = ''sub''" | "alu_name Alu_sll = ''sll''"
| "alu_name Alu_slt = ''slt''" | "alu_name Alu_sltu = ''sltu''" | "alu_name Alu_xor = ''xor''"
| "alu_name Alu_srl = ''srl''" | "alu_name Alu_sra = ''sra''" | "alu_name Alu_or = ''or''" | "alu_name Alu_and = ''and''"

primrec imm_name :: "imm_op \<Rightarrow> string" where
  "imm_name Imm_addi = ''addi''" | "imm_name Imm_slti = ''slti''" | "imm_name Imm_sltiu = ''sltiu''"
| "imm_name Imm_xori = ''xori''" | "imm_name Imm_ori = ''ori''" | "imm_name Imm_andi = ''andi''"

primrec shift_name :: "shift_op \<Rightarrow> string" where
  "shift_name Sh_slli = ''slli''" | "shift_name Sh_srli = ''srli''" | "shift_name Sh_srai = ''srai''"

primrec branch_name :: "branch_op \<Rightarrow> string" where
  "branch_name Br_eq = ''beq''" | "branch_name Br_ne = ''bne''" | "branch_name Br_lt = ''blt''"
| "branch_name Br_ge = ''bge''" | "branch_name Br_ltu = ''bltu''" | "branch_name Br_geu = ''bgeu''"

primrec load_name :: "load_op \<Rightarrow> string" where
  "load_name Ld_b = ''lb''" | "load_name Ld_h = ''lh''" | "load_name Ld_w = ''lw''"
| "load_name Ld_bu = ''lbu''" | "load_name Ld_hu = ''lhu''"

primrec store_name :: "store_op \<Rightarrow> string" where
  "store_name St_b = ''sb''" | "store_name St_h = ''sh''" | "store_name St_w = ''sw''"

primrec mnemonic :: "instr \<Rightarrow> string" where
  "mnemonic (RegOp op _ _ _) = alu_name op"
| "mnemonic (ImmOp op _ _ _) = imm_name op"
| "mnemonic (ShiftOp op _ _ _) = shift_name op"
| "mnemonic (Lui _ _) = ''lui''"
| "mnemonic (Auipc _ _) = ''auipc''"
| "mnemonic (Jal _ _) = ''jal''"
| "mnemonic (Jalr _ _ _) = ''jalr''"
| "mnemonic (Branch op _ _ _) = branch_name op"
| "mnemonic (Load op _ _ _) = load_name op"
| "mnemonic (Store op _ _ _) = store_name op"
| "mnemonic (Fence _ _ _) = ''fence''"
| "mnemonic Ecall = ''ecall''"
| "mnemonic Ebreak = ''ebreak''"

definition reg_name :: "regno \<Rightarrow> string" where
  "reg_name r = CHR ''x'' # dec (unat r)"

fun asm :: "instr \<Rightarrow> string" where
  "asm (RegOp op r a b) = mnemonic (RegOp op r a b) @ '' '' @ reg_name r @ '', '' @ reg_name a @ '', '' @ reg_name b"
| "asm (ImmOp op r a imm) =
     mnemonic (ImmOp op r a imm) @ '' '' @ reg_name r @ '', '' @ reg_name a @ '', '' @ signed_dec (sint imm)"
| "asm (ShiftOp op r a sh) =
     mnemonic (ShiftOp op r a sh) @ '' '' @ reg_name r @ '', '' @ reg_name a @ '', '' @ signed_dec (uint sh)"
| "asm (Lui r imm) = mnemonic (Lui r imm) @ '' '' @ reg_name r @ '', 0x'' @ pad 5 (hex (unat imm))"
| "asm (Auipc r imm) = mnemonic (Auipc r imm) @ '' '' @ reg_name r @ '', 0x'' @ pad 5 (hex (unat imm))"
| "asm (Jal r h) = mnemonic (Jal r h) @ '' '' @ reg_name r @ '', '' @ signed_dec (2 * sint h)"
| "asm (Jalr r a imm) =
     mnemonic (Jalr r a imm) @ '' '' @ reg_name r @ '', '' @ signed_dec (sint imm) @ ''('' @ reg_name a @ '')''"
| "asm (Branch op a b h) =
     mnemonic (Branch op a b h) @ '' '' @ reg_name a @ '', '' @ reg_name b @ '', '' @ signed_dec (2 * sint h)"
| "asm (Load op r a imm) =
     mnemonic (Load op r a imm) @ '' '' @ reg_name r @ '', '' @ signed_dec (sint imm) @ ''('' @ reg_name a @ '')''"
| "asm (Store op a b imm) =
     mnemonic (Store op a b imm) @ '' '' @ reg_name b @ '', '' @ signed_dec (sint imm) @ ''('' @ reg_name a @ '')''"
| "asm (Fence r a imm) = ''fence pred=0x'' @ hex (unat (drop_bit 4 imm AND 15)) @ '', succ=0x''
     @ hex (unat (imm AND 15)) @ '', fm=0x'' @ hex (unat (drop_bit 8 imm))"
| "asm Ecall = mnemonic Ecall"
| "asm Ebreak = mnemonic Ebreak"

declare mnemonic.simps [simp del]

text \<open>The table of the code has these names at the places of the kinds.\<close>

lemma table_mnemonic: "info_name (instruction_info (kind_index (kind_of i))) = mnemonic i"
proof -
  have known: "instruction_info k = instructions ! k" if "k < 41" for k
    using that by (simp add: instruction_info_def INSTRUCTION_COUNT_def)
  show ?thesis
    by (cases i rule: kind_of.cases) (simp_all add: known mnemonic.simps instructions_def)
qed

lemma unat_ucast_up:
  fixes x :: "'a::len word"
  assumes "LENGTH('a) \<le> LENGTH('b::len)"
  shows "unat (ucast x :: 'b word) = unat x"
proof -
  have "unat x < 2 ^ LENGTH('a)" by (rule unsigned_less)
  also have "\<dots> \<le> 2 ^ LENGTH('b)" using assms by simp
  finally show ?thesis by (simp add: unsigned_ucast_eq take_bit_nat_eq_self)
qed

lemma signed_offsets:
  "instruction_signed_value (imm_value imm) = sint imm"
  "instruction_signed_value (branch_offset h) = 2 * sint h"
  "instruction_signed_value (jump_offset j) = 2 * sint j"
  "instruction_signed_value (ucast (sh :: 5 word)) = uint sh"
  "unat (drop_bit 12 (upper_value u)) = unat u"
proof -
  have "- 2048 \<le> sint imm" "sint imm < 2048" "- 2048 \<le> sint h" "sint h < 2048"
      "- 524288 \<le> sint j" "sint j < 524288"
    using sint_ge [of imm] sint_lt [of imm] sint_ge [of h] sint_lt [of h] sint_ge [of j] sint_lt [of j] by simp_all
  then show "instruction_signed_value (imm_value imm) = sint imm"
    "instruction_signed_value (branch_offset h) = 2 * sint h"
    "instruction_signed_value (jump_offset j) = 2 * sint j"
    unfolding instruction_signed_value_sint imm_value_def branch_offset_def jump_offset_def
    by (intro sint_word_of_int_small; simp)+
  show "instruction_signed_value (ucast (sh :: 5 word)) = uint sh"
  proof -
    have "unat (ucast sh :: u32) = unat sh" by (rule unat_ucast_up) simp
    then have "int (unat (ucast sh :: u32)) = int (unat sh)" by (rule arg_cong)
    then have "uint (ucast sh :: u32) = uint sh" by (simp only: uint_nat)
    moreover have "uint sh < 32" using unsigned_less [of sh, where ?'a = int] by simp
    ultimately show ?thesis by (simp add: instruction_signed_value_def word_le_def)
  qed
  have "drop_bit 12 (upper_value u) = ucast u"
    unfolding upper_value_push by (rule bit_word_eqI) (auto simp: bit_simps dest: bit_imp_le_length)
  moreover have "unat (ucast u :: u32) = unat u" by (rule unat_ucast_up) simp
  ultimately show "unat (drop_bit 12 (upper_value u)) = unat u" by simp
qed


lemma drop_bit_constant: "drop_bit n (ucast (x :: 12 word) :: u32) = ucast (drop_bit n x)"
  by (rule bit_word_eqI) (auto simp: bit_simps dest: bit_imp_le_length)

lemma low_constant: "ucast (x :: 12 word) AND 15 = (ucast (x AND 15) :: u32)"
proof -
  have "(15 :: u32) = mask 4" "(15 :: 12 word) = mask 4" by (simp_all add: mask_eq_exp_minus_1)
  then show ?thesis by (simp only:) (rule bit_word_eqI, auto simp: bit_simps dest: bit_imp_le_length)
qed

lemma fence_fields:
  "unat (drop_bit 24 (pack_i imm a f3 r oc) AND 15) = unat (drop_bit 4 imm AND 15)"
  "unat (drop_bit 20 (pack_i imm a f3 r oc) AND 15) = unat (imm AND 15)"
  "unat (drop_bit 28 (pack_i imm a f3 r oc)) = unat (drop_bit 8 imm)"
proof -
  have same: "unat (ucast x :: u32) = unat x" for x :: "12 word" by (rule unat_ucast_up) simp
  have shift: "drop_bit (n + 20) (pack_i imm a f3 r oc) = ucast (drop_bit n imm)" for n
    by (simp only: drop_bit_drop_bit [symmetric] pack_i_immediate drop_bit_constant)
  show "unat (drop_bit 24 (pack_i imm a f3 r oc) AND 15) = unat (drop_bit 4 imm AND 15)"
  proof -
    have "drop_bit 24 (pack_i imm a f3 r oc) = ucast (drop_bit 4 imm)" using shift [of 4] by simp
    then show ?thesis by (simp only: low_constant same)
  qed
  show "unat (drop_bit 20 (pack_i imm a f3 r oc) AND 15) = unat (imm AND 15)"
    by (simp only: pack_i_immediate low_constant same)
  show "unat (drop_bit 28 (pack_i imm a f3 r oc)) = unat (drop_bit 8 imm)"
    using shift [of 8] by (simp add: same del: unsigned_ucast_eq)
qed

lemma reg_text_regno: "reg_text (ucast (r :: regno)) = reg_name r"
proof -
  have "unat (ucast r :: u8) = unat r" by (rule unat_ucast_up) simp
  then show ?thesis by (simp add: reg_text_def reg_name_def)
qed

lemma kind_tests:
  "kind_of i = INSTRUCTION_FENCE \<longleftrightarrow> (\<exists>r a imm. i = Fence r a imm)"
  "(kind_of i = INSTRUCTION_ECALL \<or> kind_of i = INSTRUCTION_EBREAK) \<longleftrightarrow> i = Ecall \<or> i = Ebreak"
  "(kind_of i = INSTRUCTION_JALR \<or> INSTRUCTION_LB \<le> kind_of i \<and> kind_of i \<le> INSTRUCTION_LHU)
     \<longleftrightarrow> (\<exists>r a imm. i = Jalr r a imm) \<or> (\<exists>op r a imm. i = Load op r a imm)"
  by (cases i rule: kind_of.cases; simp add: less_eq_InstructionKind_def)+

lemma disassembly_of_encode: "disassembly_text (encode i) = asm i"
proof -
  define d where "d = instruction_decode (encode i)"
  have as: "decodes_as d i" unfolding d_def by (rule decode_encode)
  then have d: "kind d = kind_of i" "format d = format_of i" "immediate d = immediate_of i"
    by (simp_all add: decodes_as_def)
  show ?thesis
    unfolding disassembly_text_def d_def [symmetric] Let_def d table_mnemonic
      if_not_P [OF kind_of_known] kind_tests
    using as
    by (cases i) (simp_all add: decodes_as_def reg_text_regno signed_offsets fence_fields)
qed

subsection \<open>Reading the text back\<close>

text \<open>The instruction with its operands blanked.\<close>

fun skeleton :: "instr \<Rightarrow> instr" where
  "skeleton (RegOp op _ _ _) = RegOp op 0 0 0" | "skeleton (ImmOp op _ _ _) = ImmOp op 0 0 0"
| "skeleton (ShiftOp op _ _ _) = ShiftOp op 0 0 0" | "skeleton (Lui _ _) = Lui 0 0"
| "skeleton (Auipc _ _) = Auipc 0 0" | "skeleton (Jal _ _) = Jal 0 0" | "skeleton (Jalr _ _ _) = Jalr 0 0 0"
| "skeleton (Branch op _ _ _) = Branch op 0 0 0" | "skeleton (Load op _ _ _) = Load op 0 0 0"
| "skeleton (Store op _ _ _) = Store op 0 0 0" | "skeleton (Fence _ _ _) = Fence 0 0 0"
| "skeleton Ecall = Ecall" | "skeleton Ebreak = Ebreak"

lemma kind_of_skeleton: "kind_of i = kind_of j \<Longrightarrow> skeleton i = skeleton j"
  by (cases i rule: kind_of.cases; cases j rule: kind_of.cases; simp)

definition separator :: "char \<Rightarrow> bool" where
  "separator c \<longleftrightarrow> c \<in> set '' ,()''"

definition token :: "string \<Rightarrow> bool" where
  "token t \<longleftrightarrow> t \<noteq> [] \<and> (\<forall>c\<in>set t. \<not> separator c)"

lemma separators [simp]: "separator CHR '' ''" "separator CHR '',''" "separator CHR ''(''" "separator CHR '')''"
  by (simp_all add: separator_def)

lemma tokens_last: "token t \<Longrightarrow> tokens separator t = [t]"
  using tokens_token [of t separator "[]"] by (simp add: token_def)

lemma tokens_next: "token t \<Longrightarrow> separator c \<Longrightarrow> tokens separator (t @ c # s) = t # tokens separator s"
  using tokens_token [of t separator "c # s"] by (simp add: token_def)

lemma numeral_char_token: "numeral_char c \<Longrightarrow> \<not> separator c"
  by (auto simp: numeral_char_def separator_def)

lemma number_tokens [simp]: "token (dec n)" "token (hex n)" "token (pad k (hex n))" "token (signed_dec v)"
  "token (reg_name r)" "token (CHR ''0'' # CHR ''x'' # pad k (hex n))"
  using dec_chars hex_chars numeral_char_token
  by (fastforce simp: token_def signed_dec_def reg_name_def pad_def separator_def)+

lemma table_names:
  "distinct (map info_name instructions)" "list_all (\<lambda>i. token (info_name i) \<and> length (info_name i) \<le> 7) instructions"
  "list_all (\<lambda>i. info_name i \<noteq> ''.word'') instructions" "length instructions = 41"
  by code_simp+

lemma mnemonic_facts [simp]: "token (mnemonic i)" "mnemonic i \<noteq> ''.word''"
  and mnemonic_length: "length (mnemonic i) \<le> 7"
  using table_names kind_index_bound [of "kind_of i"]
  by (simp_all add: table_mnemonic [symmetric] instruction_info_def list_all_length INSTRUCTION_COUNT_def)

lemma mnemonic_skeleton: "mnemonic i = mnemonic j \<Longrightarrow> skeleton i = skeleton j"
proof (rule kind_of_skeleton)
  assume "mnemonic i = mnemonic j"
  with table_names(1,4) kind_index_bound [of "kind_of i"] kind_index_bound [of "kind_of j"]
  have "kind_index (kind_of i) = kind_index (kind_of j)"
    by (simp add: table_mnemonic [symmetric] instruction_info_def INSTRUCTION_COUNT_def nth_eq_iff_index_eq [of "map info_name instructions", symmetric])
  then show "kind_of i = kind_of j" by (simp add: kind_index_eq_iff)
qed

text \<open>The tokens of an instruction, apart from a fence.\<close>

fun operand_texts :: "instr \<Rightarrow> string list" where
  "operand_texts (RegOp op r a b) = [reg_name r, reg_name a, reg_name b]"
| "operand_texts (ImmOp op r a imm) = [reg_name r, reg_name a, signed_dec (sint imm)]"
| "operand_texts (ShiftOp op r a sh) = [reg_name r, reg_name a, signed_dec (uint sh)]"
| "operand_texts (Lui r imm) = [reg_name r, ''0x'' @ pad 5 (hex (unat imm))]"
| "operand_texts (Auipc r imm) = [reg_name r, ''0x'' @ pad 5 (hex (unat imm))]"
| "operand_texts (Jal r h) = [reg_name r, signed_dec (2 * sint h)]"
| "operand_texts (Jalr r a imm) = [reg_name r, signed_dec (sint imm), reg_name a]"
| "operand_texts (Branch op a b h) = [reg_name a, reg_name b, signed_dec (2 * sint h)]"
| "operand_texts (Load op r a imm) = [reg_name r, signed_dec (sint imm), reg_name a]"
| "operand_texts (Store op a b imm) = [reg_name b, signed_dec (sint imm), reg_name a]"
| "operand_texts _ = []"

lemma tokens_asm:
  assumes "\<forall>r a imm. i \<noteq> Fence r a imm"
  shows "tokens separator (asm i) = mnemonic i # operand_texts i"
  using assms by (cases i) (simp_all add: tokens_next tokens_last)

lemma reg_name_inject: "reg_name r = reg_name s \<longleftrightarrow> r = s"
  by (simp add: reg_name_def word_unat_eq_iff)

lemma value_inject:
  fixes x y :: "'a::len word"
  shows "unat x = unat y \<longleftrightarrow> x = y" "uint x = uint y \<longleftrightarrow> x = y" "sint x = sint y \<longleftrightarrow> x = y"
  by (auto intro: unsigned_word_eqI signed_word_eqI)

lemma operand_texts_inject:
  "skeleton i = skeleton j \<Longrightarrow> operand_texts i = operand_texts j \<Longrightarrow> \<forall>r a imm. i \<noteq> Fence r a imm \<Longrightarrow> i = j"
  by (cases i; cases j; simp add: reg_name_inject value_inject)

lemma hex_digit: "n < 16 \<Longrightarrow> hex n = [digit_char n]"
  by (simp add: hex_def digits.simps [of 16 n])

lemma mnemonic_asm: "takeWhile (\<lambda>c. c \<noteq> CHR '' '') (asm i) = mnemonic i"
proof -
  have "c \<noteq> CHR '' ''" if "c \<in> set (mnemonic i)" for c
    using mnemonic_facts(1) [of i] that by (auto simp: token_def)
  moreover have "\<exists>t. asm i = mnemonic i @ t \<and> (t = [] \<or> hd t = CHR '' '')"
    by (cases i) (auto simp: mnemonic.simps)
  ultimately show ?thesis by (auto simp: takeWhile_append takeWhile_eq_Nil_iff)
qed

lemma constant_nibbles:
  fixes x y :: "12 word"
  assumes "x AND 15 = y AND 15" "drop_bit 4 x AND 15 = drop_bit 4 y AND 15" "drop_bit 8 x = drop_bit 8 y"
  shows "x = y"
proof (rule bit_word_eqI)
  fix n assume "n < LENGTH(12)"
  then have n: "n < 12" by simp
  have m: "(15 :: 12 word) = mask 4" by (simp add: mask_eq_exp_minus_1)
  consider "n < 4" | "4 \<le> n" "n < 8" | "8 \<le> n" by linarith
  then show "bit x n = bit y n"
  proof cases
    case 1
    then show ?thesis using assms(1) [unfolded m, THEN arg_cong, of "\<lambda>w. bit w n"] n by (auto simp: bit_simps)
  next
    case 2
    then have "n - 4 < 4" "n - 4 < 12" "4 + (n - 4) = n" by simp_all
    then show ?thesis using assms(2) [unfolded m, THEN arg_cong, of "\<lambda>w. bit w (n - 4)"] n by (auto simp: bit_simps)
  next
    case 3
    then show ?thesis using assms(3) [THEN arg_cong, of "\<lambda>w. bit w (n - 8)"] n by (auto simp: bit_simps)
  qed
qed

lemma nibbles_less:
  fixes x :: "12 word"
  shows "unat (x AND 15) < 16" "unat (drop_bit 8 x) < 16"
proof -
  have "x AND 15 = take_bit 4 x" by (simp add: take_bit_eq_mask mask_eq_exp_minus_1)
  then show "unat (x AND 15) < 16" using take_bit_nat_less_exp [of 4 "unat x"] by (simp add: unsigned_take_bit_eq)
  have "unat x < 4096" using unsigned_less [of x, where ?'a = nat] by simp
  then show "unat (drop_bit 8 x) < 16" by (simp add: drop_bit_eq_div unat_div_distrib less_mult_imp_div_less)
qed

lemma asm_Fence: "asm (Fence r a imm) = ''fence pred=0x'' @ [digit_char (unat (drop_bit 4 imm AND 15))]
   @ '', succ=0x'' @ [digit_char (unat (imm AND 15))] @ '', fm=0x'' @ [digit_char (unat (drop_bit 8 imm))]"
  unfolding asm.simps hex_digit [OF nibbles_less(1)] hex_digit [OF nibbles_less(2)] by (rule refl)

lemma fence_text_inject:
  "a @ [p] @ b @ [s] @ c @ [f] = a @ [p'] @ b @ [s'] @ c @ [f'] \<Longrightarrow> p = p' \<and> s = s' \<and> f = f'"
  by simp

lemma digit_char_inject: "m < 16 \<Longrightarrow> n < 16 \<Longrightarrow> digit_char m = digit_char n \<longleftrightarrow> m = n"
proof -
  assume "m < 16" "n < 16"
  then have "digit_value (digit_char m) = m" "digit_value (digit_char n) = n"
    by (simp_all add: digit_value_char)
  then show ?thesis by metis
qed

lemma asm_Fence_inject: "asm (Fence r a x) = asm (Fence s b y) \<longleftrightarrow> x = y"
proof
  assume "asm (Fence r a x) = asm (Fence s b y)"
  then have "digit_char (unat (drop_bit 4 x AND 15)) = digit_char (unat (drop_bit 4 y AND 15))
      \<and> digit_char (unat (x AND 15)) = digit_char (unat (y AND 15))
      \<and> digit_char (unat (drop_bit 8 x)) = digit_char (unat (drop_bit 8 y))"
    unfolding asm_Fence by (rule fence_text_inject)
  then have "unat (drop_bit 4 x AND 15) = unat (drop_bit 4 y AND 15)
      \<and> unat (x AND 15) = unat (y AND 15) \<and> unat (drop_bit 8 x) = unat (drop_bit 8 y)"
    unfolding digit_char_inject [OF nibbles_less(1) nibbles_less(1)] digit_char_inject [OF nibbles_less(2) nibbles_less(2)] .
  then show "x = y" unfolding value_inject by (elim conjE) (rule constant_nibbles)
next
  assume "x = y"
  then show "asm (Fence r a x) = asm (Fence s b y)" by (simp only: asm.simps)
qed

lemma asm_inject:
  assumes "asm i = asm j"
  shows "i = j \<or> (\<exists>r a r' a' imm. i = Fence r a imm \<and> j = Fence r' a' imm)"
proof -
  have sk: "skeleton i = skeleton j"
    using mnemonic_asm [of i] mnemonic_asm [of j] assms by (intro mnemonic_skeleton) simp
  show ?thesis
  proof (cases "\<exists>r a imm. i = Fence r a imm")
    case True
    then obtain r a imm where i: "i = Fence r a imm" by blast
    with sk obtain r' a' imm' where "j = Fence r' a' imm'" by (cases j) simp_all
    with i assms asm_Fence_inject show ?thesis by auto
  next
    case False
    moreover from this sk have "\<forall>r a imm. j \<noteq> Fence r a imm" by (cases i; cases j; simp)
    ultimately have "operand_texts i = operand_texts j"
      using tokens_asm [of i] tokens_asm [of j] assms by simp
    with sk False show ?thesis using operand_texts_inject by blast
  qed
qed

lemma unknown_text:
  "kind (instruction_decode w) = INSTRUCTION_UNKNOWN \<Longrightarrow> disassembly_text w = ''.word 0x'' @ pad 8 (hex (unat w))"
  by (simp add: disassembly_text_def)

lemma asm_not_word: "asm i \<noteq> ''.word 0x'' @ t"
  using mnemonic_asm [of i] mnemonic_facts(2) [of i, symmetric] by auto

lemma unknown_not_encoded: "kind (instruction_decode w) = INSTRUCTION_UNKNOWN \<Longrightarrow> w \<notin> range encode"
  by (metis decode_encode decodes_as_def imageE kind_of_known)

lemma word_cases:
  obtains (known) i where "w = encode i" "disassembly_text w = asm i"
  | (unknown) "w \<notin> range encode" "disassembly_text w = ''.word 0x'' @ pad 8 (hex (unat w))"
proof (cases "kind (instruction_decode w) = INSTRUCTION_UNKNOWN")
  case True
  then show ?thesis using unknown unknown_not_encoded unknown_text by blast
next
  case False
  then obtain i where "w = encode i" using decode_known_encoded by blast
  then show ?thesis using known disassembly_of_encode by blast
qed

lemma length_dec: "n < 10 ^ k \<Longrightarrow> 0 < k \<Longrightarrow> length (dec n) \<le> k"
  by (simp add: dec_def length_digits)

lemma length_hex: "n < 16 ^ k \<Longrightarrow> 0 < k \<Longrightarrow> length (hex n) \<le> k"
  by (simp add: hex_def length_digits)

lemma length_reg_name: "length (reg_name r) \<le> 3"
proof -
  have "unat r < 10 ^ 2" using unsigned_less [of r, where ?'a = nat] by simp
  then have "length (dec (unat r)) \<le> 2" by (rule length_dec) simp
  then show ?thesis by (simp add: reg_name_def)
qed

lemma length_signed_dec: "\<bar>v\<bar> < 10 ^ k \<Longrightarrow> 0 < k \<Longrightarrow> length (signed_dec v) \<le> Suc k"
  using length_dec [of "nat \<bar>v\<bar>" k] by (auto simp: signed_dec_def nat_less_iff abs_if le_SucI)

lemma length_constants:
  "length (signed_dec (sint (x :: 12 word))) \<le> 5" "length (signed_dec (2 * sint x)) \<le> 5"
  "length (signed_dec (2 * sint (j :: 20 word))) \<le> 8" "length (signed_dec (uint (r :: 5 word))) \<le> 3"
  "length (pad 5 (hex (unat j))) \<le> 5"
proof -
  have "- 2048 \<le> sint x" "sint x < 2048" "- 524288 \<le> sint j" "sint j < 524288"
    using sint_ge [of x] sint_lt [of x] sint_ge [of j] sint_lt [of j] by simp_all
  then show "length (signed_dec (sint x)) \<le> 5" "length (signed_dec (2 * sint x)) \<le> 5"
    "length (signed_dec (2 * sint j)) \<le> 8"
    using length_signed_dec [of "sint x" 4] length_signed_dec [of "2 * sint x" 4]
      length_signed_dec [of "2 * sint j" 7] by (simp_all add: abs_less_iff)
  have "uint r < 32" "0 \<le> uint r" using unsigned_less [of r, where ?'a = int] by simp_all
  then show "length (signed_dec (uint r)) \<le> 3" using length_signed_dec [of "uint r" 2] by (simp add: abs_if)
  have "unat j < 16 ^ 5" using unsigned_less [of j, where ?'a = nat] by simp
  then show "length (pad 5 (hex (unat j))) \<le> 5"
    using length_hex [of "unat j" 5] by (simp add: pad_def)
qed

lemma length_text: "length (disassembly_text w) \<le> 32"
proof (cases w rule: word_cases)
  case (known i)
  note len = mnemonic_length length_reg_name length_constants
  have "length (asm i) \<le> 32"
  proof (cases i)
    case (RegOp op r a b)
    then show ?thesis
      using len(1) [of i] len(2) [of r] len(2) [of a] len(2) [of b] by simp
  next
    case (ImmOp op r a imm)
    then show ?thesis using len(1) [of i] len(2) [of r] len(2) [of a] len(3) [of imm] by simp
  next
    case (ShiftOp op r a sh)
    then show ?thesis using len(1) [of i] len(2) [of r] len(2) [of a] len(6) [of sh] by simp
  next
    case (Lui r imm)
    then show ?thesis using len(1) [of i] len(2) [of r] len(7) [of imm] by simp
  next
    case (Auipc r imm)
    then show ?thesis using len(1) [of i] len(2) [of r] len(7) [of imm] by simp
  next
    case (Jal r h)
    then show ?thesis using len(1) [of i] len(2) [of r] len(5) [of h] by simp
  next
    case (Jalr r a imm)
    then show ?thesis using len(1) [of i] len(2) [of r] len(2) [of a] len(3) [of imm] by simp
  next
    case (Branch op a b h)
    then show ?thesis using len(1) [of i] len(2) [of a] len(2) [of b] len(4) [of h] by simp
  next
    case (Load op r a imm)
    then show ?thesis using len(1) [of i] len(2) [of r] len(2) [of a] len(3) [of imm] by simp
  next
    case (Store op a b imm)
    then show ?thesis using len(1) [of i] len(2) [of a] len(2) [of b] len(3) [of imm] by simp
  next
    case (Fence r a imm)
    then show ?thesis by (simp only: asm_Fence) simp
  qed (use len(1) [of i] in simp_all)
  with known show ?thesis by simp
next
  case unknown
  have "unat w < 16 ^ 8" using unsigned_less [of w, where ?'a = nat] by simp
  then have "length (hex (unat w)) \<le> 8" by (rule length_hex) simp
  with unknown show ?thesis by (simp add: pad_def)
qed

subsection \<open>Properties\<close>

text \<open>
  C29. The text of a word that encodes an instruction is that instruction's assembly: mnemonic,
  registers and the signed constants with their scattered bits put back in place; any other word is
  shown as data, eight hexadecimal digits after \<^verbatim>\<open>.word 0x\<close>.
\<close>

theorem disassembly_exact:
  "disassembly_text (encode i) = asm i \<and>
   (w \<notin> range encode \<longrightarrow> disassembly_text w = ''.word 0x'' @ pad 8 (hex (unat w)))"
  using disassembly_of_encode [of i] by (auto intro: word_cases [of w])

theorem disassembly_exact_witness:
  "disassembly_text (encode (RegOp Alu_add 1 2 3)) = ''add x1, x2, x3''
   \<and> disassembly_text (encode (RegOp Alu_sub 1 2 3)) = ''sub x1, x2, x3''
   \<and> disassembly_text (encode (ImmOp Imm_addi 5 0 (- 7))) = ''addi x5, x0, -7''
   \<and> disassembly_text (encode (ShiftOp Sh_srai 5 6 31)) = ''srai x5, x6, 31''
   \<and> disassembly_text (encode (Lui 10 0x12)) = ''lui x10, 0x00012''
   \<and> disassembly_text (encode (Jal 1 (- 4))) = ''jal x1, -8''
   \<and> disassembly_text (encode (Branch Br_ltu 8 9 6)) = ''bltu x8, x9, 12''
   \<and> disassembly_text (encode (Load Ld_hu 4 2 (- 16))) = ''lhu x4, -16(x2)''
   \<and> disassembly_text (encode (Store St_b 2 31 20)) = ''sb x31, 20(x2)''
   \<and> disassembly_text (encode Ebreak) = ''ebreak''
   \<and> disassembly_text 0 = ''.word 0x00000000''"
proof -
  have "kind (instruction_decode 0) = INSTRUCTION_UNKNOWN" by code_simp
  then have "0 \<notin> range encode" by (rule unknown_not_encoded)
  with disassembly_exact [where w = 0]
  have asm: "disassembly_text (encode i) = asm i"
    and word: "disassembly_text 0 = ''.word 0x'' @ pad 8 (hex (unat (0 :: u32)))" for i
    by blast+
  have "asm (RegOp Alu_add 1 2 3) = ''add x1, x2, x3''" by code_simp
  moreover have "asm (RegOp Alu_sub 1 2 3) = ''sub x1, x2, x3''" by code_simp
  moreover have "asm (ImmOp Imm_addi 5 0 (- 7)) = ''addi x5, x0, -7''" by code_simp
  moreover have "asm (ShiftOp Sh_srai 5 6 31) = ''srai x5, x6, 31''" by code_simp
  moreover have "asm (Lui 10 0x12) = ''lui x10, 0x00012''" by code_simp
  moreover have "asm (Jal 1 (- 4)) = ''jal x1, -8''" by code_simp
  moreover have "asm (Branch Br_ltu 8 9 6) = ''bltu x8, x9, 12''" by code_simp
  moreover have "asm (Load Ld_hu 4 2 (- 16)) = ''lhu x4, -16(x2)''" by code_simp
  moreover have "asm (Store St_b 2 31 20) = ''sb x31, 20(x2)''" by code_simp
  moreover have "asm Ebreak = ''ebreak''" by code_simp
  moreover have "''.word 0x'' @ pad 8 (hex (unat (0 :: u32))) = ''.word 0x00000000''" by code_simp
  ultimately show ?thesis unfolding asm word by (intro conjI)
qed

text \<open>
  C30. The text of a word has at most 32 characters, so with the terminator it fits every buffer of
  more than 32 bytes, and the disassembler then reports success and writes all of it.
\<close>

theorem disassembly_fits:
  assumes "32 < capacity"
  shows "instruction_disassemble w True capacity = (True, Some (disassembly_text w))"
  using assms length_text [of w] by (simp add: instruction_disassemble_def)

theorem disassembly_fits_witness: "instruction_disassemble 0x00500093 True 96 = (True, Some ''addi x1, x0, 5'')"
proof -
  have "disassembly_text 0x00500093 = ''addi x1, x0, 5''" by code_simp
  then show ?thesis using disassembly_fits [of 96 "0x00500093"] by simp
qed

text \<open>
  C28. The text determines the word: two words have the same text only when they are equal, or when
  both are fences that differ in the two register fields that a fence ignores.
\<close>

theorem disassembly_unambiguous:
  "disassembly_text v = disassembly_text w \<longleftrightarrow>
     v = w \<or> (\<exists>r a r' a' imm. v = encode (Fence r a imm) \<and> w = encode (Fence r' a' imm))"
proof
  assume eq: "disassembly_text v = disassembly_text w"
  show "v = w \<or> (\<exists>r a r' a' imm. v = encode (Fence r a imm) \<and> w = encode (Fence r' a' imm))"
  proof (cases v rule: word_cases)
    case (known i)
    with eq asm_not_word obtain j where "w = encode j" "disassembly_text w = asm j"
      by (metis word_cases [of w])
    with known eq asm_inject [of i j] show ?thesis by metis
  next
    case unknown
    with eq asm_not_word have "disassembly_text w = ''.word 0x'' @ pad 8 (hex (unat w))"
      by (metis word_cases [of w])
    with unknown eq show ?thesis by (simp add: value_inject)
  qed
next
  assume "v = w \<or> (\<exists>r a r' a' imm. v = encode (Fence r a imm) \<and> w = encode (Fence r' a' imm))"
  then show "disassembly_text v = disassembly_text w" by (auto simp only: disassembly_of_encode asm.simps)
qed

end
