(* ===== verification/Debug_Info.thy ===== *)
theory Debug_Info
  imports Program "HOL-Library.Multiset"
begin

section \<open>Debug information\<close>

text \<open>
  The model of \<^verbatim>\<open>include/debug_info.h\<close> and \<^verbatim>\<open>src/debug_info.c\<close>: the table of source ranges and
  symbols of an ELF program. What the libraries \<^verbatim>\<open>libelf\<close> and \<^verbatim>\<open>libdw\<close> find in the file is a
  parameter, as data that holds the answers of their calls; \<^verbatim>\<open>qsort\<close> is a parameter too, with the
  contract of the C standard as a hypothesis. The theory shows the invariant that every table read
  satisfies, that its ranges are those of consecutive DWARF rows, and that the binary search with
  its pruned scan finds what a scan over the whole table finds.
\<close>

subsection \<open>Data\<close>

definition MAX_DEBUG_RECORDS :: nat where "MAX_DEBUG_RECORDS = 262144"
definition MAX_SOURCE_FILES :: nat where "MAX_SOURCE_FILES = 4096"
definition MAX_DEBUG_TEXT :: nat where "MAX_DEBUG_TEXT = 4096"

record DebugLine =
  range_begin :: u32
  range_end :: u32
  maximum_end :: u32
  source_file :: nat
  source_line :: u32
  source_column :: u32

record DebugSymbol =
  symbol_name :: string
  symbol_address :: u32
  symbol_size :: u32
  symbol_function :: bool

text \<open>The three arrays with their counts are lists.\<close>

record DebugInfo =
  debug_files :: "string list"
  debug_lines :: "DebugLine list"
  debug_symbols :: "DebugSymbol list"

definition zero_debug :: DebugInfo where
  "zero_debug = \<lparr>debug_files = [], debug_lines = [], debug_symbols = []\<rparr>"

definition zero_line :: DebugLine where
  "zero_line = \<lparr>range_begin = 0, range_end = 0, maximum_end = 0, source_file = 0, source_line = 0, source_column = 0\<rparr>"

text \<open>
  The answers of \<^verbatim>\<open>libdw\<close>: a row of a line table (\<open>None\<close> where a call reports failure), and the
  answer of \<^verbatim>\<open>dwarf_next_lines\<close> at an offset, which depends on the iteration state \<open>'cu\<close>.
\<close>

record dwarf_row =
  row_address :: "u64 option"
  row_end :: "bool option"
  row_line :: "int option"
  row_column :: "int option"
  row_source :: "string ptr"

record dwarf_unit =
  unit_status :: int
  unit_next :: u64
  unit_files :: "string ptr list"
  unit_rows :: "dwarf_row ptr list"

type_synonym 'cu dwarf = "('cu \<Rightarrow> u64 \<Rightarrow> 'cu \<times> dwarf_unit) \<times> 'cu"

text \<open>The answers of \<^verbatim>\<open>libelf\<close>: a symbol, a section with its header, and a file.\<close>

record elf_symbol =
  st_type :: nat
  st_shndx :: nat
  st_value :: u64
  st_size :: u64
  st_name :: "string ptr"

record elf_section =
  sh_name :: "string ptr"
  sh_type :: u32
  sh_size :: u64
  sh_entsize :: u64
  names_type :: "u32 option"
  data_found :: bool
  symbol_at :: "nat \<Rightarrow> elf_symbol ptr"

record 'cu elf_file =
  section_count :: "nat option"
  section_strings :: "nat option"
  section_at :: "nat \<Rightarrow> elf_section ptr"
  line_tables :: "'cu dwarf ptr"

subsection \<open>Reading\<close>

definition debug_info_destroy :: "DebugInfo ptr \<Rightarrow> DebugInfo ptr" where
  "debug_info_destroy info = (case info of NULL \<Rightarrow> NULL | Ref _ \<Rightarrow> Ref zero_debug)"

text \<open>\<open>alloc n\<close>: whether an allocation of \<open>n\<close> bytes succeeds.\<close>

definition copy_text :: "(nat \<Rightarrow> bool) \<Rightarrow> string ptr \<Rightarrow> string ptr" where
  "copy_text alloc text =
     (case text of NULL \<Rightarrow> NULL
      | Ref t \<Rightarrow>
          let len = min MAX_DEBUG_TEXT (length t) in
          if len = MAX_DEBUG_TEXT then NULL
          else if alloc (len + 1) then Ref (take len t) else NULL)"

text \<open>The new capacity; \<open>None\<close> when the array is full or cannot grow.\<close>

definition reserve :: "(nat \<Rightarrow> bool) \<Rightarrow> nat \<Rightarrow> nat \<Rightarrow> nat \<Rightarrow> nat option" where
  "reserve alloc n capacity width =
     (if n < capacity then Some capacity
      else if n \<ge> MAX_DEBUG_RECORDS then None
      else
      let next = (if capacity = 0 then 64 else capacity * 2);
          next = (if next > MAX_DEBUG_RECORDS then MAX_DEBUG_RECORDS else next)
      in if alloc (next * width) then Some next else None)"

text \<open>The table under construction, with the capacities of its arrays.\<close>

record reader =
  info :: DebugInfo
  line_capacity :: nat
  file_capacity :: nat

fun find_file :: "string list \<Rightarrow> string \<Rightarrow> nat \<Rightarrow> nat option" where
  "find_file [] path i = None"
| "find_file (f # fs) path i = (if f = path then Some i else find_file fs path (i + 1))"

definition file_index :: "(nat \<Rightarrow> bool) \<Rightarrow> reader \<Rightarrow> string ptr \<Rightarrow> (reader \<times> nat) option" where
  "file_index alloc r path =
     (case path of NULL \<Rightarrow> None
      | Ref p \<Rightarrow>
     (case find_file (debug_files (info r)) p 0 of
        Some i \<Rightarrow> Some (r, i)
      | None \<Rightarrow>
          let n = length (debug_files (info r)) in
          if n \<ge> MAX_SOURCE_FILES then None
          else
         (case copy_text alloc path of
            NULL \<Rightarrow> None
          | Ref copy \<Rightarrow>
             (case reserve alloc n (file_capacity r) 8 of
                None \<Rightarrow> None
              | Some capacity \<Rightarrow>
                  Some (r\<lparr>info := (info r)\<lparr>debug_files := debug_files (info r) @ [copy]\<rparr>,
                          file_capacity := capacity\<rparr>, n)))))"

definition append_line :: "(nat \<Rightarrow> bool) \<Rightarrow> reader \<Rightarrow> DebugLine \<Rightarrow> reader option" where
  "append_line alloc r row =
     (case reserve alloc (length (debug_lines (info r))) (line_capacity r) 32 of
        None \<Rightarrow> None
      | Some capacity \<Rightarrow>
          Some (r\<lparr>info := (info r)\<lparr>debug_lines := debug_lines (info r) @ [row]\<rparr>, line_capacity := capacity\<rparr>))"

fun read_files :: "(nat \<Rightarrow> bool) \<Rightarrow> string ptr list \<Rightarrow> reader \<Rightarrow> reader option" where
  "read_files alloc [] r = Some r"
| "read_files alloc (NULL # paths) r = read_files alloc paths r"
| "read_files alloc (Ref p # paths) r =
     (case file_index alloc r (Ref p) of
        None \<Rightarrow> None
      | Some (r, _) \<Rightarrow> read_files alloc paths r)"

text \<open>The row before a new one ends where the new one begins, if it is pending.\<close>

definition close_pending :: "(nat \<Rightarrow> bool) \<Rightarrow> u64 \<Rightarrow> reader \<Rightarrow> DebugLine option \<Rightarrow> reader option" where
  "close_pending alloc address r pending =
     (case pending of None \<Rightarrow> Some r
      | Some previous \<Rightarrow>
          if address < ucast (range_begin previous) then None
          else if address > ucast (range_begin previous)
          then append_line alloc r (previous\<lparr>range_end := ucast address\<rparr>)
          else Some r)"

definition open_pending :: "(nat \<Rightarrow> bool) \<Rightarrow> dwarf_row \<Rightarrow> u64 \<Rightarrow> reader \<Rightarrow> (reader \<times> DebugLine option) option" where
  "open_pending alloc row address r =
     (case (row_line row, row_column row) of
        (Some line, Some column) \<Rightarrow>
          if line > 0
          then
          (case file_index alloc r (row_source row) of
             None \<Rightarrow> None
           | Some (r, file) \<Rightarrow>
               Some (r, Some (zero_line\<lparr>range_begin := ucast address, source_file := file,
                 source_line := word_of_int line,
                 source_column := (if column > 0 then word_of_int column else 0)\<rparr>)))
          else Some (r, None)
      | _ \<Rightarrow> None)"

definition read_row ::
  "(nat \<Rightarrow> bool) \<Rightarrow> nat \<Rightarrow> dwarf_row ptr \<Rightarrow> reader \<Rightarrow> DebugLine option \<Rightarrow> (reader \<times> DebugLine option) option" where
  "read_row alloc ram_size row r pending =
     (case row of NULL \<Rightarrow> None
      | Ref x \<Rightarrow>
     (case (row_address x, row_end x) of
        (Some address, Some ended) \<Rightarrow>
          if unat address > ram_size then None
          else
         (case close_pending alloc address r pending of
            None \<Rightarrow> None
          | Some r \<Rightarrow> if ended then Some (r, None) else open_pending alloc x address r)
      | _ \<Rightarrow> None))"

fun read_rows ::
  "(nat \<Rightarrow> bool) \<Rightarrow> nat \<Rightarrow> dwarf_row ptr list \<Rightarrow> reader \<Rightarrow> DebugLine option \<Rightarrow> (reader \<times> DebugLine option) option" where
  "read_rows alloc ram_size [] r pending = Some (r, pending)"
| "read_rows alloc ram_size (row # rows) r pending =
     (case read_row alloc ram_size row r pending of
        None \<Rightarrow> None
      | Some (r, pending) \<Rightarrow> read_rows alloc ram_size rows r pending)"

text \<open>One unit: its file names, then its rows; a range that no later row bounds is an error.\<close>

definition read_unit :: "(nat \<Rightarrow> bool) \<Rightarrow> nat \<Rightarrow> dwarf_unit \<Rightarrow> reader \<Rightarrow> reader option" where
  "read_unit alloc ram_size u r =
     (case read_files alloc (unit_files u) r of
        None \<Rightarrow> None
      | Some r \<Rightarrow>
     (case read_rows alloc ram_size (unit_rows u) r None of
        Some (r, None) \<Rightarrow> Some r
      | _ \<Rightarrow> None))"

lemma offset_measure: "a < b \<Longrightarrow> unat (- 1 :: u64) - unat b < unat (- 1 :: u64) - unat a" for a b :: u64
proof -
  assume "a < b"
  then have "unat a < unat b" by (simp only: word_less_nat_alt)
  moreover have "unat b \<le> unat (- 1 :: u64)" by (simp only: word_le_nat_alt [symmetric] word_order.extremum)
  ultimately show ?thesis by linarith
qed

text \<open>The loop ends because every unit must move the 64-bit offset forward.\<close>

function read_units ::
  "(nat \<Rightarrow> bool) \<Rightarrow> nat \<Rightarrow> ('cu \<Rightarrow> u64 \<Rightarrow> 'cu \<times> dwarf_unit) \<Rightarrow> 'cu \<Rightarrow> u64 \<Rightarrow> reader \<Rightarrow> reader option" where
  "read_units alloc ram_size next_lines cu offset r =
     (case next_lines cu offset of
        (cu, u) \<Rightarrow>
          if unit_status u \<noteq> 0 then (if unit_status u \<ge> 0 then Some r else None)
          else if unit_next u \<le> offset \<or> length (unit_rows u) > MAX_DEBUG_RECORDS
               \<or> length (unit_files u) > MAX_SOURCE_FILES
          then None
          else
         (case read_unit alloc ram_size u r of
            None \<Rightarrow> None
          | Some r \<Rightarrow> read_units alloc ram_size next_lines cu (unit_next u) r))"
  by pat_completeness auto
termination
  by (relation "measure (\<lambda>(alloc, ram, lines, cu, offset, r). unat (- 1 :: u64) - unat offset)")
    (simp_all add: offset_measure not_le)

declare read_units.simps [simp del]

definition debug_read_lines :: "(nat \<Rightarrow> bool) \<Rightarrow> 'cu elf_file \<Rightarrow> DebugInfo \<Rightarrow> nat \<Rightarrow> DebugInfo option" where
  "debug_read_lines alloc elf debug ram_size =
     (case line_tables elf of NULL \<Rightarrow> None
      | Ref (next_lines, cu) \<Rightarrow>
          map_option info (read_units alloc ram_size next_lines cu 0
            \<lparr>info = debug, line_capacity = 0, file_capacity = 0\<rparr>))"

text \<open>
  The ELF constants the code tests: section types \<^verbatim>\<open>SHT_SYMTAB\<close> 2 and \<^verbatim>\<open>SHT_STRTAB\<close> 3, symbol types
  \<^verbatim>\<open>STT_NOTYPE\<close> 0, \<^verbatim>\<open>STT_OBJECT\<close> 1 and \<^verbatim>\<open>STT_FUNC\<close> 2, \<^verbatim>\<open>SHN_UNDEF\<close> 0, an \<^verbatim>\<open>Elf32_Sym\<close> of 16 bytes.
  The state is the symbols with the capacity of their array.
\<close>

definition read_symbol ::
  "(nat \<Rightarrow> bool) \<Rightarrow> elf_symbol ptr \<Rightarrow> DebugSymbol list \<times> nat \<Rightarrow> (DebugSymbol list \<times> nat) option" where
  "read_symbol alloc symbol state =
     (case symbol of NULL \<Rightarrow> None
      | Ref s \<Rightarrow>
      if st_shndx s = 0 \<or> (st_type s \<noteq> 2 \<and> st_type s \<noteq> 1 \<and> st_type s \<noteq> 0) then Some state
      else
      case st_name s of NULL \<Rightarrow> None
      | Ref name \<Rightarrow>
      if name = '''' then Some state
      else
     (case copy_text alloc (Ref name) of NULL \<Rightarrow> None
      | Ref copy \<Rightarrow>
     (case reserve alloc (length (fst state)) (snd state) 24 of None \<Rightarrow> None
      | Some capacity \<Rightarrow>
          Some (fst state @ [\<lparr>symbol_name = copy, symbol_address = ucast (st_value s),
            symbol_size = ucast (st_size s), symbol_function = (st_type s = 2)\<rparr>], capacity))))"

fun read_entries ::
  "(nat \<Rightarrow> bool) \<Rightarrow> (nat \<Rightarrow> elf_symbol ptr) \<Rightarrow> nat list \<Rightarrow> DebugSymbol list \<times> nat \<Rightarrow> (DebugSymbol list \<times> nat) option" where
  "read_entries alloc at [] state = Some state"
| "read_entries alloc at (j # js) state =
     (case read_symbol alloc (at j) state of None \<Rightarrow> None
      | Some state \<Rightarrow> read_entries alloc at js state)"

definition read_section ::
  "(nat \<Rightarrow> bool) \<Rightarrow> nat \<Rightarrow> elf_section ptr \<Rightarrow> bool \<Rightarrow> DebugSymbol list \<times> nat \<Rightarrow> (bool \<times> DebugSymbol list \<times> nat) option" where
  "read_section alloc strings section has_debug state =
     (case section of NULL \<Rightarrow> None
      | Ref h \<Rightarrow>
     (case (if strings = 0 then Ref '''' else sh_name h) of NULL \<Rightarrow> None
      | Ref name \<Rightarrow>
      let has_debug = (if name = ''.debug_line'' \<or> name = ''.zdebug_line'' then sh_size h \<noteq> 0 else has_debug) in
      if sh_type h \<noteq> 2 then Some (has_debug, state)
      else if sh_entsize h \<noteq> 16 \<or> sh_size h mod sh_entsize h \<noteq> 0
           \<or> unat (sh_size h div sh_entsize h) > MAX_DEBUG_RECORDS then None
      else if names_type h \<noteq> Some 3 then None
      else if \<not> data_found h then None
      else map_option (Pair has_debug)
        (read_entries alloc (symbol_at h) [0..<unat (sh_size h div sh_entsize h)] state)))"

fun read_sections ::
  "(nat \<Rightarrow> bool) \<Rightarrow> nat \<Rightarrow> elf_section ptr list \<Rightarrow> bool \<Rightarrow> DebugSymbol list \<times> nat \<Rightarrow> (bool \<times> DebugSymbol list \<times> nat) option" where
  "read_sections alloc strings [] has_debug state = Some (has_debug, state)"
| "read_sections alloc strings (section # sections) has_debug state =
     (case read_section alloc strings section has_debug state of None \<Rightarrow> None
      | Some (has_debug, state) \<Rightarrow> read_sections alloc strings sections has_debug state)"

text \<open>The symbols and whether there is a line table.\<close>

definition debug_read_symbols :: "(nat \<Rightarrow> bool) \<Rightarrow> 'cu elf_file \<Rightarrow> (DebugSymbol list \<times> bool) option" where
  "debug_read_symbols alloc elf =
     (case (section_count elf, section_strings elf) of
        (Some n, Some strings) \<Rightarrow>
          map_option (\<lambda>(has_debug, symbols, _). (symbols, has_debug))
            (read_sections alloc strings (map (section_at elf) [1..<n]) False ([], 0))
      | _ \<Rightarrow> None)"

subsection \<open>Ordering and lookup\<close>

fun strcmp :: "string \<Rightarrow> string \<Rightarrow> int" where
  "strcmp [] [] = 0"
| "strcmp [] (y # ys) = -1"
| "strcmp (x # xs) [] = 1"
| "strcmp (x # xs) (y # ys) =
     (if x = y then strcmp xs ys else if (of_char x :: nat) < of_char y then -1 else 1)"

definition compare_lines :: "DebugLine \<Rightarrow> DebugLine \<Rightarrow> int" where
  "compare_lines a b =
     (if range_begin a \<noteq> range_begin b then (if range_begin a < range_begin b then -1 else 1)
      else if range_end a \<noteq> range_end b then (if range_end a < range_end b then -1 else 1)
      else 0)"

definition compare_symbols :: "DebugSymbol \<Rightarrow> DebugSymbol \<Rightarrow> int" where
  "compare_symbols a b =
     (if symbol_address a \<noteq> symbol_address b
      then (if symbol_address a < symbol_address b then -1 else 1)
      else strcmp (symbol_name a) (symbol_name b))"

text \<open>The loop that gives each range the greatest end up to it.\<close>

fun set_maximum :: "u32 \<Rightarrow> DebugLine list \<Rightarrow> DebugLine list" where
  "set_maximum maximum [] = []"
| "set_maximum maximum (l # ls) =
     (let maximum = (if range_end l > maximum then range_end l else maximum)
      in l\<lparr>maximum_end := maximum\<rparr> # set_maximum maximum ls)"

type_synonym 'a sorter = "('a \<Rightarrow> 'a \<Rightarrow> int) \<Rightarrow> 'a list \<Rightarrow> 'a list"

text \<open>
  \<open>elf_ok\<close>: what \<^verbatim>\<open>elf_version\<close> answers; \<open>elf_memory\<close>: the library's view of the bytes. The result is
  the error message or the table that replaces the owner.
\<close>

definition debug_info_read ::
  "(nat \<Rightarrow> bool) \<Rightarrow> DebugLine sorter \<Rightarrow> DebugSymbol sorter \<Rightarrow> bool \<Rightarrow> (u8 list \<Rightarrow> 'cu elf_file ptr) \<Rightarrow>
    program ptr \<Rightarrow> DebugInfo ptr \<Rightarrow> string + DebugInfo" where
  "debug_info_read alloc sort_lines sort_symbols elf_ok elf_memory p output =
     (if p = NULL \<or> output = NULL then Inl ''invalid debug-info argument''
      else
      let next =
        (if prog_format (the p) = PROGRAM_ELF
         then
           if elf_data (the p) = NULL \<or> elf_size (the p) = 0 \<or> \<not> elf_ok then None
           else
          (case elf_memory (take (elf_size (the p)) (the (elf_data (the p)))) of NULL \<Rightarrow> None
           | Ref elf \<Rightarrow>
          (case debug_read_symbols alloc elf of None \<Rightarrow> None
           | Some (symbols, has_debug) \<Rightarrow>
               let next = zero_debug\<lparr>debug_symbols := symbols\<rparr> in
               if has_debug then debug_read_lines alloc elf next (mem_size (prog_memory (the p)))
               else Some next))
         else Some zero_debug)
      in case next of
        None \<Rightarrow> Inl ''invalid, oversized, or unavailable ELF debug/symbol metadata''
      | Some next \<Rightarrow>
          let next = (if length (debug_lines next) > 1
                then next\<lparr>debug_lines := sort_lines compare_lines (debug_lines next)\<rparr> else next);
              next = (if length (debug_symbols next) > 1
                then next\<lparr>debug_symbols := sort_symbols compare_symbols (debug_symbols next)\<rparr> else next)
          in Inr (next\<lparr>debug_lines := set_maximum 0 (debug_lines next)\<rparr>))"

function upper_bound :: "DebugLine list \<Rightarrow> u32 \<Rightarrow> nat \<Rightarrow> nat \<Rightarrow> nat" where
  "upper_bound ls address left right =
     (if left < right then
        let middle = left + (right - left) div 2 in
        if range_begin (ls ! middle) \<le> address then upper_bound ls address (middle + 1) right
        else upper_bound ls address left middle
      else left)"
  by pat_completeness auto
termination
  by (relation "measure (\<lambda>(ls, address, left, right). right - left)") auto

declare upper_bound.simps [simp del]

fun scan_back :: "DebugLine list \<Rightarrow> u32 \<Rightarrow> nat \<Rightarrow> DebugLine ptr" where
  "scan_back ls address 0 = NULL"
| "scan_back ls address (Suc left) =
     (let line = ls ! left in
      if maximum_end line \<le> address then NULL
      else if range_begin line \<le> address \<and> address < range_end line then Ref line
      else scan_back ls address left)"

definition debug_info_lookup :: "DebugInfo ptr \<Rightarrow> u32 \<Rightarrow> DebugLine ptr" where
  "debug_info_lookup debug address =
     (case debug of NULL \<Rightarrow> NULL
      | Ref x \<Rightarrow> scan_back (debug_lines x) address
          (upper_bound (debug_lines x) address 0 (length (debug_lines x))))"

fun find_line :: "DebugLine list \<Rightarrow> nat \<Rightarrow> u32 \<Rightarrow> u32 option" where
  "find_line [] file line = None"
| "find_line (l # ls) file line =
     (if source_file l = file \<and> source_line l = line then Some (range_begin l) else find_line ls file line)"

text \<open>\<open>present\<close>: whether the caller passes a place for the address.\<close>

definition debug_info_line_address :: "DebugInfo ptr \<Rightarrow> nat \<Rightarrow> u32 \<Rightarrow> bool \<Rightarrow> u32 option" where
  "debug_info_line_address debug file line present =
     (if debug = NULL \<or> \<not> present then None else find_line (debug_lines (the debug)) file line)"

subsection \<open>The search\<close>

text \<open>
  The order of the ranges and the running maximum of their ends, and what a scan over the whole
  table finds: the last range that contains the address.
\<close>

definition covers :: "u32 \<Rightarrow> DebugLine \<Rightarrow> bool" where
  "covers address l \<longleftrightarrow> range_begin l \<le> address \<and> address < range_end l"

definition lines_wf :: "DebugLine list \<Rightarrow> bool" where
  "lines_wf ls \<longleftrightarrow> sorted_wrt (\<lambda>a b. compare_lines a b \<le> 0) ls \<and>
     (\<forall>i<length ls. maximum_end (ls ! i) = Max (range_end ` set (take (Suc i) ls)))"

definition last_covering :: "DebugLine list \<Rightarrow> u32 \<Rightarrow> DebugLine ptr" where
  "last_covering ls address = find (covers address) (rev ls)"

lemma compare_lines_le: "compare_lines a b \<le> 0 \<longleftrightarrow>
    range_begin a < range_begin b \<or> range_begin a = range_begin b \<and> range_end a \<le> range_end b"
  by (auto simp: compare_lines_def)

lemma lines_wf_begin:
  assumes "lines_wf ls" "i \<le> j" "j < length ls"
  shows "range_begin (ls ! i) \<le> range_begin (ls ! j)"
proof (cases "i = j")
  case False
  with assms(2) have "i < j" by simp
  with assms have "compare_lines (ls ! i) (ls ! j) \<le> 0"
    using sorted_wrt_nth_less [of "\<lambda>a b. compare_lines a b \<le> 0" ls i j] by (simp add: lines_wf_def)
  then show ?thesis by (auto simp: compare_lines_le)
qed simp

lemma lines_wf_maximum:
  assumes "lines_wf ls" "j \<le> i" "i < length ls"
  shows "range_end (ls ! j) \<le> maximum_end (ls ! i)"
proof -
  have "ls ! j \<in> set (take (Suc i) ls)" using assms(2,3) by (auto simp: in_set_conv_nth intro!: exI [of _ j])
  then show ?thesis using assms by (simp add: lines_wf_def Max_ge)
qed

lemma upper_bound_splits:
  assumes "lines_wf ls" "right \<le> length ls" "left \<le> right"
    "\<And>i. i < left \<Longrightarrow> range_begin (ls ! i) \<le> address"
    "\<And>i. right \<le> i \<Longrightarrow> i < length ls \<Longrightarrow> address < range_begin (ls ! i)"
  shows "upper_bound ls address left right \<le> length ls \<and>
    (\<forall>i<upper_bound ls address left right. range_begin (ls ! i) \<le> address) \<and>
    (\<forall>i. upper_bound ls address left right \<le> i \<longrightarrow> i < length ls \<longrightarrow> address < range_begin (ls ! i))"
  using assms
proof (induction ls address left right rule: upper_bound.induct)
  case (1 ls address left right)
  define middle where "middle = left + (right - left) div 2"
  show ?case
  proof (cases "left < right")
    case False
    with "1.prems" have "left = right" by simp
    with "1.prems" show ?thesis by (simp add: upper_bound.simps [of _ _ right])
  next
    case True
    then have mid: "left \<le> middle" "middle < right" by (auto simp: middle_def)
    note unfold = upper_bound.simps [of ls address left right, folded middle_def, simplified Let_def if_P [OF True]]
    show ?thesis
    proof (cases "range_begin (ls ! middle) \<le> address")
      case low: True
      have "range_begin (ls ! i) \<le> address" if "i < middle + 1" for i
        using that mid "1.prems"(1,2) low lines_wf_begin [of ls i middle] by (auto intro: order_trans)
      then show ?thesis
        unfolding unfold if_P [OF low]
        using True low mid "1.prems"
        by (intro "1.IH"(1) [OF True middle_def]) auto
    next
      case high: False
      have "address < range_begin (ls ! i)" if "middle \<le> i" "i < length ls" for i
        using that "1.prems"(1) high lines_wf_begin [of ls middle i] by auto
      then show ?thesis
        unfolding unfold if_not_P [OF high]
        using True high mid "1.prems"
        by (intro "1.IH"(2) [OF True middle_def]) auto
    qed
  qed
qed

lemma scan_back_finds:
  assumes "lines_wf ls" "n \<le> length ls"
  shows "scan_back ls address n = last_covering (take n ls) address"
  using assms(2)
proof (induction n)
  case 0
  then show ?case by (simp add: last_covering_def)
next
  case (Suc n)
  have take: "take (Suc n) ls = take n ls @ [ls ! n]" using Suc.prems by (simp add: take_Suc_conv_app_nth)
  show ?case
  proof (cases "maximum_end (ls ! n) \<le> address")
    case True
    have "\<not> covers address l" if l: "l \<in> set (take (Suc n) ls)" for l
    proof -
      from l Suc.prems obtain j where "l = ls ! j" "j \<le> n"
        by (auto simp: in_set_conv_nth less_Suc_eq_le)
      then have "range_end l \<le> address"
        using lines_wf_maximum [OF assms(1), of j n] Suc.prems True by (auto intro: order_trans)
      then show ?thesis by (auto simp: covers_def)
    qed
    then have "last_covering (take (Suc n) ls) address = None"
      unfolding last_covering_def by (intro find_None_all) simp
    with True show ?thesis by (simp add: Let_def)
  next
    case False
    with Suc show ?thesis by (simp add: last_covering_def covers_def take Let_def)
  qed
qed

lemma lookup_finds:
  assumes "lines_wf (debug_lines d)"
  shows "debug_info_lookup (Ref d) address = last_covering (debug_lines d) address"
proof -
  define ls where "ls = debug_lines d"
  define k where "k = upper_bound ls address 0 (length ls)"
  have k: "k \<le> length ls" "\<And>i. k \<le> i \<Longrightarrow> i < length ls \<Longrightarrow> address < range_begin (ls ! i)"
    using upper_bound_splits [of ls "length ls" 0 address] assms by (auto simp: k_def ls_def)
  have "\<not> covers address l" if "l \<in> set (drop k ls)" for l
  proof -
    from that obtain i where i: "i < length ls - k" "l = ls ! (k + i)" by (auto simp: in_set_conv_nth)
    then have "k + i < length ls" by linarith
    with k(2) [of "k + i"] i(2) show ?thesis by (auto simp: covers_def not_le)
  qed
  then have "find (covers address) (rev (drop k ls)) = None" by (intro find_None_all) simp
  moreover have "rev ls = rev (drop k ls) @ rev (take k ls)" by (simp flip: rev_append)
  ultimately have "last_covering ls address = last_covering (take k ls) address"
    by (simp add: last_covering_def find_append)
  then show ?thesis
    using scan_back_finds [of ls k address] assms k(1)
    by (simp add: debug_info_lookup_def k_def ls_def)
qed

lemma last_covering_iff:
  "last_covering ls address = None \<longleftrightarrow> (\<forall>l\<in>set ls. \<not> covers address l)"
  "last_covering ls address = Some l \<Longrightarrow> l \<in> set ls \<and> covers address l"
  unfolding last_covering_def by (auto simp: find_None_iff dest: find_SomeD)

lemma set_maximum_nth:
  "i < length ls \<Longrightarrow> set_maximum m ls ! i = (ls ! i)\<lparr>maximum_end := Max (insert m (range_end ` set (take (Suc i) ls)))\<rparr>"
proof (induction ls arbitrary: m i)
  case (Cons l ls)
  have running: "(if range_end l > m then range_end l else m) = max m (range_end l)" by (auto simp: max_def)
  have merge: "Max (insert (max m (range_end l)) A) = Max (insert m (insert (range_end l) A))" if "finite A" for A
    using that by (cases "A = {}") (simp_all add: max.assoc)
  show ?case
  proof (cases i)
    case 0
    then show ?thesis unfolding set_maximum.simps running Let_def by simp
  next
    case (Suc j)
    then show ?thesis unfolding set_maximum.simps running Let_def
      using Cons.IH [of j "max m (range_end l)"] Cons.prems
        merge [of "range_end ` set (take (Suc j) ls)"] by simp
  qed
qed simp

lemma length_set_maximum [simp]: "length (set_maximum m ls) = length ls"
  by (induction ls arbitrary: m) (simp_all add: Let_def)

subsection \<open>The rows and the ranges\<close>

text \<open>
  The specification of a line table: two consecutive rows make a range when the first one starts a
  statement (it does not end a sequence, and its line is not zero) and the second one has a greater
  address. A range is seen as its bounds, the path of its file, its line and its column.
\<close>

type_synonym range_view = "nat \<times> nat \<times> string \<times> u32 \<times> u32"

definition starts :: "dwarf_row ptr \<Rightarrow> bool" where
  "starts x \<longleftrightarrow> row_end (the x) = Some False \<and> the (row_line (the x)) > 0"

definition row_at :: "dwarf_row ptr \<Rightarrow> nat" where
  "row_at x = unat (the (row_address (the x)))"

definition row_range :: "dwarf_row ptr \<Rightarrow> dwarf_row ptr \<Rightarrow> range_view list" where
  "row_range x y =
     (if starts x \<and> row_at x < row_at y
      then [(row_at x, row_at y, the (row_source (the x)), word_of_int (the (row_line (the x))),
             if the (row_column (the x)) > 0 then word_of_int (the (row_column (the x))) else 0)]
      else [])"

definition unit_ranges :: "dwarf_row ptr list \<Rightarrow> range_view list" where
  "unit_ranges rows = concat (map2 row_range rows (tl rows))"

definition line_view :: "string list \<Rightarrow> DebugLine \<Rightarrow> range_view" where
  "line_view files l =
     (unat (range_begin l), unat (range_end l), files ! source_file l, source_line l, source_column l)"

text \<open>The invariant of the table under construction, for a RAM size, and what a step may change.\<close>

definition table_ok :: "nat \<Rightarrow> DebugInfo \<Rightarrow> bool" where
  "table_ok ram d \<longleftrightarrow>
     distinct (debug_files d) \<and> length (debug_files d) \<le> MAX_SOURCE_FILES
     \<and> length (debug_lines d) \<le> MAX_DEBUG_RECORDS \<and> length (debug_symbols d) \<le> MAX_DEBUG_RECORDS
     \<and> (\<forall>f\<in>set (debug_files d). length f < MAX_DEBUG_TEXT)
     \<and> (\<forall>s\<in>set (debug_symbols d). length (symbol_name s) < MAX_DEBUG_TEXT \<and> symbol_name s \<noteq> [])
     \<and> (\<forall>l\<in>set (debug_lines d). range_begin l < range_end l \<and> unat (range_end l) \<le> ram
          \<and> source_file l < length (debug_files d))"

definition reader_ok :: "nat \<Rightarrow> reader \<Rightarrow> bool" where
  "reader_ok ram r \<longleftrightarrow> table_ok ram (info r)
     \<and> line_capacity r \<le> MAX_DEBUG_RECORDS \<and> file_capacity r \<le> MAX_DEBUG_RECORDS"

definition views :: "reader \<Rightarrow> range_view list" where
  "views r = map (line_view (debug_files (info r))) (debug_lines (info r))"

definition grows :: "nat \<Rightarrow> reader \<Rightarrow> reader \<Rightarrow> range_view list \<Rightarrow> bool" where
  "grows ram r r' new \<longleftrightarrow> reader_ok ram r' \<and> debug_symbols (info r') = debug_symbols (info r)
     \<and> (\<exists>more_files. debug_files (info r') = debug_files (info r) @ more_files) \<and> views r' = views r @ new"

lemma grows_refl: "reader_ok ram r \<Longrightarrow> grows ram r r []"
  by (simp add: grows_def)

lemma grows_trans: "grows ram r r1 xs \<Longrightarrow> grows ram r1 r2 ys \<Longrightarrow> grows ram r r2 (xs @ ys)"
  by (auto simp: grows_def)

lemma grows_ok: "grows ram r r' new \<Longrightarrow> reader_ok ram r'"
  by (simp add: grows_def)

lemma grows_file: "grows ram r r' new \<Longrightarrow> i < length (debug_files (info r)) \<Longrightarrow>
    i < length (debug_files (info r')) \<and> debug_files (info r') ! i = debug_files (info r) ! i"
  by (auto simp: grows_def nth_append)

lemma reserve_room:
  "reserve alloc n capacity width = Some c \<Longrightarrow> capacity \<le> MAX_DEBUG_RECORDS \<Longrightarrow>
    n < MAX_DEBUG_RECORDS \<and> c \<le> MAX_DEBUG_RECORDS"
  by (auto simp: reserve_def Let_def MAX_DEBUG_RECORDS_def split: if_splits)

lemma find_file_Some:
  "find_file fs p k = Some i \<Longrightarrow> k \<le> i \<and> i - k < length fs \<and> fs ! (i - k) = p"
  by (induction fs p k rule: find_file.induct) (fastforce simp: nth_Cons' split: if_splits)+

lemma find_file_None: "find_file fs p k = None \<longleftrightarrow> p \<notin> set fs"
  by (induction fs p k rule: find_file.induct) auto

lemma copy_text_Ref:
  "copy_text alloc (Ref t) = Ref c \<Longrightarrow> c = t \<and> length t < MAX_DEBUG_TEXT"
  by (auto simp: copy_text_def Let_def min_def split: if_splits)

lemma file_index_grows:
  assumes "file_index alloc r path = Some (r', i)" "reader_ok ram r"
  shows "grows ram r r' [] \<and> debug_lines (info r') = debug_lines (info r)
    \<and> i < length (debug_files (info r')) \<and> path = Ref (debug_files (info r') ! i)"
proof -
  let ?files = "debug_files (info r)"
  from assms(1) obtain p where p: "path = Ref p" by (cases path) (simp_all add: file_index_def)
  show ?thesis
  proof (cases "find_file ?files p 0")
    case (Some j)
    with assms p have "r' = r" "j = i" by (simp_all add: file_index_def)
    with find_file_Some [OF Some] p assms(2) show ?thesis by (simp add: grows_refl)
  next
    case None
    with assms(1) p obtain copy capacity where
      room: "length ?files < MAX_SOURCE_FILES" and copy: "copy_text alloc (Ref p) = Ref copy"
      and cap: "reserve alloc (length ?files) (file_capacity r) 8 = Some capacity"
      and r': "r' = r\<lparr>info := (info r)\<lparr>debug_files := ?files @ [copy]\<rparr>, file_capacity := capacity\<rparr>"
      and i: "i = length ?files"
      by (auto simp: file_index_def Let_def split: if_splits option.splits)
    have "copy = p" "length p < MAX_DEBUG_TEXT" using copy_text_Ref [OF copy] by simp_all
    moreover have "p \<notin> set ?files" using None by (simp add: find_file_None)
    moreover have "capacity \<le> MAX_DEBUG_RECORDS"
      using reserve_room [OF cap] assms(2) by (simp add: reader_ok_def)
    ultimately have "reader_ok ram r'"
      using assms(2) room by (auto simp: reader_ok_def table_ok_def r')
    moreover have "views r' = views r"
      using assms(2) by (auto simp: views_def line_view_def r' reader_ok_def table_ok_def nth_append)
    ultimately show ?thesis using p \<open>copy = p\<close> by (simp add: grows_def r' i)
  qed
qed

lemma append_line_grows:
  assumes "append_line alloc r l = Some r'" "reader_ok ram r"
    "range_begin l < range_end l" "unat (range_end l) \<le> ram" "source_file l < length (debug_files (info r))"
  shows "grows ram r r' [line_view (debug_files (info r)) l]"
proof -
  from assms(1) obtain capacity where
    cap: "reserve alloc (length (debug_lines (info r))) (line_capacity r) 32 = Some capacity"
    and r': "r' = r\<lparr>info := (info r)\<lparr>debug_lines := debug_lines (info r) @ [l]\<rparr>, line_capacity := capacity\<rparr>"
    by (auto simp: append_line_def split: option.splits)
  have "length (debug_lines (info r)) < MAX_DEBUG_RECORDS" "capacity \<le> MAX_DEBUG_RECORDS"
    using reserve_room [OF cap] assms(2) by (simp_all add: reader_ok_def)
  with assms(2-5) have "reader_ok ram r'" by (auto simp: reader_ok_def table_ok_def r')
  then show ?thesis by (simp add: grows_def views_def r')
qed

lemma read_files_grows:
  "read_files alloc paths r = Some r' \<Longrightarrow> reader_ok ram r \<Longrightarrow> grows ram r r' []"
proof (induction alloc paths r rule: read_files.induct)
  case (3 alloc p paths r)
  then obtain r1 i where step: "file_index alloc r (Ref p) = Some (r1, i)"
    and run: "read_files alloc paths r1 = Some r'" by (auto split: option.splits)
  have g: "grows ram r r1 []" using file_index_grows [OF step "3.prems"(2)] by simp
  have "grows ram r1 r' []" using 3 step run grows_ok [OF g] by auto
  with g show ?case using grows_trans by fastforce
qed (simp_all add: grows_refl)

text \<open>The pending range stands for the row read last, if that one starts a statement.\<close>

definition pending_of :: "reader \<Rightarrow> dwarf_row ptr \<Rightarrow> DebugLine option \<Rightarrow> bool" where
  "pending_of r x pending \<longleftrightarrow>
     (if starts x
      then \<exists>l. pending = Some l \<and> unat (range_begin l) = row_at x \<and> source_file l < length (debug_files (info r))
        \<and> row_source (the x) = Ref (debug_files (info r) ! source_file l)
        \<and> source_line l = word_of_int (the (row_line (the x)))
        \<and> source_column l = (if the (row_column (the x)) > 0 then word_of_int (the (row_column (the x))) else 0)
      else pending = None)"

lemma close_pending_grows:
  assumes "close_pending alloc address r pending = Some r'" "reader_ok ram r" "pending_of r x pending"
    "unat address \<le> ram" "ram < 2 ^ 32" "row_address (the y) = Some address"
  shows "grows ram r r' (row_range x y)"
proof (cases pending)
  case None
  then have "\<not> starts x" using assms(3) by (auto simp: pending_of_def split: if_splits)
  with None assms(1,2) show ?thesis by (simp add: close_pending_def row_range_def grows_refl)
next
  case (Some l)
  then have x: "starts x" "unat (range_begin l) = row_at x" "source_file l < length (debug_files (info r))"
      "row_source (the x) = Ref (debug_files (info r) ! source_file l)"
      "source_line l = word_of_int (the (row_line (the x)))"
      "source_column l = (if the (row_column (the x)) > 0 then word_of_int (the (row_column (the x))) else 0)"
    using assms(3) by (simp_all add: pending_of_def split: if_splits)
  have address: "unat (ucast address :: u32) = unat address"
    using assms(4,5) by (simp add: unsigned_ucast_eq take_bit_nat_eq_self)
  have wide: "unat (ucast (range_begin l) :: u64) = row_at x"
    using x(2) unsigned_less [of "range_begin l", where ?'a = nat]
    by (simp add: unsigned_ucast_eq take_bit_nat_eq_self)
  have order: "address < ucast (range_begin l) \<longleftrightarrow> row_at y < row_at x"
    "address > ucast (range_begin l) \<longleftrightarrow> row_at x < row_at y"
    using wide by (simp_all add: word_less_nat_alt row_at_def assms(6))
  show ?thesis
  proof (cases "row_at x < row_at y")
    case False
    with assms(1,2) Some show ?thesis
      by (simp add: close_pending_def order row_range_def grows_refl split: if_splits)
  next
    case True
    let ?l = "l\<lparr>range_end := ucast address\<rparr>"
    have "append_line alloc r ?l = Some r'"
      using assms(1) Some True by (simp add: close_pending_def order split: if_splits)
    moreover have "range_begin ?l < range_end ?l" "unat (range_end ?l) \<le> ram"
      using True x(2) address assms(4,6) by (simp_all add: word_less_nat_alt row_at_def)
    ultimately have "grows ram r r' [line_view (debug_files (info r)) ?l]"
      using append_line_grows [OF _ assms(2)] x(3) by simp
    moreover have "row_range x y = [line_view (debug_files (info r)) ?l]"
      using True x address by (simp add: row_range_def line_view_def row_at_def [of y] assms(6))
    ultimately show ?thesis by simp
  qed
qed

lemma open_pending_grows:
  assumes "open_pending alloc (the y) address r = Some (r', pending)" "reader_ok ram r"
    "unat address \<le> ram" "ram < 2 ^ 32" "row_address (the y) = Some address" "row_end (the y) = Some False"
  shows "grows ram r r' [] \<and> pending_of r' y pending"
proof -
  from assms(1) obtain line column where row: "row_line (the y) = Some line" "row_column (the y) = Some column"
    by (auto simp: open_pending_def split: option.splits)
  show ?thesis
  proof (cases "line > 0")
    case False
    with assms row show ?thesis
      by (auto simp: open_pending_def pending_of_def starts_def grows_refl)
  next
    case True
    with assms(1) row obtain i where index: "file_index alloc r (row_source (the y)) = Some (r', i)"
      and pending: "pending = Some (zero_line\<lparr>range_begin := ucast address, source_file := i,
           source_line := word_of_int line, source_column := (if column > 0 then word_of_int column else 0)\<rparr>)"
      by (auto simp: open_pending_def split: option.splits)
    have "unat (ucast address :: u32) = unat address"
      using assms(3,4) by (simp add: unsigned_ucast_eq take_bit_nat_eq_self)
    with file_index_grows [OF index assms(2)] True row assms(5,6) show ?thesis
      by (simp add: pending_of_def starts_def pending row_at_def)
  qed
qed

lemma read_row_grows:
  assumes "read_row alloc ram y r pending = Some (r', pending')" "reader_ok ram r" "pending_of r x pending"
    "ram < 2 ^ 32"
  shows "grows ram r r' (row_range x y) \<and> pending_of r' y pending'"
proof -
  from assms(1) obtain address ended r1 where y: "row_address (the y) = Some address" "row_end (the y) = Some ended"
      "unat address \<le> ram" and close: "close_pending alloc address r pending = Some r1"
    and rest: "if ended then r' = r1 \<and> pending' = None else open_pending alloc (the y) address r1 = Some (r', pending')"
    by (auto simp: read_row_def split: option.splits if_splits)
  note g = close_pending_grows [OF close assms(2,3) y(3) assms(4) y(1)]
  show ?thesis
  proof (cases ended)
    case True
    with rest g y show ?thesis by (auto simp: pending_of_def starts_def)
  next
    case False
    with rest y have "grows ram r1 r' [] \<and> pending_of r' y pending'"
      using open_pending_grows [OF _ grows_ok [OF g] y(3) assms(4) y(1)] by simp
    with g show ?thesis using grows_trans by fastforce
  qed
qed

lemma read_rows_grows:
  "read_rows alloc ram rows r pending = Some (r', pending') \<Longrightarrow> reader_ok ram r \<Longrightarrow> pending_of r x pending \<Longrightarrow>
    ram < 2 ^ 32 \<Longrightarrow> grows ram r r' (concat (map2 row_range (x # rows) rows))"
proof (induction alloc ram rows r pending arbitrary: x rule: read_rows.induct)
  case (2 alloc ram row rows r pending)
  then obtain r1 pending1 where step: "read_row alloc ram row r pending = Some (r1, pending1)"
    and run: "read_rows alloc ram rows r1 pending1 = Some (r', pending')" by (auto split: option.splits)
  have g: "grows ram r r1 (row_range x row)" "pending_of r1 row pending1"
    using read_row_grows [OF step "2.prems"(2-4)] by simp_all
  have "grows ram r1 r' (concat (map2 row_range (row # rows) rows))"
    using "2.IH" [OF step refl run grows_ok [OF g(1)] g(2) "2.prems"(4)] by simp
  from grows_trans [OF g(1) this] show ?case by simp
qed (simp_all add: grows_refl)

lemma read_unit_grows:
  assumes "read_unit alloc ram u r = Some r'" "reader_ok ram r" "ram < 2 ^ 32"
  shows "grows ram r r' (unit_ranges (unit_rows u))"
proof -
  from assms(1) obtain r1 where files: "read_files alloc (unit_files u) r = Some r1"
    and rows: "read_rows alloc ram (unit_rows u) r1 None = Some (r', None)"
    by (auto simp: read_unit_def split: option.splits prod.splits)
  note g = read_files_grows [OF files assms(2)]
  show ?thesis
  proof (cases "unit_rows u")
    case Nil
    with rows g show ?thesis by (simp add: unit_ranges_def)
  next
    case (Cons y ys)
    let ?x = "Some \<lparr>row_address = None, row_end = Some True, row_line = None, row_column = None, row_source = NULL\<rparr>"
    have none: "\<not> starts ?x" by (simp add: starts_def)
    then have "pending_of r1 ?x None" by (simp add: pending_of_def)
    from read_rows_grows [OF rows grows_ok [OF g] this assms(3)]
    have "grows ram r1 r' (unit_ranges (unit_rows u))"
      using none by (simp add: Cons unit_ranges_def row_range_def [of ?x])
    with g show ?thesis using grows_trans by fastforce
  qed
qed

subsection \<open>The units and the symbols\<close>

text \<open>
  The units that the library hands out one after the other, from an offset on: every unit leads to
  a greater offset, and the last answer tells the end.
\<close>

inductive dwarf_units :: "('cu \<Rightarrow> u64 \<Rightarrow> 'cu \<times> dwarf_unit) \<Rightarrow> 'cu \<Rightarrow> u64 \<Rightarrow> dwarf_unit list \<Rightarrow> bool"
  for next_lines where
  finish: "next_lines cu offset = (cu', u) \<Longrightarrow> unit_status u > 0 \<Longrightarrow> dwarf_units next_lines cu offset []"
| unit: "next_lines cu offset = (cu', u) \<Longrightarrow> unit_status u = 0 \<Longrightarrow> offset < unit_next u \<Longrightarrow>
    dwarf_units next_lines cu' (unit_next u) us \<Longrightarrow> dwarf_units next_lines cu offset (u # us)"

lemma read_units_grows:
  "read_units alloc ram next_lines cu offset r = Some r' \<Longrightarrow> reader_ok ram r \<Longrightarrow> ram < 2 ^ 32 \<Longrightarrow>
    \<exists>us. dwarf_units next_lines cu offset us \<and> grows ram r r' (concat (map (unit_ranges \<circ> unit_rows) us))"
proof (induction alloc ram next_lines cu offset r rule: read_units.induct)
  case (1 alloc ram next_lines cu offset r)
  obtain cu1 u where answer: "next_lines cu offset = (cu1, u)" by fastforce
  note run = "1.prems"(1) [unfolded read_units.simps [of alloc ram next_lines cu offset] answer prod.case]
  show ?case
  proof (cases "unit_status u = 0")
    case False
    with run have "unit_status u > 0" "r' = r" by (simp_all split: if_splits)
    with answer "1.prems"(2) show ?thesis
      by (intro exI [of _ "[]"]) (simp add: dwarf_units.finish grows_refl)
  next
    case True
    with run obtain r1 where guard: "\<not> (unit_next u \<le> offset \<or> length (unit_rows u) > MAX_DEBUG_RECORDS
          \<or> length (unit_files u) > MAX_SOURCE_FILES)"
      and step: "read_unit alloc ram u r = Some r1"
      and rest: "read_units alloc ram next_lines cu1 (unit_next u) r1 = Some r'"
      by (simp split: if_splits option.splits)
    note g = read_unit_grows [OF step "1.prems"(2,3)]
    have "\<not> unit_status u \<noteq> 0" using True by simp
    from "1.IH" [OF answer [symmetric] this guard step rest grows_ok [OF g] "1.prems"(3)]
    obtain us where us: "dwarf_units next_lines cu1 (unit_next u) us"
      "grows ram r1 r' (concat (map (unit_ranges \<circ> unit_rows) us))" by blast
    with answer True guard grows_trans [OF g us(2)] show ?thesis
      by (intro exI [of _ "u # us"]) (simp add: dwarf_units.unit not_le comp_def)
  qed
qed

text \<open>The symbols that the code keeps, of those in the symbol tables.\<close>

definition wanted :: "elf_symbol \<Rightarrow> bool" where
  "wanted s \<longleftrightarrow> st_shndx s \<noteq> 0 \<and> st_type s \<le> 2 \<and> the (st_name s) \<noteq> ''''"

definition symbol_of :: "elf_symbol \<Rightarrow> DebugSymbol" where
  "symbol_of s = \<lparr>symbol_name = the (st_name s), symbol_address = ucast (st_value s),
     symbol_size = ucast (st_size s), symbol_function = (st_type s = 2)\<rparr>"

definition section_symbols :: "elf_section ptr \<Rightarrow> elf_symbol list" where
  "section_symbols section =
     (if sh_type (the section) = 2
      then map (\<lambda>j. the (symbol_at (the section) j)) [0..<unat (sh_size (the section) div sh_entsize (the section))]
      else [])"

definition symbols_ok :: "DebugSymbol list \<times> nat \<Rightarrow> bool" where
  "symbols_ok state \<longleftrightarrow> length (fst state) \<le> MAX_DEBUG_RECORDS \<and> snd state \<le> MAX_DEBUG_RECORDS
     \<and> (\<forall>s\<in>set (fst state). length (symbol_name s) < MAX_DEBUG_TEXT \<and> symbol_name s \<noteq> [])"

definition adds :: "DebugSymbol list \<times> nat \<Rightarrow> DebugSymbol list \<times> nat \<Rightarrow> elf_symbol list \<Rightarrow> bool" where
  "adds state state' ss \<longleftrightarrow> symbols_ok state' \<and> fst state' = fst state @ map symbol_of (filter wanted ss)"

lemma adds_refl: "symbols_ok state \<Longrightarrow> adds state state []"
  by (simp add: adds_def)

lemma adds_trans: "adds s s1 xs \<Longrightarrow> adds s1 s2 ys \<Longrightarrow> adds s s2 (xs @ ys)"
  by (simp add: adds_def)

lemma read_symbol_adds:
  assumes "read_symbol alloc symbol state = Some state'" "symbols_ok state"
  shows "adds state state' [the symbol]"
proof -
  from assms(1) obtain s where s: "symbol = Ref s" by (cases symbol) (simp_all add: read_symbol_def)
  have "(st_type s \<noteq> 2 \<and> st_type s \<noteq> 1 \<and> st_type s \<noteq> 0) \<longleftrightarrow> \<not> st_type s \<le> 2" by auto
  then have step: "(if st_shndx s = 0 \<or> \<not> st_type s \<le> 2 then Some state
      else case st_name s of NULL \<Rightarrow> None
      | Ref name \<Rightarrow> if name = '''' then Some state
      else case copy_text alloc (Ref name) of NULL \<Rightarrow> None
      | Ref copy \<Rightarrow> case reserve alloc (length (fst state)) (snd state) 24 of None \<Rightarrow> None
      | Some capacity \<Rightarrow> Some (fst state @ [\<lparr>symbol_name = copy, symbol_address = ucast (st_value s),
            symbol_size = ucast (st_size s), symbol_function = (st_type s = 2)\<rparr>], capacity)) = Some state'"
    using assms(1) by (simp only: read_symbol_def s option.case)
  show ?thesis
  proof (cases "wanted s")
    case False
    with step have "state' = state" by (auto simp: wanted_def split: option.splits if_splits)
    with False assms(2) s show ?thesis by (simp add: adds_def)
  next
    case True
    then have "\<not> (st_shndx s = 0 \<or> \<not> st_type s \<le> 2)" by (simp add: wanted_def)
    from step [unfolded if_not_P [OF this]] True obtain name copy capacity where
      name: "st_name s = Ref name" "name \<noteq> ''''"
      and copy: "copy_text alloc (Ref name) = Ref copy"
      and cap: "reserve alloc (length (fst state)) (snd state) 24 = Some capacity"
      and state': "state' = (fst state @ [\<lparr>symbol_name = copy, symbol_address = ucast (st_value s),
            symbol_size = ucast (st_size s), symbol_function = (st_type s = 2)\<rparr>], capacity)"
      by (auto simp: wanted_def split: option.splits if_splits)
    have "copy = name" "length name < MAX_DEBUG_TEXT" using copy_text_Ref [OF copy] by simp_all
    moreover have "length (fst state) < MAX_DEBUG_RECORDS" "capacity \<le> MAX_DEBUG_RECORDS"
      using reserve_room [OF cap] assms(2) by (simp_all add: symbols_ok_def)
    ultimately show ?thesis
      using True assms(2) name by (simp add: adds_def symbols_ok_def state' s symbol_of_def Suc_le_eq)
  qed
qed

lemma read_entries_adds:
  "read_entries alloc at js state = Some state' \<Longrightarrow> symbols_ok state \<Longrightarrow>
    adds state state' (map (\<lambda>j. the (at j)) js)"
proof (induction alloc at js state rule: read_entries.induct)
  case (2 alloc at j js state)
  then obtain s1 where step: "read_symbol alloc (at j) state = Some s1"
    and run: "read_entries alloc at js s1 = Some state'" by (auto split: option.splits)
  note a = read_symbol_adds [OF step "2.prems"(2)]
  then have "symbols_ok s1" by (simp add: adds_def)
  with 2 step run have "adds s1 state' (map (\<lambda>j. the (at j)) js)" by simp
  from adds_trans [OF a this] show ?case by simp
qed (simp add: adds_refl)

lemma read_section_adds:
  assumes "read_section alloc strings section hd0 state = Some (hd1, state')" "symbols_ok state"
  shows "adds state state' (section_symbols section)"
  using assms
  by (auto simp: read_section_def section_symbols_def Let_def adds_refl dest!: read_entries_adds
      split: option.splits if_splits)

lemma read_sections_adds:
  "read_sections alloc strings sections hd0 state = Some (hd1, state') \<Longrightarrow> symbols_ok state \<Longrightarrow>
    adds state state' (concat (map section_symbols sections))"
proof (induction alloc strings sections hd0 state rule: read_sections.induct)
  case (2 alloc strings sec sections hd0 state)
  then obtain hd2 s1 where step: "read_section alloc strings sec hd0 state = Some (hd2, s1)"
    and run: "read_sections alloc strings sections hd2 s1 = Some (hd1, state')" by (auto split: option.splits)
  note a = read_section_adds [OF step "2.prems"(2)]
  then have "symbols_ok s1" by (simp add: adds_def)
  with 2 step run have "adds s1 state' (concat (map section_symbols sections))" by simp
  from adds_trans [OF a this] show ?case by simp
qed (simp add: adds_refl)

lemma debug_read_symbols_Some:
  assumes "debug_read_symbols alloc elf = Some (symbols, has_debug)"
  shows "symbols = map symbol_of (filter wanted
      (concat (map (section_symbols \<circ> section_at elf) [1..<the (section_count elf)])))"
    "symbols_ok (symbols, 0)"
proof -
  from assms obtain n strings cap where n: "section_count elf = Some n"
    and run: "read_sections alloc strings (map (section_at elf) [1..<n]) False ([], 0) = Some (has_debug, symbols, cap)"
    by (auto simp: debug_read_symbols_def split: option.splits)
  have "symbols_ok ([], 0)" by (simp add: symbols_ok_def)
  note added = read_sections_adds [OF run this]
  then show "symbols = map symbol_of (filter wanted
      (concat (map (section_symbols \<circ> section_at elf) [1..<the (section_count elf)])))"
    by (simp add: adds_def n)
  have "symbols_ok (symbols, cap)" using added unfolding adds_def by blast
  then show "symbols_ok (symbols, 0)" by (simp add: symbols_ok_def)
qed

subsection \<open>Sorting\<close>

text \<open>
  What \<^verbatim>\<open>qsort\<close> asks of a comparison, and what it promises in return: a permutation in order.
\<close>

definition sorts :: "('a \<Rightarrow> 'a \<Rightarrow> int) \<Rightarrow> 'a sorter \<Rightarrow> bool" where
  "sorts cmp sort_fun \<longleftrightarrow>
     (\<forall>xs. mset (sort_fun cmp xs) = mset xs \<and> sorted_wrt (\<lambda>a b. cmp a b \<le> 0) (sort_fun cmp xs))"

fun insert_by :: "('a \<Rightarrow> 'a \<Rightarrow> int) \<Rightarrow> 'a \<Rightarrow> 'a list \<Rightarrow> 'a list" where
  "insert_by cmp x [] = [x]"
| "insert_by cmp x (y # ys) = (if cmp x y \<le> 0 then x # y # ys else y # insert_by cmp x ys)"

definition insertion_sort :: "'a sorter" where
  "insertion_sort cmp xs = foldr (insert_by cmp) xs []"

locale comparison =
  fixes cmp :: "'a \<Rightarrow> 'a \<Rightarrow> int"
  assumes swap: "cmp b a = - cmp a b"
    and le_trans: "cmp a b \<le> 0 \<Longrightarrow> cmp b c \<le> 0 \<Longrightarrow> cmp a c \<le> 0"
begin

lemma le_refl: "cmp a a \<le> 0"
  using swap [of a a] by simp

lemma not_le: "\<not> cmp a b \<le> 0 \<Longrightarrow> cmp b a \<le> 0"
  using swap [of b a] by simp

lemma mset_insert_by: "mset (insert_by cmp x xs) = add_mset x (mset xs)"
  by (induction xs) auto

lemma sorted_insert_by:
  "sorted_wrt (\<lambda>a b. cmp a b \<le> 0) xs \<Longrightarrow> sorted_wrt (\<lambda>a b. cmp a b \<le> 0) (insert_by cmp x xs)"
proof (induction xs)
  case (Cons y ys)
  have "set (insert_by cmp x ys) = insert x (set ys)"
    using mset_insert_by [of x ys] by (metis set_mset_add_mset_insert set_mset_mset)
  with Cons show ?case by (auto intro: le_trans not_le)
qed simp

lemma insertion_sort_sorts: "sorts cmp insertion_sort"
proof -
  have "mset (insertion_sort cmp xs) = mset xs \<and> sorted_wrt (\<lambda>a b. cmp a b \<le> 0) (insertion_sort cmp xs)" for xs
    by (induction xs) (simp_all add: insertion_sort_def mset_insert_by sorted_insert_by)
  then show ?thesis by (simp add: sorts_def)
qed

end

lemma strcmp_swap: "strcmp ys xs = - strcmp xs ys"
  by (induction xs ys rule: strcmp.induct) (auto simp: linorder_neq_iff)

lemma strcmp_trans: "strcmp xs ys \<le> 0 \<Longrightarrow> strcmp ys zs \<le> 0 \<Longrightarrow> strcmp xs zs \<le> 0"
proof (induction xs zs arbitrary: ys rule: strcmp.induct)
  case (4 x xs z zs)
  then show ?case by (cases ys) (auto split: if_splits)
next
  case (3 x xs)
  then show ?case by (cases ys) simp_all
qed simp_all

lemma strcmp_eq_iff: "strcmp xs ys = 0 \<longleftrightarrow> xs = ys"
  by (induction xs ys rule: strcmp.induct) auto

interpretation line_order: comparison compare_lines
  by unfold_locales (auto simp: compare_lines_def split: if_splits)

interpretation symbol_order: comparison compare_symbols
proof unfold_locales
  show "compare_symbols b a = - compare_symbols a b" for a b
    using strcmp_swap [of "symbol_name a" "symbol_name b"] by (auto simp: compare_symbols_def)
  show "compare_symbols a b \<le> 0 \<Longrightarrow> compare_symbols b c \<le> 0 \<Longrightarrow> compare_symbols a c \<le> 0" for a b c
    by (auto simp: compare_symbols_def intro: strcmp_trans split: if_splits)
qed

subsection \<open>Finished tables\<close>

text \<open>What reading does to the table that the libraries' data give: both arrays are sorted, then the maxima are set.\<close>

definition finished :: "DebugLine sorter \<Rightarrow> DebugSymbol sorter \<Rightarrow> DebugInfo \<Rightarrow> DebugInfo" where
  "finished sort_lines sort_symbols d = d
     \<lparr>debug_lines := set_maximum 0
        (if length (debug_lines d) > 1 then sort_lines compare_lines (debug_lines d) else debug_lines d),
      debug_symbols :=
        (if length (debug_symbols d) > 1 then sort_symbols compare_symbols (debug_symbols d) else debug_symbols d)\<rparr>"

lemma sorts_short:
  assumes "sorts cmp f"
  shows "mset (if length xs > 1 then f cmp xs else xs) = mset xs"
    "sorted_wrt (\<lambda>a b. cmp a b \<le> 0) (if length xs > 1 then f cmp xs else xs)"
  using assms by (auto simp: sorts_def not_less Suc_le_eq le_Suc_eq length_Suc_conv)

lemma set_maximum_map:
  "(\<And>l m. f (l\<lparr>maximum_end := m\<rparr>) = f l) \<Longrightarrow> map f (set_maximum m ls) = map f ls"
  by (induction ls arbitrary: m) (simp_all add: Let_def)

lemma set_maximum_wf:
  assumes "sorted_wrt (\<lambda>a b. compare_lines a b \<le> 0) ls"
  shows "lines_wf (set_maximum 0 ls)"
proof -
  let ?ls = "set_maximum 0 ls"
  have bounds: "range_begin (?ls ! i) = range_begin (ls ! i)" "range_end (?ls ! i) = range_end (ls ! i)"
    if "i < length ls" for i using that by (simp_all add: set_maximum_nth)
  have "compare_lines (?ls ! i) (?ls ! j) \<le> 0" if "i < j" "j < length ls" for i j
    using that sorted_wrt_nth_less [OF assms that] bounds [of i] bounds [of j] by (simp add: compare_lines_le)
  then have "sorted_wrt (\<lambda>a b. compare_lines a b \<le> 0) ?ls" by (simp add: sorted_wrt_iff_nth_less)
  moreover have "maximum_end (?ls ! i) = Max (range_end ` set (take (Suc i) ?ls))" if i: "i < length ls" for i
  proof -
    have "range_end ` set (take (Suc i) ?ls) = set (take (Suc i) (map range_end ?ls))"
      by (simp add: take_map)
    also have "map range_end ?ls = map range_end ls" by (rule set_maximum_map) simp
    also have "set (take (Suc i) (map range_end ls)) = range_end ` set (take (Suc i) ls)"
      by (simp add: take_map)
    finally have ends: "range_end ` set (take (Suc i) ?ls) = range_end ` set (take (Suc i) ls)" .
    have "ls ! 0 \<in> set (take (Suc i) ls)" using i by (cases ls) simp_all
    then have "Max (insert 0 (range_end ` set (take (Suc i) ls))) = Max (range_end ` set (take (Suc i) ls))"
      by (subst Max_insert) auto
    with i ends show ?thesis by (simp add: set_maximum_nth)
  qed
  ultimately show ?thesis by (simp add: lines_wf_def)
qed

lemma finished_ok:
  assumes "table_ok ram d" "sorts compare_lines sl" "sorts compare_symbols ss"
  shows "table_ok ram (finished sl ss d)" "lines_wf (debug_lines (finished sl ss d))"
    "sorted_wrt (\<lambda>a b. compare_symbols a b \<le> 0) (debug_symbols (finished sl ss d))"
    "debug_files (finished sl ss d) = debug_files d"
    "mset (debug_symbols (finished sl ss d)) = mset (debug_symbols d)"
    "mset (map (line_view fs) (debug_lines (finished sl ss d))) = mset (map (line_view fs) (debug_lines d))"
proof -
  let ?d = "finished sl ss d"
  define ls where "ls = (if length (debug_lines d) > 1 then sl compare_lines (debug_lines d) else debug_lines d)"
  note lines = sorts_short [OF assms(2), of "debug_lines d", folded ls_def]
  note symbols = sorts_short [OF assms(3), of "debug_symbols d"]
  have d: "debug_lines ?d = set_maximum 0 ls" by (simp add: finished_def ls_def)
  show "debug_files ?d = debug_files d" by (simp add: finished_def)
  show sym: "mset (debug_symbols ?d) = mset (debug_symbols d)" using symbols(1) by (simp add: finished_def)
  show "sorted_wrt (\<lambda>a b. compare_symbols a b \<le> 0) (debug_symbols ?d)"
    using symbols(2) by (simp add: finished_def)
  show "lines_wf (debug_lines ?d)" unfolding d by (rule set_maximum_wf [OF lines(2)])
  have "map (line_view fs) (set_maximum 0 ls) = map (line_view fs) ls"
    by (rule set_maximum_map) (simp add: line_view_def)
  then show "mset (map (line_view fs) (debug_lines ?d)) = mset (map (line_view fs) (debug_lines d))"
    unfolding d using lines(1) by (metis mset_map)
  define ok where "ok l \<longleftrightarrow> range_begin l < range_end l \<and> unat (range_end l) \<le> ram
      \<and> source_file l < length (debug_files d)" for l :: DebugLine
  have "map ok (set_maximum 0 ls) = map ok ls" by (rule set_maximum_map) (simp add: ok_def)
  then have "ok ` set (debug_lines ?d) = ok ` set (debug_lines d)"
    unfolding d using mset_eq_setD [OF lines(1)] by (metis set_map)
  moreover have "ok l" if "l \<in> set (debug_lines d)" for l using that assms(1) by (simp add: table_ok_def ok_def)
  ultimately have "\<forall>l\<in>set (debug_lines ?d). ok l" by (metis (no_types, lifting) imageE imageI)
  moreover have "length (debug_lines ?d) = length (debug_lines d)" unfolding d
    using mset_eq_length [OF lines(1)] by simp
  ultimately show "table_ok ram ?d"
    using assms(1) mset_eq_setD [OF sym] mset_eq_length [OF sym]
    by (simp add: table_ok_def ok_def) (simp add: finished_def)
qed

lemma table_ok_zero: "table_ok ram zero_debug"
  by (simp add: table_ok_def zero_debug_def)

text \<open>Where a table that was read comes from.\<close>

lemma debug_info_read_Inr:
  assumes run: "debug_info_read alloc sl ss elf_ok elf_memory (Ref p) (Ref out) = Inr d"
    and small: "mem_size (prog_memory p) < 2 ^ 32"
  obtains (plain) "prog_format p \<noteq> PROGRAM_ELF" "d = finished sl ss zero_debug"
  | (elf) elf symbols has_debug d0 where "prog_format p = PROGRAM_ELF"
      "elf_memory (take (elf_size p) (the (elf_data p))) = Ref elf"
      "debug_read_symbols alloc elf = Some (symbols, has_debug)"
      "d = finished sl ss d0" "debug_symbols d0 = symbols" "table_ok (mem_size (prog_memory p)) d0"
      "if has_debug then \<exists>next_lines cu us. line_tables elf = Ref (next_lines, cu) \<and> dwarf_units next_lines cu 0 us
           \<and> map (line_view (debug_files d0)) (debug_lines d0) = concat (map (unit_ranges \<circ> unit_rows) us)
       else debug_lines d0 = []"
proof (cases "prog_format p = PROGRAM_ELF")
  case False
  with run have "d = finished sl ss zero_debug"
    by (auto simp: debug_info_read_def finished_def zero_debug_def Let_def)
  with False show thesis by (rule plain)
next
  case True
  have fin: "(let next = (if length (debug_lines nx) > 1
                then nx\<lparr>debug_lines := sl compare_lines (debug_lines nx)\<rparr> else nx);
              next = (if length (debug_symbols next) > 1
                then next\<lparr>debug_symbols := ss compare_symbols (debug_symbols next)\<rparr> else next)
          in Inr (next\<lparr>debug_lines := set_maximum 0 (debug_lines next)\<rparr>)) = Inr (finished sl ss nx)" for nx
    by (auto simp: finished_def Let_def)
  from run True obtain elf where mem: "elf_memory (take (elf_size p) (the (elf_data p))) = Ref elf"
    by (simp add: debug_info_read_def Let_def split: if_splits option.splits)
  from run True mem obtain symbols has_debug where sym: "debug_read_symbols alloc elf = Some (symbols, has_debug)"
    by (auto simp: debug_info_read_def Let_def split: if_splits option.splits)
  let ?start = "zero_debug\<lparr>debug_symbols := symbols\<rparr>"
  obtain d0 where d0: "(if has_debug then debug_read_lines alloc elf ?start (mem_size (prog_memory p)) else Some ?start) = Some d0"
    "d = finished sl ss d0"
    using run True mem sym unfolding debug_info_read_def fin
    by (auto split: if_splits option.splits simp: Let_def [of "zero_debug\<lparr>debug_symbols := symbols\<rparr>"] Let_def [of "Some _"])
  have start: "table_ok (mem_size (prog_memory p)) ?start"
    using debug_read_symbols_Some(2) [OF sym] by (auto simp: table_ok_def symbols_ok_def zero_debug_def)
  show thesis
  proof (cases has_debug)
    case False
    with d0(1) have "d0 = ?start" by simp
    with True mem sym d0(2) start False show thesis by (intro elf) (auto simp: zero_debug_def)
  next
    case has: True
    let ?r = "\<lparr>info = ?start, line_capacity = 0, file_capacity = 0\<rparr>"
    from has d0(1) obtain next_lines cu r where lib: "line_tables elf = Ref (next_lines, cu)"
      and units: "read_units alloc (mem_size (prog_memory p)) next_lines cu 0 ?r = Some r" and "d0 = info r"
      by (auto simp: debug_read_lines_def split: option.splits prod.splits)
    have "reader_ok (mem_size (prog_memory p)) ?r" using start by (simp add: reader_ok_def)
    from read_units_grows [OF units this small] obtain us where us: "dwarf_units next_lines cu 0 us"
      "grows (mem_size (prog_memory p)) ?r r (concat (map (unit_ranges \<circ> unit_rows) us))" by blast
    then have "debug_symbols d0 = symbols" "table_ok (mem_size (prog_memory p)) d0"
      "map (line_view (debug_files d0)) (debug_lines d0) = concat (map (unit_ranges \<circ> unit_rows) us)"
      by (simp_all add: grows_def reader_ok_def views_def \<open>d0 = info r\<close> zero_debug_def)
    with True mem sym d0(2) has lib us(1) show thesis by (intro elf) auto
  qed
qed

subsection \<open>Properties\<close>

text \<open>
  C23. The invariant of the table. Whatever the libraries answer and whichever allocations fail, a
  table that was read has distinct file names and bounded counts and texts; its ranges are non-empty,
  lie in RAM and refer to recorded files; ranges and symbols are in order, and every range carries
  the greatest end up to it.
\<close>

theorem debug_info_read_wf:
  assumes "debug_info_read alloc sort_lines sort_symbols elf_ok elf_memory (Ref p) (Ref out) = Inr d"
    and "sorts compare_lines sort_lines" "sorts compare_symbols sort_symbols"
    and "memory_size_valid (mem_size (prog_memory p))"
  shows "table_ok (mem_size (prog_memory p)) d \<and> lines_wf (debug_lines d) \<and>
    sorted_wrt (\<lambda>a b. compare_symbols a b \<le> 0) (debug_symbols d)"
proof -
  have "mem_size (prog_memory p) < 2 ^ 32" using memory_size_validD [OF assms(4)] by simp
  from assms(1) this show ?thesis
  proof (cases rule: debug_info_read_Inr)
    case plain
    then show ?thesis using finished_ok [OF table_ok_zero assms(2,3)] by simp
  next
    case (elf elf symbols has_debug d0)
    then show ?thesis using finished_ok [OF elf(6) assms(2,3)] by simp
  qed
qed

text \<open>
  A library that hands out one unit with three rows, and a symbol table with one symbol.
\<close>

definition sample_row :: "u64 \<Rightarrow> bool \<Rightarrow> int \<Rightarrow> dwarf_row ptr" where
  "sample_row a ended line = Ref \<lparr>row_address = Some a, row_end = Some ended, row_line = Some line,
     row_column = Some 1, row_source = Ref ''a.c''\<rparr>"

definition sample_lines :: "nat \<Rightarrow> u64 \<Rightarrow> nat \<times> dwarf_unit" where
  "sample_lines cu offset =
     (if cu = 0
      then (1, \<lparr>unit_status = 0, unit_next = 40, unit_files = [Ref ''a.c'', NULL],
                unit_rows = [sample_row 0 False 3, sample_row 8 False 4, sample_row 12 True 4]\<rparr>)
      else (cu, \<lparr>unit_status = 1, unit_next = 0, unit_files = [], unit_rows = []\<rparr>))"

definition sample_section :: "nat \<Rightarrow> elf_section ptr" where
  "sample_section i =
     (if i = 1
      then Ref \<lparr>sh_name = Ref ''.debug_line'', sh_type = 1, sh_size = 60, sh_entsize = 0, names_type = None,
                data_found = True, symbol_at = (\<lambda>_. NULL)\<rparr>
      else Ref \<lparr>sh_name = Ref ''.symtab'', sh_type = 2, sh_size = 16, sh_entsize = 16, names_type = Some 3,
                data_found = True,
                symbol_at = (\<lambda>_. Ref \<lparr>st_type = 2, st_shndx = 1, st_value = 0, st_size = 12, st_name = Ref ''main''\<rparr>)\<rparr>)"

definition sample_elf :: "nat elf_file" where
  "sample_elf = \<lparr>section_count = Some 3, section_strings = Some 2, section_at = sample_section,
     line_tables = Ref (sample_lines, 0)\<rparr>"

definition sample_program :: program where
  "sample_program = (image_program PROGRAM_ELF 64 0 0 [0x13, 0, 0, 0])\<lparr>elf_data := Ref [127], elf_size := 1\<rparr>"

definition sample_table :: DebugInfo where
  "sample_table =
     \<lparr>debug_files = [''a.c''],
      debug_lines =
        [\<lparr>range_begin = 0, range_end = 8, maximum_end = 8, source_file = 0, source_line = 3, source_column = 1\<rparr>,
         \<lparr>range_begin = 8, range_end = 12, maximum_end = 12, source_file = 0, source_line = 4, source_column = 1\<rparr>],
      debug_symbols = [\<lparr>symbol_name = ''main'', symbol_address = 0, symbol_size = 12, symbol_function = True\<rparr>]\<rparr>"

lemma sample_symbols:
  "debug_read_symbols (\<lambda>_. True) sample_elf = Some (debug_symbols sample_table, True)"
  by (simp add: debug_read_symbols_def sample_elf_def read_section_def read_symbol_def sample_section_def
      copy_text_def reserve_def MAX_DEBUG_TEXT_def MAX_DEBUG_RECORDS_def sample_table_def upt_rec)

lemma sample_read:
  "debug_info_read (\<lambda>_. True) insertion_sort insertion_sort True (\<lambda>_. Ref sample_elf) (Ref sample_program) (Ref zero_debug)
    = Inr sample_table"
  by (simp add: debug_info_read_def sample_symbols debug_read_lines_def)
     (simp add: sample_program_def image_program_def sample_elf_def read_units.simps sample_lines_def read_unit_def
      file_index_def copy_text_def reserve_def MAX_DEBUG_TEXT_def MAX_DEBUG_RECORDS_def MAX_SOURCE_FILES_def
      read_row_def sample_row_def close_pending_def open_pending_def append_line_def insertion_sort_def
      compare_lines_def zero_debug_def zero_line_def Let_def sample_table_def)

lemma sample_table_wf: "lines_wf (debug_lines sample_table)"
  by (simp add: lines_wf_def sample_table_def compare_lines_le less_Suc_eq all_conj_distrib)

lemma sample_size: "memory_size_valid (mem_size (prog_memory sample_program))"
  by (simp add: sample_program_def image_program_def memory_size_valid_def size_simps)

theorem debug_info_read_wf_witness:
  "table_ok 64 sample_table \<and> lines_wf (debug_lines sample_table)"
proof -
  have "mem_size (prog_memory sample_program) = 64" by (simp add: sample_program_def image_program_def)
  then show ?thesis
    using debug_info_read_wf [OF sample_read line_order.insertion_sort_sorts symbol_order.insertion_sort_sorts sample_size]
    by simp
qed



lemma last_covering_greatest:
  "sorted_wrt (\<lambda>a b. compare_lines a b \<le> 0) ls \<Longrightarrow> last_covering ls address = Some l \<Longrightarrow>
    k \<in> set ls \<Longrightarrow> covers address k \<Longrightarrow> compare_lines k l \<le> 0"
proof (induction ls rule: rev_induct)
  case (snoc x ls)
  then show ?case
    by (auto simp: last_covering_def sorted_wrt_append line_order.le_refl split: if_splits)
qed simp

text \<open>
  C21. The binary search with its pruned scan agrees with a search of the whole table: in a table in
  order with its maxima, the lookup finds a range exactly if some range contains the address, and
  then the last one in the order, that is, one that no other range containing the address follows.
\<close>

theorem debug_lookup_exact:
  assumes "lines_wf (debug_lines d)"
  shows "debug_info_lookup (Ref d) address = last_covering (debug_lines d) address \<and>
    (debug_info_lookup (Ref d) address = NULL \<longleftrightarrow> (\<forall>l\<in>set (debug_lines d). \<not> covers address l)) \<and>
    (\<forall>l. debug_info_lookup (Ref d) address = Ref l \<longrightarrow> l \<in> set (debug_lines d) \<and> covers address l \<and>
       (\<forall>k\<in>set (debug_lines d). covers address k \<longrightarrow> compare_lines k l \<le> 0))"
proof -
  note found = lookup_finds [OF assms, of address]
  have "compare_lines k l \<le> 0"
    if "last_covering (debug_lines d) address = Ref l" "k \<in> set (debug_lines d)" "covers address k" for k l
    using last_covering_greatest [OF _ that] assms by (simp add: lines_wf_def)
  then show ?thesis
    using last_covering_iff [of "debug_lines d" address] by (simp add: found)
qed

theorem debug_lookup_exact_witness:
  "debug_info_lookup (Ref sample_table) 9 = Ref (debug_lines sample_table ! 1)"
  using debug_lookup_exact [OF sample_table_wf, of 9]
  by (simp add: last_covering_def) (simp add: sample_table_def covers_def)

text \<open>
  The address of a source line is the least one: in a table in order, a line of a file has an
  address exactly if some range belongs to it, and the address is where the first of them begins.
\<close>

theorem debug_line_address_least:
  assumes "lines_wf (debug_lines d)"
  shows "debug_info_line_address (Ref d) file_no line True =
    (let begins = range_begin ` {l \<in> set (debug_lines d). source_file l = file_no \<and> source_line l = line}
     in if begins = {} then None else Some (Min begins))"
proof -
  have "find_line ls file_no line =
      (let begins = range_begin ` {l \<in> set ls. source_file l = file_no \<and> source_line l = line}
       in if begins = {} then None else Some (Min begins))"
    if "sorted_wrt (\<lambda>a b. compare_lines a b \<le> 0) ls" for ls
    using that
  proof (induction ls)
    case (Cons l ls)
    let ?hits = "\<lambda>ls. {l \<in> set ls. source_file l = file_no \<and> source_line l = line}"
    show ?case
    proof (cases "source_file l = file_no \<and> source_line l = line")
      case True
      then have hits: "?hits (l # ls) = insert l (?hits ls)" by auto
      have "range_begin l \<le> range_begin k" if "k \<in> ?hits ls" for k
        using that Cons.prems by (auto simp: compare_lines_le intro: less_imp_le)
      then have "Min (range_begin ` insert l (?hits ls)) = range_begin l"
        by (intro Min_eqI) auto
      with True show ?thesis unfolding hits by (simp add: Let_def)
    next
      case False
      then have "?hits (l # ls) = ?hits ls" by auto
      with False Cons show ?thesis by auto
    qed
  qed simp
  with assms show ?thesis by (simp add: debug_info_line_address_def lines_wf_def)
qed

theorem debug_line_address_least_witness:
  "debug_info_line_address (Ref sample_table) 0 4 True = Some 8"
  using debug_line_address_least [OF sample_table_wf, of 0 4]
  by (simp add: sample_table_def debug_info_line_address_def)

end
