(* ===== verification/Source_View.thy ===== *)
theory Source_View
  imports Debug_Info Text
begin

section \<open>Source view\<close>

text \<open>
  The model of \<^verbatim>\<open>src/source_view.c\<close>: what the monitor shows of the source files and the symbols of a
  program, as the text it writes. The source files are a parameter: what opening a path gives. The
  theory shows that a window of a source file holds exactly the lines asked for, and which symbols
  are listed.
\<close>

subsection \<open>Source lines\<close>

definition SOURCE_READ_LIMIT :: nat where "SOURCE_READ_LIMIT = 4 * MEMORY_MIB"
definition SOURCE_LINE_LIMIT :: nat where "SOURCE_LINE_LIMIT = 1024"
definition SYMBOL_DISPLAY_LIMIT :: nat where "SYMBOL_DISPLAY_LIMIT = 256"

text \<open>
  An open source file: its bytes, and whether reading then ends with an error instead of the end
  of the file. A file that cannot be opened has the reason that \<^verbatim>\<open>strerror\<close> gives.
\<close>

record source_text =
  source_bytes :: string
  source_fails :: bool

type_synonym sources = "string \<Rightarrow> string + source_text"

definition shown_char :: "char \<Rightarrow> char" where
  "shown_char ch =
     (if ch = CHR 0x09 \<or> (of_char ch \<ge> (32 :: nat) \<and> ch \<noteq> CHR 0x7F) then ch else CHR ''?'')"

text \<open>
  The loop over the characters of a line: the bytes read so far, the text kept, whether some was
  left out, the last character read (\<open>None\<close> for the end of the file) and the bytes to come.
\<close>

fun scan_line :: "nat \<Rightarrow> string \<Rightarrow> bool \<Rightarrow> char option \<Rightarrow> string \<Rightarrow> nat \<times> string \<times> bool \<times> char option \<times> string" where
  "scan_line bytes text truncated ch [] =
     (bytes, text, truncated, (if bytes < SOURCE_READ_LIMIT then None else ch), [])"
| "scan_line bytes text truncated ch (c # others) =
     (if bytes < SOURCE_READ_LIMIT then
        if c = newline then (bytes, text, truncated, Some c, others)
        else if length text + 1 < SOURCE_LINE_LIMIT
        then scan_line (bytes + 1) (text @ [shown_char c]) truncated (Some c) others
        else scan_line (bytes + 1) text True (Some c) others
      else (bytes, text, truncated, ch, c # others))"

definition shown_line ::
  "DebugInfo \<Rightarrow> nat \<Rightarrow> DebugLine ptr \<Rightarrow> bool \<Rightarrow> u32 \<Rightarrow> string \<Rightarrow> bool \<Rightarrow> string" where
  "shown_line debug file current annotate line text truncated =
     (if annotate
      then
       (if current \<noteq> NULL \<and> source_file (the current) = file \<and> source_line (the current) = line
        then ''>'' else '' '')
       @ '' '' @ right_aligned 5 (dec (unat line)) @ '' '' @
       (case debug_info_line_address (Ref debug) file line True of
          Some mapped \<Rightarrow> ''['' @ word_hex (unat mapped) @ ''] ''
        | None \<Rightarrow> ''[no mapped instruction] '')
      else ''  '')
     @ text_line (text @ (if truncated then '' ... [line truncated]'' else ''''))"

lemma scan_line_shorter:
  "scan_line bytes text truncated ch0 others = (bytes', text', truncated', Some ch, others') \<Longrightarrow>
    length others' \<le> length others \<and> (ch0 = None \<longrightarrow> length others' < length others)"
  by (induction bytes "text" truncated ch0 others rule: scan_line.induct)
    (auto split: if_splits)

text \<open>
  The loop over the lines: whether a line was shown, whether the limit was met, whether a read met
  the end of the file, and the output.
\<close>

function line_loop ::
  "DebugInfo \<Rightarrow> nat \<Rightarrow> u32 \<Rightarrow> u32 \<Rightarrow> DebugLine ptr \<Rightarrow> bool \<Rightarrow> u32 \<Rightarrow> nat \<Rightarrow> string \<Rightarrow> bool \<Rightarrow> string \<Rightarrow>
    bool \<times> bool \<times> bool \<times> string" where
  "line_loop debug file first final current annotate line bytes others shown out =
     (if line \<le> final then
       (case scan_line bytes '''' False None others of (bytes, text, truncated, ch, others) \<Rightarrow>
          if bytes = SOURCE_READ_LIMIT then (shown, True, False, out)
          else if ch = None \<and> text = '''' \<and> \<not> truncated then (shown, False, True, out)
          else
          let bytes = (if ch = Some newline then bytes + 1 else bytes);
              out = (if line \<ge> first then out @ shown_line debug file current annotate line text truncated else out);
              shown = (if line \<ge> first then True else shown)
          in if ch = None then (shown, False, True, out)
             else line_loop debug file first final current annotate (line + 1) bytes others shown out)
      else (shown, False, False, out))"
  by pat_completeness auto
termination
  by (relation "measure (\<lambda>(debug, file, first, final, current, annotate, line, bytes, others, shown, out). length others)")
    (auto dest: scan_line_shorter [OF sym])

declare line_loop.simps [simp del]

definition print_lines ::
  "sources \<Rightarrow> DebugInfo \<Rightarrow> nat \<Rightarrow> u32 \<Rightarrow> u32 \<Rightarrow> DebugLine ptr \<Rightarrow> bool \<Rightarrow> bool \<times> string" where
  "print_lines sources debug file first final current annotate =
     (case sources (debug_files debug ! file) of
        Inl reason \<Rightarrow>
          (False, text_line (''Source file unavailable: '' @ debug_files debug ! file @ '' ('' @ reason
             @ ''). Address mapping is still available.''))
      | Inr input \<Rightarrow>
       (case line_loop debug file first final current annotate 1 0 (source_bytes input) False '''' of
          (shown, limited, ended, out) \<Rightarrow>
            (shown, out
               @ (if ended \<and> source_fails input then text_line ''Source read error.'' else '''')
               @ (if limited then text_line ''Source inspection limit reached (4MiB).'' else '''')
               @ (if \<not> shown \<and> \<not> limited
                  then text_line ''Requested source line is unavailable in the current file.'' else ''''))))"

subsection \<open>Views\<close>

definition source_view_location :: "sources \<Rightarrow> DebugInfo \<Rightarrow> u32 \<Rightarrow> bool \<Rightarrow> string" where
  "source_view_location sources debug address show_text =
     (case debug_info_lookup (Ref debug) address of
        NULL \<Rightarrow> text_line ''Source: <no instruction-to-source mapping>''
      | Ref line \<Rightarrow>
          text_line (''Source: '' @ debug_files debug ! source_file line @ '':'' @ dec (unat (source_line line))
             @ '':'' @ dec (unat (source_column line)))
          @ (if show_text
             then snd (print_lines sources debug (source_file line) (source_line line) (source_line line) (Ref line) False)
             else ''''))"

definition source_view_files :: "DebugInfo \<Rightarrow> string" where
  "source_view_files debug =
     (if length (debug_files debug) = 0
      then text_line ''No source files in this program's debug information.''
      else concat (map (\<lambda>i. text_line (dec i @ ''  '' @ debug_files debug ! i)) [0..<length (debug_files debug)]))"

definition SIZE_MAX :: nat where "SIZE_MAX = 2 ^ 64 - 1"

definition source_view_lines :: "sources \<Rightarrow> DebugInfo \<Rightarrow> u32 \<Rightarrow> u32 \<Rightarrow> nat \<Rightarrow> string" where
  "source_view_lines sources debug address center file =
     (let current = debug_info_lookup (Ref debug) address in
      if file = SIZE_MAX \<and> current = NULL
      then text_line ''No source location at this address. Use sources, then source LINE FILE_INDEX.''
      else
      let file = (if file = SIZE_MAX then source_file (the current) else file) in
      if file \<ge> length (debug_files debug) then text_line ''Invalid source file index. Use sources.''
      else
      let center = (if center = 0
            then if current \<noteq> NULL \<and> source_file (the current) = file then source_line (the current) else 1
            else center);
          first = (if center > 4 then center - 4 else 1);
          final = (if center > 0xFFFFFFFF - 4 then 0xFFFFFFFF else center + 4)
      in text_line (''File '' @ dec file @ '': '' @ debug_files debug ! file)
         @ text_line ''Rows show the first mapped address; a source line can cover many instructions.''
         @ snd (print_lines sources debug file first final current True))"

fun symbol_loop :: "string ptr \<Rightarrow> DebugSymbol list \<Rightarrow> nat \<Rightarrow> nat \<times> string" where
  "symbol_loop name [] shown = (shown, '''')"
| "symbol_loop name (symbol # symbols) shown =
     (if name \<noteq> NULL \<and> the name \<noteq> symbol_name symbol then symbol_loop name symbols shown
      else if shown = SYMBOL_DISPLAY_LIMIT
      then (shown, text_line ''Symbol display limited to 256 entries. Use symbols NAME.'')
      else map_prod id
        ((@) (text_line (word_hex (unat (symbol_address symbol)) @ ''  size='' @ dec (unat (symbol_size symbol)) @ ''  ''
           @ (if symbol_function symbol then ''function'' else ''symbol'') @ ''  '' @ symbol_name symbol)))
        (symbol_loop name symbols (shown + 1)))"

definition source_view_symbols :: "DebugInfo \<Rightarrow> string ptr \<Rightarrow> string" where
  "source_view_symbols debug name =
     (case symbol_loop name (debug_symbols debug) 0 of (shown, out) \<Rightarrow>
        out @ (if shown = 0
               then text_line (if name = NULL then ''No symbols in this program.'' else ''Symbol not found.'')
               else ''''))"

subsection \<open>Windows of a file\<close>

text \<open>The lines of a text, what is kept of a line, and the rows of a window.\<close>

function text_lines :: "string \<Rightarrow> string list" where
  "text_lines s =
     (if s = [] then []
      else takeWhile (\<lambda>c. c \<noteq> newline) s # text_lines (drop 1 (dropWhile (\<lambda>c. c \<noteq> newline) s)))"
  by pat_completeness auto
termination
proof (relation "measure length")
  fix s :: string
  assume "s \<noteq> []"
  then have "0 < length s" by simp
  moreover have "length (dropWhile (\<lambda>c. c \<noteq> newline) s) \<le> length s" by (rule length_dropWhile_le)
  ultimately have "length (drop 1 (dropWhile (\<lambda>c. c \<noteq> newline) s)) < length s" unfolding length_drop by linarith
  then show "(drop 1 (dropWhile (\<lambda>c. c \<noteq> newline) s), s) \<in> measure length" by simp
qed simp

declare text_lines.simps [simp del]

lemma text_lines_Nil [simp]: "text_lines [] = []"
  by (simp add: text_lines.simps)

definition kept :: "string \<Rightarrow> string" where
  "kept l = map (\<lambda>c. if c = CHR 0x09 \<or> 32 \<le> (of_char c :: nat) \<and> (of_char c :: nat) \<noteq> 127 then c else CHR ''?'')
     (take 1023 l)"

definition window :: "u32 \<Rightarrow> u32 \<Rightarrow> nat \<Rightarrow> string \<Rightarrow> (nat \<times> string) list" where
  "window first final n s = filter (\<lambda>(i, l). unat first \<le> i \<and> i \<le> unat final) (enumerate n (text_lines s))"

text \<open>
  The row of a line: with annotations, whether it is the current line, its number, and the address of
  the first range of the table that belongs to it; then the text, and a mark when some was left out.
\<close>

definition row_note :: "DebugInfo \<Rightarrow> nat \<Rightarrow> DebugLine ptr \<Rightarrow> nat \<Rightarrow> string" where
  "row_note debug file current n =
     (case current of
        NULL \<Rightarrow> '' ''
      | Ref l \<Rightarrow> if source_file l = file \<and> unat (source_line l) = n then ''>'' else '' '')
     @ '' '' @ right_aligned 5 (dec n) @ '' '' @
     (case find (\<lambda>l. source_file l = file \<and> unat (source_line l) = n) (debug_lines debug) of
        None \<Rightarrow> ''[no mapped instruction] ''
      | Some l \<Rightarrow> ''[0x'' @ pad 8 (hex (unat (range_begin l))) @ ''] '')"

definition row_text :: "DebugInfo \<Rightarrow> nat \<Rightarrow> DebugLine ptr \<Rightarrow> bool \<Rightarrow> nat \<times> string \<Rightarrow> string" where
  "row_text debug file current annotate row =
     (if annotate then row_note debug file current (fst row) else ''  '')
     @ kept (snd row) @ (if 1023 < length (snd row) then '' ... [line truncated]'' else []) @ [CHR 0x0A]"

lemma kept_code: "kept l = map shown_char (take (SOURCE_LINE_LIMIT - 1) l)"
proof -
  have "of_char c = (127 :: nat) \<longleftrightarrow> c = CHR 0x7F" for c
    using of_char_eq_iff [of c "CHR 0x7F"] by simp
  then show ?thesis by (simp add: kept_def shown_char_def [abs_def] SOURCE_LINE_LIMIT_def)
qed

lemma find_line_eq:
  "find_line ls file line =
     map_option range_begin (find (\<lambda>l. source_file l = file \<and> unat (source_line l) = unat line) ls)"
  by (induction ls) (auto simp: word_unat_eq_iff)

lemma shown_line_row:
  "shown_line debug file current annotate line (kept l) (1023 < length l) = row_text debug file current annotate (unat line, l)"
  by (auto simp: shown_line_def row_text_def row_note_def debug_info_line_address_def find_line_eq word_hex_def
      text_line_def newline_def word_unat_eq_iff split: option.split)

lemma scan_line_eq:
  assumes "bytes + length others < SOURCE_READ_LIMIT" "length t \<le> 1023"
  shows "scan_line bytes t truncated ch others =
    (bytes + length (takeWhile (\<lambda>c. c \<noteq> newline) others),
     t @ map shown_char (take (1023 - length t) (takeWhile (\<lambda>c. c \<noteq> newline) others)),
     truncated \<or> 1023 < length t + length (takeWhile (\<lambda>c. c \<noteq> newline) others),
     if dropWhile (\<lambda>c. c \<noteq> newline) others = [] then None else Some newline,
     drop 1 (dropWhile (\<lambda>c. c \<noteq> newline) others))"
  using assms
proof (induction bytes t truncated ch others rule: scan_line.induct)
  case (2 bytes t truncated ch c others)
  show ?case
  proof (cases "c = newline \<or> length t = 1023")
    case True
    with 2 show ?thesis by (auto simp: SOURCE_LINE_LIMIT_def)
  next
    case False
    then have "1023 - length t = Suc (1022 - length t)" using "2.prems"(2) by arith
    with False 2 show ?thesis by (simp add: SOURCE_LINE_LIMIT_def)
  qed
qed (auto simp: SOURCE_LINE_LIMIT_def)

lemma length_text_lines: "length (text_lines s) \<le> length s"
proof (induction s rule: text_lines.induct)
  case (1 s)
  show ?case
  proof (cases "s = []")
    case False
    have "length (dropWhile (\<lambda>c. c \<noteq> newline) s) \<le> length s" by (rule length_dropWhile_le)
    with 1 False show ?thesis by (simp add: text_lines.simps [of s]) (cases s; simp)
  qed simp
qed

text \<open>One round of the loop over the lines, below the read limit.\<close>

lemma line_loop_step:
  assumes "bytes + length others < SOURCE_READ_LIMIT"
    and l: "l = takeWhile (\<lambda>c. c \<noteq> newline) others" and d: "d = dropWhile (\<lambda>c. c \<noteq> newline) others"
  shows "line_loop debug file first final current annotate line bytes others shown out =
     (if line \<le> final then
        if others = [] then (shown, False, True, out)
        else
        let out = (if first \<le> line then out @ row_text debug file current annotate (unat line, l) else out) in
        if d = [] then (shown \<or> first \<le> line, False, True, out)
        else line_loop debug file first final current annotate (line + 1) (bytes + length l + 1) (drop 1 d)
              (shown \<or> first \<le> line) out
      else (shown, False, False, out))"
proof -
  have split: "others = l @ d" by (simp add: l d)
  have scan: "scan_line bytes '''' False None others =
      (bytes + length l, kept l, 1023 < length l, if d = [] then None else Some newline, drop 1 d)"
    using scan_line_eq [of bytes others "''''" False None] assms(1)
    by (simp add: l d kept_code SOURCE_LINE_LIMIT_def)
  have "bytes + length l \<noteq> SOURCE_READ_LIMIT" using assms(1) by (simp add: split)
  moreover have "of_nat (unat line) = line" by simp
  moreover have "kept l = [] \<longleftrightarrow> l = []" "others = [] \<longleftrightarrow> l = [] \<and> d = []"
    by (simp_all add: kept_def split)
  ultimately show ?thesis
    by (subst line_loop.simps) (simp add: scan Let_def shown_line_row)
qed

lemma line_loop_window:
  assumes "bytes + length others < SOURCE_READ_LIMIT" "unat line + length others < 2 ^ 32"
  shows "\<exists>ended. line_loop debug file first final current annotate line bytes others shown out =
    (shown \<or> window first final (unat line) others \<noteq> [], False, ended,
     out @ concat (map (row_text debug file current annotate) (window first final (unat line) others)))"
  using assms
proof (induction "length others" arbitrary: line bytes others shown out rule: less_induct)
  case less
  define l where "l = takeWhile (\<lambda>c. c \<noteq> newline) others"
  define d where "d = dropWhile (\<lambda>c. c \<noteq> newline) others"
  have split: "others = l @ d" by (simp add: l_def d_def)
  note step = line_loop_step [OF less.prems(1) l_def d_def, unfolded Let_def]
  show ?case
  proof (cases "others = [] \<or> final < line")
    case True
    then have "window first final (unat line) others = []"
      by (auto simp: window_def filter_empty_conv in_set_enumerate_eq word_less_nat_alt )
    with True show ?thesis unfolding step by (auto simp: not_less)
  next
    case False
    then have lines: "text_lines others = l # text_lines (drop 1 d)"
      by (simp add: text_lines.simps [of others] l_def d_def)
    have "first \<le> line \<longleftrightarrow> unat first \<le> unat line" "unat line \<le> unat final"
      using False by (simp_all add: word_le_nat_alt not_less)
    then have win: "window first final (unat line) others =
        (if first \<le> line then [(unat line, l)] else []) @ window first final (Suc (unat line)) (drop 1 d)"
      by (simp add: window_def lines)
    show ?thesis
    proof (cases "d = []")
      case True
      then have "window first final (Suc (unat line)) (drop 1 d) = []" by (simp add: window_def)
      with True False show ?thesis unfolding step win by (auto simp: not_less)
    next
      case nonempty: False
      have shorter: "length (drop 1 d) < length others" "bytes + length l + 1 + length (drop 1 d) = bytes + length others"
        using nonempty by (cases d; simp add: split; fail)+
      have "unat (line + 1) = Suc (unat line)"
        using less.prems(2) False by (cases others) (simp_all add: unat_word_ariths)
      with less.hyps [OF shorter(1), of "bytes + length l + 1" "line + 1" "shown \<or> first \<le> line"
          "if first \<le> line then out @ row_text debug file current annotate (unat line, l) else out"] shorter less.prems
      show ?thesis using False nonempty unfolding step win by (cases "first \<le> line") (auto simp: not_less)
    qed
  qed
qed

subsection \<open>Properties\<close>

text \<open>
  C35. A window of a readable source file below 4 MiB holds exactly the lines asked for: the output is
  one row for each line of the file whose number lies between the two bounds, in order, with the
  first 1023 characters of the line (unprintable ones replaced) and a mark when there are more, and
  with annotations whether it is the current line, its number and the first address mapped to it;
  when there is no such line the output says so.
\<close>

theorem source_window_exact:
  assumes "sources (debug_files debug ! file) = Inr \<lparr>source_bytes = s, source_fails = False\<rparr>"
    and "length s < 4 * 1024 * 1024"
  shows "print_lines sources debug file first final current annotate =
    (window first final 1 s \<noteq> [],
     concat (map (row_text debug file current annotate) (window first final 1 s))
     @ (if window first final 1 s = [] then text_line ''Requested source line is unavailable in the current file.'' else ''''))"
proof -
  have "unat (1 :: u32) + length s < 2 ^ 32" "0 + length s < SOURCE_READ_LIMIT"
    using assms(2) by (simp_all add: SOURCE_READ_LIMIT_def size_simps)
  then obtain ended where "line_loop debug file first final current annotate 1 0 s False '''' =
      (window first final 1 s \<noteq> [], False, ended, concat (map (row_text debug file current annotate) (window first final 1 s)))"
    using line_loop_window [of 0 s 1 debug "file" first final current annotate False "[]"] by auto
  with assms(1) show ?thesis by (simp add: print_lines_def)
qed

text \<open>Three short lines, the last one without a newline.\<close>

definition sample_source :: string where
  "sample_source = text_block [''int main(void)'', ''{''] @ ''}''"

lemma sample_source_lines: "text_lines sample_source = [''int main(void)'', ''{'', ''}'']" "length sample_source < 4 * 1024 * 1024"
  by (simp_all add: sample_source_def text_block_def text_line_def newline_def text_lines.simps)

lemma one_long_line: "text_lines (replicate 1030 CHR ''a'') = [replicate 1030 CHR ''a'']"
  by (simp add: text_lines.simps [of "replicate 1030 CHR ''a''"] newline_def takeWhile_replicate dropWhile_replicate)

definition sample_debug :: DebugInfo where
  "sample_debug = zero_debug\<lparr>debug_files := [''a.c''],
     debug_lines := [\<lparr>range_begin = 8, range_end = 12, maximum_end = 12, source_file = 0, source_line = 2, source_column = 1\<rparr>]\<rparr>"

theorem source_window_exact_witness:
  "print_lines (\<lambda>_. Inr \<lparr>source_bytes = sample_source, source_fails = False\<rparr>) sample_debug 0 2 9 NULL False
     = (True, text_block [''  {'', ''  }''])
   \<and> print_lines (\<lambda>_. Inr \<lparr>source_bytes = sample_source, source_fails = False\<rparr>) sample_debug 0 2 9
       (Ref (hd (debug_lines sample_debug))) True
     = (True, text_block [''>     2 [0x00000008] {'', ''      3 [no mapped instruction] }''])
   \<and> print_lines (\<lambda>_. Inr \<lparr>source_bytes = replicate 1030 CHR ''a'', source_fails = False\<rparr>) sample_debug 0 1 1 NULL False
     = (True, ''  '' @ replicate 1023 CHR ''a'' @ '' ... [line truncated]'' @ [CHR 0x0A])"
proof -
  have windows: "window 2 9 1 sample_source = [(2, ''{''), (3, ''}'')]"
    "window 1 1 1 (replicate 1030 CHR ''a'') = [(1, replicate 1030 CHR ''a'')]"
    by (simp_all add: window_def sample_source_lines one_long_line)
  have remarks: "row_note sample_debug 0 (Ref (hd (debug_lines sample_debug))) 2 = ''>     2 [0x00000008] ''"
    "row_note sample_debug 0 (Ref (hd (debug_lines sample_debug))) 3 = ''      3 [no mapped instruction] ''"
    by code_simp+
  have short: "kept [CHR ''{''] = ''{''" "kept [CHR ''}''] = ''}''"
    by (simp_all add: kept_def)
  note exact = source_window_exact [of _ sample_debug 0]
  have long: "length (replicate 1030 CHR ''a'') < 4 * 1024 * 1024" by simp
  show ?thesis
    using exact [of "\<lambda>_. Inr \<lparr>source_bytes = sample_source, source_fails = False\<rparr>" sample_source 2 9 NULL False, OF refl sample_source_lines(2)]
      exact [of "\<lambda>_. Inr \<lparr>source_bytes = sample_source, source_fails = False\<rparr>" sample_source 2 9 "Ref (hd (debug_lines sample_debug))" True, OF refl sample_source_lines(2)]
      exact [of "\<lambda>_. Inr \<lparr>source_bytes = replicate 1030 CHR ''a'', source_fails = False\<rparr>" "replicate 1030 CHR ''a''" 1 1 NULL False, OF refl long]
    unfolding windows
    by (simp add: row_text_def remarks short text_block_def text_line_def newline_def) (simp add: kept_def)
qed

subsection \<open>Symbols\<close>

text \<open>The rows of the symbol list, and the symbols a name selects.\<close>

definition symbol_row :: "DebugSymbol \<Rightarrow> string" where
  "symbol_row s = text_line (word_hex (unat (symbol_address s)) @ ''  size='' @ dec (unat (symbol_size s)) @ ''  ''
     @ (if symbol_function s then ''function'' else ''symbol'') @ ''  '' @ symbol_name s)"

definition selected :: "string ptr \<Rightarrow> DebugSymbol list \<Rightarrow> DebugSymbol list" where
  "selected name symbols = filter (\<lambda>s. name = NULL \<or> name = Ref (symbol_name s)) symbols"

lemma symbol_loop_selected:
  "shown \<le> SYMBOL_DISPLAY_LIMIT \<Longrightarrow> symbol_loop name ss shown =
    (let room = SYMBOL_DISPLAY_LIMIT - shown
     in (shown + min room (length (selected name ss)), concat (map symbol_row (take room (selected name ss)))
         @ (if room < length (selected name ss)
            then text_line ''Symbol display limited to 256 entries. Use symbols NAME.'' else '''')))"
proof (induction name ss shown rule: symbol_loop.induct)
  case (2 name s ss shown)
  consider (skip) "name \<noteq> NULL" "the name \<noteq> symbol_name s" | (full) "name = NULL \<or> name = Ref (symbol_name s)" "shown = SYMBOL_DISPLAY_LIMIT"
    | (row) "name = NULL \<or> name = Ref (symbol_name s)" "shown < SYMBOL_DISPLAY_LIMIT"
    using "2.prems" by (cases name; cases "shown = SYMBOL_DISPLAY_LIMIT"; force)
  then show ?case
  proof cases
    case skip
    with 2 show ?thesis by (auto simp: selected_def)
  next
    case full
    then show ?thesis by (auto simp: selected_def Let_def)
  next
    case row
    then have "SYMBOL_DISPLAY_LIMIT - shown = Suc (SYMBOL_DISPLAY_LIMIT - (shown + 1))" by arith
    with row 2 show ?thesis by (auto simp: selected_def Let_def symbol_row_def)
  qed
qed (simp add: Let_def selected_def)

text \<open>
  The symbol list shows the symbols with the given name, or all of them, in the order of the
  table, at most 256 of them and then a remark; when there are none it says which of the two it is.
\<close>

theorem symbols_listed:
  "source_view_symbols debug name =
    (let found = selected name (debug_symbols debug) in
     if found = []
     then text_line (if name = NULL then ''No symbols in this program.'' else ''Symbol not found.'')
     else concat (map symbol_row (take 256 found))
       @ (if 256 < length found
          then text_line ''Symbol display limited to 256 entries. Use symbols NAME.'' else ''''))"
  using symbol_loop_selected [of 0 name "debug_symbols debug"]
  by (cases "selected name (debug_symbols debug)") (simp_all add: source_view_symbols_def Let_def SYMBOL_DISPLAY_LIMIT_def)

end
