(* ===== verification/Monitor.thy ===== *)
theory Monitor
  imports Numbers Machine Disassembly Source_View "HOL-Library.Sublist"
begin

section \<open>The monitor\<close>

text \<open>
  The model of \<^verbatim>\<open>src/monitor.c\<close> up to its command line: the trace callback, the displays and the
  interactive session. What is written to the terminal is text that a session collects. The theory
  shows what an inspection shows, what commands keep, and that every session ends.
\<close>

subsection \<open>State\<close>

definition DEFAULT_LIMIT :: u64 where "DEFAULT_LIMIT = 100000"
definition MAX_INSPECTION_BYTES :: u64 where "MAX_INSPECTION_BYTES = 4096"
definition MAX_DISASSEMBLY_WORDS :: u64 where "MAX_DISASSEMBLY_WORDS = 256"

text \<open>
  The monitor without its machine, which the operations take and return beside it: the callbacks of
  a run change the monitor only.
\<close>

record Monitor =
  monitor_debug :: DebugInfo
  last_source :: "DebugLine ptr"
  source_seen :: bool
  run_limit :: u64
  tracing :: bool
  coloring :: bool
  has_record :: bool
  last_step :: step_record

text \<open>
  A session adds what the code reads and writes outside: the flag of the signal handler, the signals
  still to come (one entry for each time the code looks at the flag or waits for input: whether a
  signal arrived since the last time), whether a read goes on after a signal or fails, the input and
  whether it ends with an error, the source files, and the text written so far.
\<close>

record session = Monitor +
  interrupted :: bool
  signals :: "bool list"
  reads_restart :: bool
  terminal_input :: string
  input_fails :: bool
  source_files :: sources
  written :: string

definition emit :: "string \<Rightarrow> session \<Rightarrow> session" where
  "emit s w = w\<lparr>written := written w @ s\<rparr>"

definition puts :: "string \<Rightarrow> session \<Rightarrow> session" where
  "puts s = emit (text_line s)"

text \<open>The handler sets the flag when a signal arrives.\<close>

definition interrupt_handler :: "session \<Rightarrow> session" where
  "interrupt_handler w =
     (case signals w of [] \<Rightarrow> w
      | arrived # others \<Rightarrow> w\<lparr>interrupted := interrupted w \<or> arrived, signals := others\<rparr>)"

definition stop_requested :: "session \<Rightarrow> bool \<times> session" where
  "stop_requested w = (let w = interrupt_handler w in (interrupted w, w))"

subsection \<open>Trace\<close>

definition color_on :: string where "color_on = CHR 0x1B # ''[36;1m''"
definition color_off :: string where "color_off = CHR 0x1B # ''[0m''"

definition same_source :: "DebugLine ptr \<Rightarrow> DebugLine ptr \<Rightarrow> bool" where
  "same_source location before =
     (case location of NULL \<Rightarrow> before = NULL
      | Ref l \<Rightarrow> before \<noteq> NULL \<and> source_file l = source_file (the before) \<and> source_line l = source_line (the before))"

definition assembly_shown :: "step_record \<Rightarrow> string" where
  "assembly_shown record =
     (if step_fetched record
      then case instruction_disassemble (raw (instr_fields (step_instruction record))) True 128 of
        (formatted, assembly) \<Rightarrow> if formatted then the assembly else ''<disassembly truncated>''
      else ''<instruction unavailable>'')"

definition register_shown :: "bool \<Rightarrow> reg_record \<Rightarrow> string" where
  "register_shown coloring_on r =
     (if reg_written r
      then ''  '' @ (if coloring_on \<and> reg_changed r then color_on else '''') @ ''x'' @ dec (unat (reg_index r)) @ '': ''
        @ word_hex (unat (reg_before r)) @ '' -> '' @ word_hex (unat (reg_after r))
        @ (if reg_changed r then '' [changed]'' else '' [unchanged]'')
        @ (if coloring_on \<and> reg_changed r then color_off else '''')
        @ (if reg_index r = 0 then '' (discarded '' @ word_hex (unat (reg_value r)) @ '')'' else '''')
      else '''')"

definition memory_shown :: "memory_record \<Rightarrow> string" where
  "memory_shown r =
     (if memory_attempted r
      then ''  '' @ (if memory_write r then ''store'' else ''load'') @ dec (unat (memory_width r) * 8)
        @ '' ['' @ word_hex (unat (memory_address r)) @ '']''
        @ (if memory_completed r
           then '': '' @ word_hex (unat (memory_before r)) @ '' -> '' @ word_hex (unat (memory_after r)) else '''')
      else '''')"

definition trap_shown :: "step_record \<Rightarrow> string" where
  "trap_shown record =
     (if trap_raised (step_trap record)
      then ''  '' @ cpu_step_result_name (result_number (step_result record)) @ '' (cause=''
        @ dec (cause_number (trap_cause (step_trap record))) @ '', value=''
        @ word_hex (unat (trap_value (step_trap record))) @ '')''
      else '''')"

definition trace_step :: "step_record \<Rightarrow> session \<Rightarrow> session" where
  "trace_step record w =
     (let w = w\<lparr>last_step := record, has_record := True\<rparr> in
      if \<not> tracing w then w
      else
      let location = debug_info_lookup (Ref (monitor_debug w)) (pc_before record);
          w = (if \<not> source_seen w \<or> \<not> same_source location (last_source w)
               then emit (source_view_location (source_files w) (monitor_debug w) (pc_before record) True) w else w);
          w = w\<lparr>last_source := location, source_seen := True\<rparr>
      in puts (word_hex (unat (pc_before record)) @ ''  '' @ left_aligned 32 (assembly_shown record)
           @ register_shown (coloring w) (step_reg record) @ memory_shown (step_memory record)
           @ ''  PC -> '' @ word_hex (unat (pc_after record)) @ trap_shown record) w)"

subsection \<open>Displays\<close>

definition register_aliases :: "string list" where
  "register_aliases =
     [''zero'', ''ra'', ''sp'', ''gp'', ''tp'', ''t0'', ''t1'', ''t2'',
      ''s0/fp'', ''s1'', ''a0'', ''a1'', ''a2'', ''a3'', ''a4'', ''a5'', ''a6'', ''a7'',
      ''s2'', ''s3'', ''s4'', ''s5'', ''s6'', ''s7'', ''s8'', ''s9'', ''s10'', ''s11'', ''t3'', ''t4'', ''t5'', ''t6'']"

definition register_row :: "session \<Rightarrow> nat \<Rightarrow> u32 \<Rightarrow> string" where
  "register_row w reg v =
     (let changed = has_record w \<and> reg_changed (step_reg (last_step w)) \<and> unat (reg_index (step_reg (last_step w))) = reg in
      text_line ((if coloring w \<and> changed then color_on else '''') @ ''x'' @ left_aligned 2 (dec reg) @ '' ''
        @ left_aligned 5 (register_aliases ! reg) @ '' '' @ word_hex (unat v) @ ''  signed=''
        @ signed_dec (instruction_signed_value v) @ ''  unsigned='' @ dec (unat v)
        @ (if changed then '' [changed]'' else '''') @ (if coloring w \<and> changed then color_off else '''')))"

fun register_loop :: "machine \<Rightarrow> nat list \<Rightarrow> session \<Rightarrow> bool \<times> session" where
  "register_loop m [] w = (True, w)"
| "register_loop m (reg # regs) w =
     (case cpu_read_register (Ref (m_cpu m)) reg True of None \<Rightarrow> (False, w)
      | Some v \<Rightarrow> register_loop m regs (emit (register_row w reg v) w))"

definition show_registers :: "machine \<Rightarrow> session \<Rightarrow> session" where
  "show_registers m w =
     (case register_loop m [0..<CPU_REGISTER_COUNT] w of
        (False, w) \<Rightarrow> w
      | (True, w) \<Rightarrow>
          puts (''RAM='' @ dec (mem_size (m_memory m)) @ '' bytes'')
           (puts (''PC='' @ word_hex (unat (program_counter (m_cpu m))) @ ''  retired=''
              @ dec (unat (instruction_count (m_cpu m))) @ ''  halted='' @ (if halted (m_cpu m) then ''yes'' else ''no'')) w))"

definition report_stop :: "MachineRun \<Rightarrow> machine \<Rightarrow> string" where
  "report_stop run m =
     text_line (''Stopped: '' @ machine_stop_name (stop_number (run_reason run)) @ ''; attempts=''
       @ dec (unat (run_attempts run)) @ ''; retired='' @ dec (unat (run_retired run)) @ ''; PC=''
       @ word_hex (unat (program_counter (m_cpu m)))
       @ (if run_reason run = MACHINE_EXITED then ''; exit='' @ dec (unat (m_exit_code m)) else '''')
       @ (if run_reason run = MACHINE_TRAP
          then ''; '' @ cpu_step_result_name (result_number (step_result (run_last run))) @ ''; instruction=''
            @ word_hex (unat (trap_instruction_address (step_trap (run_last run)))) @ ''; value=''
            @ word_hex (unat (trap_value (step_trap (run_last run))))
            @ (if step_result (run_last run) = CPU_STEP_ECALL
               then ''; unsupported ECALL service a7='' @ dec (unat (registers (m_cpu m) ! 17)) else '''')
          else ''''))"

definition batch_status :: "MachineStop \<Rightarrow> u32 \<Rightarrow> int" where
  "batch_status reason exit_status =
     (if reason = MACHINE_EXITED then uint (exit_status AND 255)
      else if reason = MACHINE_LIMIT then 124
      else if reason = MACHINE_STOPPED then 130
      else 1)"

subsection \<open>Inspection\<close>

text \<open>
  The range of an inspection, \<open>None\<close> when it is refused. The sizes are 64-bit numbers: the first
  limit of the range wraps when there is no RAM.
\<close>

definition inspection_range :: "bool \<Rightarrow> u64 \<Rightarrow> string list \<Rightarrow> (u64 \<times> u64) option" where
  "inspection_range memory_dump ram_size args =
     (let maximum = (if memory_dump then MAX_INSPECTION_BYTES else MAX_DISASSEMBLY_WORDS) in
      if length args < 2 \<or> length args > 3 then None
      else
      case number (Ref (args ! 1)) (ram_size - 1) of None \<Rightarrow> None
      | Some address \<Rightarrow>
     (case (if length args = 3 then number (Ref (args ! 2)) maximum else Some (if memory_dump then 32 else 8)) of
        None \<Rightarrow> None
      | Some len \<Rightarrow>
          if len = 0
             \<or> (if memory_dump then len > ram_size - address
                 else address mod 4 \<noteq> 0 \<or> len > (ram_size - address) div 4)
          then None
          else Some (address, len)))"

definition dump_cell :: "machine \<Rightarrow> u64 \<Rightarrow> nat \<Rightarrow> nat \<Rightarrow> string" where
  "dump_cell m address len i =
     (if i mod 16 = 0 then ''0x'' @ pad 8 (hex (unat (address + of_nat i))) @ '':'' else '''')
     @ '' '' @ pad 2 (hex (unat (bytes_of (m_memory m) ! unat (address + of_nat i))))
     @ (if i mod 16 = 15 \<or> i + 1 = len then [newline] else '''')"

fun disassembly_rows :: "machine \<Rightarrow> DebugInfo \<Rightarrow> u64 \<Rightarrow> nat list \<Rightarrow> string" where
  "disassembly_rows m debug address [] = ''''"
| "disassembly_rows m debug address (i # others) =
     (let at = address + of_nat i * 4 in
      case memory_read_u32 (Ref (m_memory m)) (ucast at) True of None \<Rightarrow> text_line ''Inspection failed.''
      | Some word \<Rightarrow>
     (case instruction_disassemble word True 128 of
        (False, _) \<Rightarrow> text_line ''Inspection failed.''
      | (True, assembly) \<Rightarrow>
          text_line (''0x'' @ pad 8 (hex (unat at)) @ ''  '' @ pad 8 (hex (unat word)) @ ''  '' @ the assembly
            @ (case debug_info_lookup (Ref debug) (ucast at) of
                 Ref location \<Rightarrow> ''  ; '' @ debug_files debug ! source_file location @ '':'' @ dec (unat (source_line location))
               | NULL \<Rightarrow> ''  ; <no source mapping>''))
          @ disassembly_rows m debug address others))"

definition inspect :: "machine \<Rightarrow> session \<Rightarrow> string \<Rightarrow> string list \<Rightarrow> string" where
  "inspect m w command args =
     (case inspection_range (command = ''mem'') (of_nat (mem_size (m_memory m))) args of
        None \<Rightarrow> text_line ''Invalid inspection range. Use mem ADDRESS [BYTES] or disasm ADDRESS [COUNT].''
      | Some (address, len) \<Rightarrow>
          if command = ''mem'' then concat (map (dump_cell m address (unat len)) [0..<unat len])
          else disassembly_rows m (monitor_debug w) address [0..<unat len])"

subsection \<open>Help\<close>

definition command_summary :: string where
  "command_summary = text_block
    [''step [N]                Execute N instructions with effects (default 1).'',
     ''run [N]                 Run with a bounded number of attempts.'',
     ''stop                    Mark the CPU stopped; step/run resume it.'',
     ''reset                   Restore the loaded image and reset CPU state.'',
     ''regs                    Show x0..x31 and PC; mark the last changed register.'',
     ''mem ADDRESS [BYTES]     Inspect up to 4096 bytes (default 32).'',
     ''disasm ADDRESS [COUNT]  Decode up to 256 words (default 8).'',
     ''where [ADDRESS]         Show source location (default: current PC).'',
     ''sources                 List source file indices from DWARF.'',
     ''source [LINE] [INDEX]   Show source context; mark lines without mapped instructions.'',
     ''symbols [NAME]          List ELF symbols or find an exact name.'',
     ''help runtime            Explain RAM, stack, C libraries, and ELF/binary input.'',
     ''help source             Explain instruction-to-source mapping and limitations.'',
     ''help formats            Explain instruction layouts and immediates.'',
     ''help MNEMONIC           Show syntax and behavior, e.g. help addi.'',
     ''quit                    Exit the monitor. Ctrl-C stops a running program.'',
     ''EBREAK stays at the breakpoint; use reset to restart the program.'']"

definition runtime_help :: string where
  "runtime_help = text_block
    [''C target: RV32I / ILP32, freestanding C17, int main(void).'',
     ''Default layout: code at 0x1000, globals after code, 4KiB stack at the RAM top.'',
     ''Startup sets sp/gp, clears BSS, calls main, then exits with a7=93 + ECALL.'',
     ''libgcc provides software arithmetic; memcpy/memmove/memset/memcmp are included.'',
     ''There is no hosted libc, printf, malloc, file I/O, or OS. Unsupported ECALLs trap.'',
     ''RAM is flat: no MMU, memory permissions, or protected stack guard.'',
     ''ELF retains load addresses, entry, symbols and available debug data.'',
     ''Raw binary retains bytes only; supply load address, entry and enough RAM.'',
     ''Build: make guest SOURCE=demos/c/learning.c RAM=64KiB'']"

definition source_help :: string where
  "source_help = text_block
    [''The PC and assembly instruction are the execution authority.'',
     ''One C line can map to many instructions; the Source label stays until it changes.'',
     ''DWARF rows map address ranges, not a one-to-one translation of C statements.'',
     ''Declarations, comments, optimized code and other lines may have no mapped instruction.'',
     ''Unmapped instructions and missing source files are reported explicitly.'',
     ''Source text is read from its recorded path; rebuild after editing a source file.'',
     ''The startup and library routines may map to assembly or runtime C, not your main file.'',
     ''Use sources, then source LINE FILE_INDEX to inspect any recorded source.'',
     ''Local-variable evaluation and source-level stepping belong to the later debugger.'']"

definition formats_help :: string where
  "formats_help = text_block
    [''Every RV32I instruction occupies 4 bytes. The PC selects the next word.'',
     ''R: rd, rs1, rs2       add x1, x2, x3      values come from two registers'',
     ''I: rd, rs1, imm       addi x1, x2, 7      constant comes from the instruction'',
     ''S: rs1, rs2, offset   sw x3, 0(x2)        write a register to RAM'',
     ''B: rs1, rs2, offset   beq x1, x2, -8      conditional PC-relative branch'',
     ''U: rd, upper imm     lui x1, 0x12345     place immediate in bits 31..12'',
     ''J: rd, offset        jal x1, 16          jump relative to PC; save PC+4'',
     ''I/S offsets: signed 12 bits (-2048..2047). B/J offsets include a zero low bit.'',
     ''B: -4096..4094; J: -1048576..1048574. Taken targets must align to 4 bytes.'',
     ''Shift immediates are 0..31. Raw rs2 slices in I-format are not register operands.'',
     ''x0 always reads zero; writing it discards the result. A load into x0 can still fault.'']"

fun find_mnemonic :: "string \<Rightarrow> nat list \<Rightarrow> string" where
  "find_mnemonic lower [] = text_line ''Unknown help topic. Use help formats or an RV32I mnemonic.''"
| "find_mnemonic lower (k # kinds) =
     (let entry_info = instruction_info k in
      if lower = info_name entry_info then text_block [info_syntax entry_info, info_description entry_info]
      else find_mnemonic lower kinds)"

definition command_help :: "string ptr \<Rightarrow> string" where
  "command_help topic =
     (case topic of NULL \<Rightarrow> command_summary
      | Ref t \<Rightarrow>
          if t = ''runtime'' then runtime_help
          else if t = ''source'' then source_help
          else if t = ''formats'' then formats_help
          else if length t \<ge> 32 then text_line ''Unknown help topic.''
          else find_mnemonic (map (\<lambda>c. char_of (unat (tolower (of_char c)))) t) [1..<INSTRUCTION_COUNT])"

subsection \<open>Commands\<close>

text \<open>The texts after the command, by their position; \<open>NULL\<close> where the command has none.\<close>

definition argument :: "string list \<Rightarrow> string ptr" where
  "argument args = (if length args = 2 then Ref (args ! 1) else NULL)"

definition where_command :: "string list \<Rightarrow> machine \<Rightarrow> session \<Rightarrow> session" where
  "where_command args m w =
     (let address = (if length args = 2 then number (Ref (args ! 1)) 0xFFFFFFFF
                     else Some (ucast (program_counter (m_cpu m))));
          w = (case address of None \<Rightarrow> puts ''Invalid address.'' w
               | Some a \<Rightarrow> emit (source_view_location (source_files w) (monitor_debug w) (ucast a) True) w)
      in w\<lparr>source_seen := False\<rparr>)"

definition source_command :: "string list \<Rightarrow> machine \<Rightarrow> session \<Rightarrow> session" where
  "source_command args m w =
     (let line = (if length args \<ge> 2 then number (Ref (args ! 1)) 0xFFFFFFFF else Some 0);
          line = (if length args \<ge> 2 \<and> line = Some 0 then None else line);
          index = (if length args = 3 then number (Ref (args ! 2)) (- 1) else Some (- 1));
          index = (if length args = 3 \<and> index = Some (- 1) then None else index);
          w = (case (line, index) of
                 (Some line_number, Some file_number) \<Rightarrow>
                   emit (source_view_lines (source_files w) (monitor_debug w) (program_counter (m_cpu m))
                     (ucast line_number) (unat file_number)) w
               | _ \<Rightarrow> puts ''Use source [positive LINE] [FILE_INDEX].'' w)
      in w\<lparr>source_seen := False\<rparr>)"

definition reset_command :: "machine \<Rightarrow> session \<Rightarrow> machine \<times> session" where
  "reset_command m w =
     (let restored = machine_reset (Ref m);
          w = w\<lparr>has_record := False, source_seen := False, last_source := NULL\<rparr>
      in case restored of
           None \<Rightarrow> (m, puts ''Reset failed.'' w)
         | Some m \<Rightarrow> (m, puts ''Loaded image and CPU restored.'' w))"

text \<open>The limit of \<^verbatim>\<open>step\<close> and \<^verbatim>\<open>run\<close>; \<open>None\<close> when the argument is not a positive number.\<close>

definition attempt_limit :: "string list \<Rightarrow> session \<Rightarrow> u64 option" where
  "attempt_limit args w =
     (if length args = 2
      then case number (Ref (args ! 1)) (- 1) of None \<Rightarrow> None | Some l \<Rightarrow> if l = 0 then None else Some l
      else Some (if hd args = ''step'' then 1 else run_limit w))"

definition run_command :: "string list \<Rightarrow> machine \<Rightarrow> session \<Rightarrow> machine \<times> session" where
  "run_command args m w =
     (case attempt_limit args w of
        None \<Rightarrow> (m, puts ''Instruction limit must be a positive integer.'' w)
      | Some l \<Rightarrow>
          let previous_trace = tracing w; w = w\<lparr>tracing := hd args = ''step'' \<or> previous_trace\<rparr> in
          case machine_run (Ref m) l (Ref stop_requested) (Ref trace_step) w of (run, m, w) \<Rightarrow>
            (the m, emit (report_stop run (the m)) (w\<lparr>tracing := previous_trace\<rparr>)))"

definition execute_command :: "string list \<Rightarrow> machine \<Rightarrow> session \<Rightarrow> machine \<times> session" where
  "execute_command args m w =
     (let command = hd args; n = length args in
      if command = ''help'' \<and> n \<le> 2 then (m, emit (command_help (argument args)) w)
      else if command = ''regs'' \<and> n = 1 then (m, show_registers m w)
      else if command = ''sources'' \<and> n = 1 then (m, emit (source_view_files (monitor_debug w)) w)
      else if command = ''symbols'' \<and> n \<le> 2 then (m, emit (source_view_symbols (monitor_debug w) (argument args)) w)
      else if command = ''where'' \<and> n \<le> 2 then (m, where_command args m w)
      else if command = ''source'' \<and> n \<le> 3 then (m, source_command args m w)
      else if command = ''stop'' \<and> n = 1
      then (the (machine_stop (Ref m)), puts ''CPU stopped. Use step or run to resume.'' w)
      else if command = ''reset'' \<and> n = 1 then reset_command m w
      else if command = ''mem'' \<or> command = ''disasm'' then (m, emit (inspect m w command args) w)
      else if (command = ''step'' \<or> command = ''run'') \<and> n \<le> 2 then run_command args m w
      else (m, puts ''Unknown command or wrong arguments. Type help.'' w))"

subsection \<open>The session\<close>

text \<open>
  \<^verbatim>\<open>fgets\<close> into a buffer of \<open>n\<close> bytes: the line read with whether the read met the end, or \<open>None\<close>,
  and the input left.
\<close>

definition fgets :: "nat \<Rightarrow> string \<Rightarrow> bool \<Rightarrow> (string \<times> bool) option \<times> string" where
  "fgets n input fails =
     (let l = takeWhile (\<lambda>c. c \<noteq> newline) input in
      if length l \<ge> n - 1 then (Some (take (n - 1) input, False), drop (n - 1) input)
      else if length l < length input then (Some (l @ [newline], False), drop (length l + 1) input)
      else if input = '''' \<or> fails then (None, '''')
      else (Some (input, True), ''''))"

definition blank :: "char \<Rightarrow> bool" where
  "blank c \<longleftrightarrow> c = CHR '' '' \<or> c = CHR 0x09 \<or> c = CHR 0x0D \<or> c = newline"

text \<open>The line up to a NUL character, as the string functions see it.\<close>

definition c_string :: "string \<Rightarrow> string" where
  "c_string s = takeWhile (\<lambda>c. c \<noteq> CHR 0x00) s"

text \<open>The words of a line, at most five.\<close>

definition command_words :: "string \<Rightarrow> string list" where
  "command_words s = take 5 (tokens blank s)"

text \<open>One round of the loop: the status when it returns, and the new state.\<close>

definition command_line :: "string list \<Rightarrow> machine \<Rightarrow> session \<Rightarrow> int option \<times> machine \<times> session" where
  "command_line args m w =
     (if args = [] then (None, m, w)
      else if length args > 3 then (None, m, puts ''Too many arguments.'' w)
      else if hd args = ''quit'' \<and> length args = 1 then (Some 0, m, w)
      else (None, execute_command args m w))"

definition interactive_step :: "machine \<Rightarrow> session \<Rightarrow> int option \<times> machine \<times> session" where
  "interactive_step m w =
     (let w = interrupt_handler ((emit ''rv32> '' w)\<lparr>interrupted := False\<rparr>) in
      case (if interrupted w \<and> \<not> reads_restart w then (None, terminal_input w)
            else fgets 512 (terminal_input w) (input_fails w)) of
        (None, input) \<Rightarrow>
          if interrupted w then (None, m, puts ''Interrupted.'' (w\<lparr>terminal_input := input\<rparr>))
          else (Some (if input_fails w then 2 else 0), m, w\<lparr>terminal_input := input\<rparr>)
      | (Some (line, ended), input) \<Rightarrow>
          if newline \<notin> set (c_string line) \<and> \<not> ended
          then (None, m, puts ''Command too long.''
            (w\<lparr>terminal_input := drop 1 (dropWhile (\<lambda>c. c \<noteq> newline) input)\<rparr>))
          else command_line (command_words (c_string line)) m (w\<lparr>terminal_input := input\<rparr>))"

subsection \<open>What commands keep\<close>

text \<open>
  What the owner of the context of a run relies on: a property of the context that both callbacks
  keep is kept by every run, whatever the machine does.
\<close>

locale run_callbacks =
  fixes Q :: "'c \<Rightarrow> bool" and ask :: "'c should_stop" and tell :: "'c trace"
  assumes ask_keeps: "Q c \<Longrightarrow> Q (snd (ask_stop ask c))"
    and tell_keeps: "Q c \<Longrightarrow> Q (tell_trace tell one c)"
begin

lemma loop_context:
  "Q c \<Longrightarrow> run_loop limit ask tell m c sofar = (r, m', c') \<Longrightarrow> Q c'"
proof (induction limit s \<equiv> ask t \<equiv> tell m c sofar rule: run_loop.induct)
  case (1 limit m c0 sofar)
  obtain stop c1 where ask: "ask_stop ask c0 = (stop, c1)" by fastforce
  obtain one m1 where step: "machine_step m = (one, m1)" by fastforce
  have keep: "Q c1" "Q (tell_trace tell one c1)"
    using ask_keeps [OF "1.prems"(1)] tell_keeps ask by simp_all
  show ?case
  proof (cases "run_attempts sofar < limit \<and> \<not> stop \<and> run_reason one = MACHINE_READY")
    case True
    show ?thesis
      by (rule "1.hyps" [OF _ ask [symmetric] _ step [symmetric] refl refl])
        (use True "1.prems"(2) ask step keep in \<open>simp_all add: Let_def run_loop.simps [of limit ask tell m c0 sofar]\<close>)
  next
    case False
    with "1.prems" ask step keep show ?thesis
      by (auto simp: Let_def run_loop.simps [of limit ask tell m c0 sofar] split: if_splits)
  qed
qed

lemma run_context:
  "Q c \<Longrightarrow> machine_run m limit ask tell c = (r, m', c') \<Longrightarrow> Q c'"
  using loop_context by (auto simp: machine_run_def simp del: run_loop.simps split: if_splits)

end

text \<open>
  A later state of a session: the input and the settings are the same, some of the signals may have
  arrived, and text may have been written.
\<close>

definition follows :: "session \<Rightarrow> session \<Rightarrow> bool" where
  "follows w w' \<longleftrightarrow>
     monitor_debug w' = monitor_debug w \<and> run_limit w' = run_limit w \<and> tracing w' = tracing w
     \<and> coloring w' = coloring w \<and> source_files w' = source_files w \<and> reads_restart w' = reads_restart w
     \<and> terminal_input w' = terminal_input w \<and> input_fails w' = input_fails w
     \<and> suffix (signals w') (signals w) \<and> prefix (written w) (written w')"

lemma follows_refl: "follows w w"
  by (simp add: follows_def)

lemma follows_trans: "follows w w1 \<Longrightarrow> follows w1 w2 \<Longrightarrow> follows w w2"
  by (auto simp: follows_def intro: suffix_order.trans prefix_order.trans)

lemma follows_emit: "follows w0 w \<Longrightarrow> follows w0 (emit s w)"
  by (auto simp: follows_def emit_def)

lemma follows_puts: "follows w0 w \<Longrightarrow> follows w0 (puts s w)"
  by (simp add: puts_def follows_emit)

lemma follows_views:
  "follows w0 w \<Longrightarrow> follows w0 (w\<lparr>last_source := l\<rparr>)" "follows w0 w \<Longrightarrow> follows w0 (w\<lparr>source_seen := b\<rparr>)"
  "follows w0 w \<Longrightarrow> follows w0 (w\<lparr>has_record := b\<rparr>)" "follows w0 w \<Longrightarrow> follows w0 (w\<lparr>last_step := r\<rparr>)"
  "follows w0 w \<Longrightarrow> follows w0 (w\<lparr>interrupted := b\<rparr>)"
  by (simp_all add: follows_def)

lemma follows_interrupt: "follows w0 w \<Longrightarrow> follows w0 (interrupt_handler w)"
  by (auto simp: follows_def interrupt_handler_def suffix_ConsD split: list.split)

lemma follows_trace_step: "follows w0 w \<Longrightarrow> follows w0 (trace_step record w)"
  by (auto simp: trace_step_def Let_def intro!: follows_puts follows_emit follows_views)

lemma follows_register_loop: "follows w0 w \<Longrightarrow> register_loop m regs w = (b, w') \<Longrightarrow> follows w0 w'"
  by (induction m regs w rule: register_loop.induct) (auto simp: follows_emit split: option.splits)

interpretation session_run: run_callbacks "follows w0" "Ref stop_requested" "Ref trace_step" for w0
  by unfold_locales
    (simp_all add: ask_stop_def tell_trace_def stop_requested_def Let_def follows_interrupt follows_trace_step)


text \<open>What a command does to the machine is a sequence of steps, stops and resets.\<close>

definition keeps :: "machine \<Rightarrow> session \<Rightarrow> machine \<times> session \<Rightarrow> bool" where
  "keeps m w p \<longleftrightarrow> machine_op\<^sup>*\<^sup>* m (fst p) \<and> follows w (snd p)"

lemma keeps_if: "keeps m w p \<Longrightarrow> keeps m w q \<Longrightarrow> keeps m w (if b then p else q)"
  by simp

lemma keeps_same: "follows w w' \<Longrightarrow> keeps m w (m, w')"
  by (simp add: keeps_def)

lemma run_command_keeps: "keeps m w (run_command args m w)"
proof (cases "attempt_limit args w")
  case None
  then show ?thesis by (simp add: run_command_def keeps_same follows_puts follows_refl)
next
  case (Some l)
  define w1 where "w1 = w\<lparr>tracing := hd args = ''step'' \<or> tracing w\<rparr>"
  obtain run m1 w2 where run: "machine_run (Ref m) l (Ref stop_requested) (Ref trace_step) w1 = (run, m1, w2)"
    by (metis prod_cases3)
  from reach.run_keeps [OF rtranclp.rtrancl_refl run] obtain x where x: "m1 = Ref x" "machine_op\<^sup>*\<^sup>* m x" by blast
  have "follows w1 w2" using session_run.run_context [OF follows_refl run] .
  then have "follows w (w2\<lparr>tracing := tracing w\<rparr>)" by (simp add: follows_def w1_def)
  moreover have "run_command args m w = (x, emit (report_stop run x) (w2\<lparr>tracing := tracing w\<rparr>))"
    using run x(1) by (simp add: run_command_def Some Let_def w1_def)
  ultimately show ?thesis using x(2) follows_emit by (simp add: keeps_def)
qed

lemma reset_command_keeps: "keeps m w (reset_command m w)"
  using op_reset
  by (auto simp: keeps_def reset_command_def Let_def follows_puts follows_views follows_refl split: option.split)

lemma show_registers_follows: "follows w (show_registers m w)"
  using follows_register_loop [OF follows_refl [of w], of m "[0..<CPU_REGISTER_COUNT]"]
  by (auto simp: show_registers_def intro!: follows_puts split: prod.split bool.split)

lemma view_commands_follow: "follows w (where_command args m w)" "follows w (source_command args m w)"
  by (auto simp: where_command_def source_command_def Let_def follows_refl
      intro!: follows_puts follows_emit follows_views split: option.split)

lemma stop_keeps: "follows w w' \<Longrightarrow> keeps m w (the (machine_stop (Ref m)), w')"
  using op_stop by (auto simp: keeps_def)

lemma execute_command_keeps: "keeps m w (execute_command args m w)"
  unfolding execute_command_def Let_def
  by (intro keeps_if run_command_keeps reset_command_keeps stop_keeps keeps_same view_commands_follow
      show_registers_follows follows_emit follows_puts follows_refl)

subsection \<open>The loop of a session\<close>

definition pending :: "session \<Rightarrow> nat" where
  "pending w = length (terminal_input w) + length (signals w)"

lemma follows_pending: "follows w w' \<Longrightarrow> pending w' \<le> pending w"
  by (auto simp: follows_def pending_def dest: suffix_length_le)

lemma fgets_consumes:
  "fgets (Suc (Suc n)) input fails = (r, others) \<Longrightarrow> length others \<le> length input \<and> (r \<noteq> None \<longrightarrow> length others < length input)"
  using length_takeWhile_le [of "\<lambda>c. c \<noteq> newline" input]
  by (cases "input = []") (auto simp: fgets_def Let_def split: if_splits)

lemma command_line_keeps: "command_line args m w = (status, m', w') \<Longrightarrow> keeps m w (m', w')"
  using execute_command_keeps [of m w args]
  by (auto simp: command_line_def keeps_same follows_puts follows_refl split: if_splits)

lemma interactive_step_pending:
  assumes "interactive_step m w = (status, m', w')"
  shows "machine_op\<^sup>*\<^sup>* m m' \<and> pending w' \<le> pending w \<and> (status = None \<longrightarrow> pending w' < pending w)"
proof -
  define w1 where "w1 = interrupt_handler ((emit ''rv32> '' w)\<lparr>interrupted := False\<rparr>)"
  have w1: "terminal_input w1 = terminal_input w" "length (signals w1) \<le> length (signals w)"
    "interrupted w1 \<Longrightarrow> length (signals w1) < length (signals w)" "input_fails w1 = input_fails w"
    by (auto simp: w1_def interrupt_handler_def emit_def split: list.splits)
  obtain r input where read: "(if interrupted w1 \<and> \<not> reads_restart w1 then (None, terminal_input w1)
      else fgets 512 (terminal_input w1) (input_fails w1)) = (r, input)" by fastforce
  then have input: "length input \<le> length (terminal_input w)" "r \<noteq> None \<Longrightarrow> length input < length (terminal_input w)"
    using fgets_consumes [of 510 "terminal_input w1" "input_fails w1" r input] w1(1) by (auto split: if_splits)
  have step: "interactive_step m w = (case r of
        None \<Rightarrow>
          if interrupted w1 then (None, m, puts ''Interrupted.'' (w1\<lparr>terminal_input := input\<rparr>))
          else (Some (if input_fails w1 then 2 else 0), m, w1\<lparr>terminal_input := input\<rparr>)
      | Some (line, ended) \<Rightarrow>
          if newline \<notin> set (c_string line) \<and> \<not> ended
          then (None, m, puts ''Command too long.''
            (w1\<lparr>terminal_input := drop 1 (dropWhile (\<lambda>c. c \<noteq> newline) input)\<rparr>))
          else command_line (command_words (c_string line)) m (w1\<lparr>terminal_input := input\<rparr>))"
    unfolding interactive_step_def Let_def w1_def [symmetric] read by (simp split: option.split prod.split)
  show ?thesis
  proof (cases r)
    case None
    with assms step w1 input show ?thesis
      by (auto simp: pending_def puts_def emit_def split: if_splits)
  next
    case (Some got)
    obtain line ended where got: "got = (line, ended)" by fastforce
    show ?thesis
    proof (cases "newline \<notin> set (c_string line) \<and> \<not> ended")
      case True
      have "length (drop 1 (dropWhile (\<lambda>c. c \<noteq> newline) input)) \<le> length input"
        using length_dropWhile_le [of "\<lambda>c. c \<noteq> newline" input] by simp
      with True assms step w1 input Some got show ?thesis
        by (auto simp: pending_def puts_def emit_def)
    next
      case False
      have "command_line (command_words (c_string line)) m (w1\<lparr>terminal_input := input\<rparr>) = (status, m', w')"
        using assms unfolding step Some got option.case prod.case if_not_P [OF False] .
      from command_line_keeps [OF this] have "machine_op\<^sup>*\<^sup>* m m'" "pending w' \<le> pending (w1\<lparr>terminal_input := input\<rparr>)"
        using follows_pending by (simp_all add: keeps_def)
      moreover have "pending (w1\<lparr>terminal_input := input\<rparr>) < pending w"
        using input(2) w1(2) Some by (simp add: pending_def)
      ultimately show ?thesis by simp
    qed
  qed
qed

function interactive_loop :: "machine \<Rightarrow> session \<Rightarrow> int \<times> machine \<times> session" where
  "interactive_loop m w =
     (case interactive_step m w of
        (Some status, m, w) \<Rightarrow> (status, m, w)
      | (None, m, w) \<Rightarrow> interactive_loop m w)"
  by pat_completeness auto
termination
  by (relation "measure (\<lambda>(m, w). pending w)") (auto dest: interactive_step_pending [OF sym])

declare interactive_loop.simps [simp del]

definition interactive :: "machine \<Rightarrow> session \<Rightarrow> int \<times> machine \<times> session" where
  "interactive m w = interactive_loop m (puts ''Monitor ready. Type help for commands.'' w)"

end
