(* ===== verification/Session.thy ===== *)
theory Session
  imports Monitor Machine_Refinement
begin

section \<open>Sessions of the monitor\<close>

text \<open>
  Properties of the monitor: what an inspection shows, that sessions end and keep the program, and
  that tracing only watches.
\<close>

subsection \<open>What an inspection shows\<close>

lemma number_less:
  assumes "number (Ref s) (of_nat sz - 1) = Some a" "0 < sz" "sz < 2 ^ 64"
  shows "unat a < sz"
proof -
  have "(of_nat sz - 1 :: u64) = of_nat (sz - 1)" using assms(2) by (simp add: of_nat_diff)
  moreover have "unat (of_nat (sz - 1) :: u64) = sz - 1"
    using assms(3) by (intro unat_64) simp
  ultimately have "unat (of_nat sz - 1 :: u64) = sz - 1" by simp
  moreover have "a \<le> of_nat sz - 1" using assms(1) by (simp add: number_denotes)
  ultimately have "unat a \<le> sz - 1" by (simp only: word_le_nat_alt)
  with assms(2) show ?thesis by simp
qed

lemma inspection_range_inside:
  assumes "inspection_range dump (of_nat sz) args = Some (a, n)" "4 \<le> sz" "sz \<le> 268435456"
  shows "0 < unat n \<and> unat n \<le> (if dump then 4096 else 256) \<and> (\<not> dump \<longrightarrow> unat a mod 4 = 0)
    \<and> unat a + (if dump then unat n else 4 * unat n) \<le> sz"
proof -
  have sz: "unat (of_nat sz :: u64) = sz" using assms(3) by (intro unat_64) simp
  obtain num: "number (Ref (args ! 1)) (of_nat sz - 1) = Some a"
    and n: "(if length args = 3 then number (Ref (args ! 2)) (if dump then 4096 else 256) else Some (if dump then 32 else 8)) = Some n"
    and ok: "n \<noteq> 0" "if dump then n \<le> of_nat sz - a else a mod 4 = 0 \<and> n \<le> (of_nat sz - a) div 4"
    using assms(1)
    by (auto simp: inspection_range_def Let_def MAX_INSPECTION_BYTES_def MAX_DISASSEMBLY_WORDS_def not_less
        split: option.splits if_splits)
  have a: "unat a < sz" using num assms(2,3) by (intro number_less [of "args ! 1"]) simp_all
  have room: "unat (of_nat sz - a) = sz - unat a"
    using a sz by (simp add: unat_sub word_le_nat_alt)
  have le: "n \<le> (if dump then 4096 else 256)"
    using n by (auto simp: number_denotes split: if_splits)
  have "unat n \<le> (if dump then 4096 else 256)" using le by (cases dump) (simp_all add: word_le_nat_alt)
  moreover have "0 < unat n" using ok(1) by (simp add: unat_gt_0)
  moreover have "unat a + (if dump then unat n else 4 * unat n) \<le> sz"
  proof (cases dump)
    case True
    then have "unat n \<le> sz - unat a" using ok(2) room by (simp add: word_le_nat_alt)
    with a True show ?thesis by simp
  next
    case False
    then have "unat n \<le> (sz - unat a) div 4" using ok(2) room by (simp add: word_le_nat_alt unat_div_distrib)
    with a False show ?thesis by simp
  qed
  moreover have "unat a mod 4 = 0" if "\<not> dump"
  proof -
    have "unat (a mod 4) = 0" using ok(2) that by simp
    then show ?thesis by (simp add: unat_mod_distrib)
  qed
  ultimately show ?thesis by simp
qed

lemma unat_add_64:
  fixes a :: u64
  assumes "unat a + k \<le> 268435456"
  shows "unat (a + of_nat k) = unat a + k"
proof -
  have "unat (of_nat k :: u64) = k" using assms by (intro unat_64) simp
  with assms show ?thesis by (simp add: unat_word_ariths)
qed

text \<open>The two listings, from the bytes or the words shown.\<close>

definition byte_listing :: "nat \<Rightarrow> u8 list \<Rightarrow> string" where
  "byte_listing address bs = concat (map (\<lambda>i.
     (if i mod 16 = 0 then word_hex (address + i) @ '':'' else '''') @ '' '' @ pad 2 (hex (unat (bs ! i)))
     @ (if i mod 16 = 15 \<or> i + 1 = length bs then [newline] else '''')) [0..<length bs])"

definition source_note :: "DebugInfo \<Rightarrow> u32 \<Rightarrow> string" where
  "source_note debug at =
     (case debug_info_lookup (Ref debug) at of
        Ref location \<Rightarrow> ''  ; '' @ debug_files debug ! source_file location @ '':'' @ dec (unat (source_line location))
      | NULL \<Rightarrow> ''  ; <no source mapping>'')"

definition word_row :: "DebugInfo \<Rightarrow> nat \<Rightarrow> u32 \<Rightarrow> string" where
  "word_row debug address w =
     text_line (word_hex address @ ''  '' @ pad 8 (hex (unat w)) @ ''  '' @ disassembly_text w
       @ source_note debug (of_nat address))"

definition word_listing :: "DebugInfo \<Rightarrow> nat \<Rightarrow> u32 list \<Rightarrow> string" where
  "word_listing debug address ws =
     concat (map (\<lambda>i. word_row debug (address + 4 * i) (ws ! i)) [0..<length ws])"

lemma disassembly_rows_all:
  assumes "\<forall>i\<in>set is. unat address + i * 4 \<le> 268435456 \<and>
    memory_read_u32 (Ref (m_memory m)) (of_nat (unat address + 4 * i)) True = Some (word_at i)"
  shows "disassembly_rows m debug address is = concat (map (\<lambda>i. word_row debug (unat address + 4 * i) (word_at i)) is)"
  using assms
proof (induction "is")
  case (Cons i others)
  have at: "unat (address + of_nat i * 4) = unat address + 4 * i"
    using unat_add_64 [of address "i * 4"] Cons.prems by (simp add: mult.commute)
  have narrow: "(ucast (address + of_nat i * 4) :: u32) = of_nat (unat address + 4 * i)"
    unfolding at [symmetric] by simp
  have read: "memory_read_u32 (Ref (m_memory m)) (of_nat (unat address + 4 * i)) True = Some (word_at i)"
    using Cons.prems by simp
  have "instruction_disassemble (word_at i) True 128 = (True, Some (disassembly_text (word_at i)))"
    using length_text [of "word_at i"] by (simp add: instruction_disassemble_def)
  with Cons read show ?case
    by (simp add: Let_def narrow at word_row_def source_note_def word_hex_def del: of_nat_add of_nat_mult)
qed simp

lemma loaded_ram:
  assumes "machine_wf m" "m_loaded m"
  shows "memory_wf (m_memory m)" "mem_bytes (m_memory m) \<noteq> NULL"
    "4 \<le> mem_size (m_memory m)" "mem_size (m_memory m) \<le> 268435456"
proof -
  show wf: "memory_wf (m_memory m)" using assms by (simp add: machine_wf_def)
  have "memory_size_valid (mem_size (m_memory m))"
    using assms by (auto simp: machine_wf_def program_wf_def memory_wf_def split: option.splits)
  then show "4 \<le> mem_size (m_memory m)" "mem_size (m_memory m) \<le> 268435456" using memory_size_validD by blast+
  then show "mem_bytes (m_memory m) \<noteq> NULL" using wf by (auto simp: memory_wf_def split: option.splits)
qed

lemma unat_32:
  assumes "n < 2 ^ 32"
  shows "unat (of_nat n :: u32) = n"
proof -
  have "n < 2 ^ LENGTH(32)" using assms by simp
  then show ?thesis by (simp only: unsigned_of_nat take_bit_nat_eq_self of_nat_id)
qed

lemma inspect_bytes:
  assumes ram: "machine_wf m" "m_loaded m"
    and range: "inspection_range True (of_nat (mem_size (m_memory m))) args = Some (a, n)"
  shows "\<exists>bs. length bs = unat n \<and> inspect m w ''mem'' args = byte_listing (unat a) bs
    \<and> (\<forall>i<unat n. memory_read_u8 (Ref (m_memory m)) (of_nat (unat a + i)) True = Some (bs ! i))"
proof -
  let ?mem = "m_memory m"
  define bs where "bs = take (unat n) (drop (unat a) (bytes_of ?mem))"
  note mem = loaded_ram [OF ram]
  have len: "length (bytes_of ?mem) = mem_size ?mem" using mem by (auto simp: memory_wf_bytes)
  have in_ram: "unat a + i < mem_size ?mem" if "i < unat n" for i
    using inspection_range_inside [OF range mem(3,4)] that by auto
  have length: "length bs = unat n"
    using inspection_range_inside [OF range mem(3,4)] len by (simp add: bs_def min_def) arith
  have nth: "bs ! i = bytes_of ?mem ! (unat a + i)" if "i < unat n" for i
    using that len in_ram [OF that] by (simp add: bs_def)
  have "dump_cell m a (unat n) i =
      (if i mod 16 = 0 then word_hex (unat a + i) @ '':'' else '''') @ '' '' @ pad 2 (hex (unat (bs ! i)))
      @ (if i mod 16 = 15 \<or> i + 1 = unat n then [newline] else '''')" if "i < unat n" for i
  proof -
    have "unat (a + of_nat i) = unat a + i" using in_ram [OF that] mem(4) by (intro unat_add_64) simp
    then show ?thesis by (simp add: dump_cell_def word_hex_def nth [OF that])
  qed
  then have "inspect m w ''mem'' args = byte_listing (unat a) bs"
    using range length unfolding inspect_def byte_listing_def
    by (auto intro!: arg_cong [of _ _ concat] map_cong)
  moreover have "memory_read_u8 (Ref ?mem) (of_nat (unat a + i)) True = Some (bs ! i)" if "i < unat n" for i
    using in_ram [OF that] mem unat_32 [of "unat a + i"] nth [OF that]
    by (simp add: memory_read_u8_wf del: of_nat_add)
  ultimately show ?thesis using length by blast
qed

lemma word_listing_map:
  "word_listing debug address (map f [0..<n]) = concat (map (\<lambda>i. word_row debug (address + 4 * i) (f i)) [0..<n])"
  by (auto simp: word_listing_def intro!: arg_cong [of _ _ concat])

lemma inspect_words:
  assumes ram: "machine_wf m" "m_loaded m" and "command \<noteq> ''mem''"
    and range: "inspection_range False (of_nat (mem_size (m_memory m))) args = Some (a, n)"
  shows "\<exists>ws. length ws = unat n \<and> inspect m w command args = word_listing (monitor_debug w) (unat a) ws
    \<and> (\<forall>i<unat n. memory_read_u32 (Ref (m_memory m)) (of_nat (unat a + 4 * i)) True = Some (ws ! i))"
proof -
  let ?mem = "m_memory m"
  note mem = loaded_ram [OF ram]
  note inside = inspection_range_inside [OF range mem(3,4)]
  have "\<exists>v. memory_read_u32 (Ref ?mem) (of_nat (unat a + 4 * i)) True = Some v" if "i < unat n" for i
  proof -
    have "unat a + 4 * i + 4 \<le> mem_size ?mem" "4 dvd unat a + 4 * i"
      using inside that by (auto simp: dvd_eq_mod_eq_0)
    then have "memory_access_valid (Ref ?mem) (of_nat (unat a + 4 * i)) 4"
      using mem unat_32 [of "unat a + 4 * i"] by (simp add: memory_access_valid_iff del: of_nat_add of_nat_mult)
    then show ?thesis using cell32.rd_defined [of "Ref ?mem" "of_nat (unat a + 4 * i)" True] by auto
  qed
  then obtain word_at where at: "\<And>i. i < unat n \<Longrightarrow>
      memory_read_u32 (Ref ?mem) (of_nat (unat a + 4 * i)) True = Some (word_at i)" by metis
  have "unat a + i * 4 \<le> 268435456" if "i < unat n" for i using inside that mem(4) by simp
  then have "inspect m w command args = word_listing (monitor_debug w) (unat a) (map word_at [0..<unat n])"
    using range assms(3) at
    by (simp add: inspect_def word_listing_map disassembly_rows_all [where word_at = word_at])
  then show ?thesis using at by (intro exI [of _ "map word_at [0..<unat n]"]) simp
qed

text \<open>
  C33. An accepted inspection shows the RAM as it is. A \<^verbatim>\<open>mem\<close> command lists from 1 to 4096 bytes and a
  \<^verbatim>\<open>disasm\<close> command from 1 to 256 words, all of them inside the RAM: each is what a checked read at
  its address returns, in order of addresses, and no row of a disassembly fails. So the byte array is
  never indexed outside.
\<close>

theorem inspect_exact:
  assumes "machine_wf m" "m_loaded m"
    and "inspection_range (command = ''mem'') (of_nat (mem_size (m_memory m))) args = Some (a, n)"
  shows "if command = ''mem''
    then \<exists>bs. length bs = unat n \<and> 0 < unat n \<and> unat n \<le> 4096
      \<and> (\<forall>i<unat n. memory_read_u8 (Ref (m_memory m)) (of_nat (unat a + i)) True = Some (bs ! i))
      \<and> inspect m w command args = byte_listing (unat a) bs
    else \<exists>ws. length ws = unat n \<and> 0 < unat n \<and> unat n \<le> 256
      \<and> (\<forall>i<unat n. memory_read_u32 (Ref (m_memory m)) (of_nat (unat a + 4 * i)) True = Some (ws ! i))
      \<and> inspect m w command args = word_listing (monitor_debug w) (unat a) ws"
proof (cases "command = ''mem''")
  case True
  then have range: "inspection_range True (of_nat (mem_size (m_memory m))) args = Some (a, n)" using assms(3) by simp
  then show ?thesis
    using inspect_bytes [OF assms(1,2) range, of w] inspection_range_inside [OF range loaded_ram(3,4) [OF assms(1,2)]] True
    by (simp del: of_nat_add) blast
next
  case False
  then have range: "inspection_range False (of_nat (mem_size (m_memory m))) args = Some (a, n)" using assms(3) by simp
  then show ?thesis
    using inspect_words [OF assms(1,2) False range, of w] inspection_range_inside [OF range loaded_ram(3,4) [OF assms(1,2)]] False
    by (simp del: of_nat_add of_nat_mult) blast
qed

definition sample_session :: session where
  "sample_session = \<lparr>monitor_debug = zero_debug, last_source = NULL, source_seen = False, run_limit = DEFAULT_LIMIT,
     tracing = False, coloring = False, has_record = False, last_step = zero_record, interrupted = False,
     signals = [], reads_restart = False, terminal_input = ''step'' @ [newline] @ ''quit'' @ [newline],
     input_fails = False, source_files = (\<lambda>_. Inl ''''), written = ''''\<rparr>"

theorem inspect_exact_witness:
  "\<exists>bs. length bs = 8 \<and>
     (\<forall>i<8. memory_read_u8 (Ref (m_memory (fresh_machine exit_program))) (of_nat i) True = Some (bs ! i)) \<and>
     inspect (fresh_machine exit_program) sample_session ''mem'' [''mem'', ''0'', ''8''] = byte_listing 0 bs"
proof -
  have "dec 0 = ''0''" "dec 8 = ''8''" by code_simp+
  then have "denotes ''0'' 0" "denotes ''8'' 8" using denotes_dec [of 0] denotes_dec [of 8] by simp_all
  then have "number (Ref ''0'') 7 = Some 0" "number (Ref ''8'') 4096 = Some 8" by (simp_all add: number_denotes)
  then have "inspection_range True (of_nat (mem_size (m_memory (fresh_machine exit_program)))) [''mem'', ''0'', ''8''] = Some (0, 8)"
    by (simp add: inspection_range_def MAX_INSPECTION_BYTES_def fresh_machine_def exit_program_def image_program_def)
  moreover have "m_loaded (fresh_machine exit_program)" by (simp add: fresh_machine_def)
  ultimately show ?thesis
    using inspect_exact [OF machine_wf_fresh [OF exit_program_wf], where command = "''mem''" and args = "[''mem'', ''0'', ''8'']"
        and a = 0 and n = 8 and w = sample_session]
    by auto
qed

subsection \<open>Sessions end\<close>

text \<open>The first rounds of a session: the status when one of them returns, and the state after them.\<close>

fun session_rounds :: "nat \<Rightarrow> machine \<Rightarrow> session \<Rightarrow> int option \<times> machine \<times> session" where
  "session_rounds 0 m w = (None, m, w)"
| "session_rounds (Suc n) m w =
     (case interactive_step m w of
        (Some status, m, w) \<Rightarrow> (Some status, m, w)
      | (None, m, w) \<Rightarrow> session_rounds n m w)"

lemma rounds_return:
  "pending w < n \<Longrightarrow> \<exists>status m' w'. session_rounds n m w = (Some status, m', w') \<and> interactive_loop m w = (status, m', w')"
proof (induction n arbitrary: m w)
  case (Suc n)
  obtain r m1 w1 where step: "interactive_step m w = (r, m1, w1)" by (metis prod_cases3)
  show ?case
  proof (cases r)
    case None
    then have "pending w1 < n" using interactive_step_pending [OF step] Suc.prems by simp
    with Suc.IH None step show ?thesis by (simp add: interactive_loop.simps [of m w])
  qed (use step in \<open>simp add: interactive_loop.simps [of m w]\<close>)
qed simp

text \<open>
  C16. Every session ends. Each round of the prompt either returns or uses up input or a signal, so a
  session returns within as many rounds as there are characters of input and signals to come, and one
  more; the session as a whole has the result of these rounds. A line with the word \<^verbatim>\<open>quit\<close> ends it at
  once with status 0 and leaves the machine and the rest of the input alone.
\<close>

theorem session_ends:
  "(\<exists>status m' w'. session_rounds (length (terminal_input w) + length (signals w) + 1) m w = (Some status, m', w')
      \<and> interactive_loop m w = (status, m', w'))
   \<and> (\<exists>w'. interactive_loop m (w\<lparr>terminal_input := ''quit'' @ [newline] @ others, signals := []\<rparr>) = (0, m, w')
        \<and> terminal_input w' = others)"
proof
  show "\<exists>status m' w'. session_rounds (length (terminal_input w) + length (signals w) + 1) m w = (Some status, m', w')
      \<and> interactive_loop m w = (status, m', w')"
    by (rule rounds_return) (simp add: pending_def)
  have "fgets 512 (''quit'' @ [newline] @ others) fails = (Some (''quit'' @ [newline], False), others)" for fails
    by (simp add: fgets_def newline_def)
  moreover have "newline \<in> set (c_string (''quit'' @ [newline]))" "command_words (c_string (''quit'' @ [newline])) = [''quit'']"
    by code_simp+
  ultimately have "\<exists>w'. interactive_step m (w\<lparr>terminal_input := ''quit'' @ [newline] @ others, signals := []\<rparr>) = (Some 0, m, w')
      \<and> terminal_input w' = others"
    by (simp add: interactive_step_def interrupt_handler_def emit_def command_line_def)
  then show "\<exists>w'. interactive_loop m (w\<lparr>terminal_input := ''quit'' @ [newline] @ others, signals := []\<rparr>) = (0, m, w')
      \<and> terminal_input w' = others"
    by (auto simp: interactive_loop.simps [of m "w\<lparr>terminal_input := _, signals := []\<rparr>"])
qed

subsection \<open>Sessions keep the program\<close>

lemma interactive_step_status:
  assumes "interactive_step m w = (status, m', w')"
  shows "input_fails w' = input_fails w \<and> status \<in> {None, Some 0, Some (if input_fails w then 2 else 0)}"
proof -
  define w1 where "w1 = interrupt_handler ((emit ''rv32> '' w)\<lparr>interrupted := False\<rparr>)"
  have w1: "input_fails w1 = input_fails w"
    by (simp add: w1_def interrupt_handler_def emit_def split: list.split)
  have command: "input_fails w'' = input_fails w \<and> s \<in> {None, Some 0}"
    if "command_line args m (w1\<lparr>terminal_input := input\<rparr>) = (s, m'', w'')" for args input s m'' w''
    using command_line_keeps [OF that] that w1
    by (auto simp: keeps_def follows_def command_line_def split: if_splits)
  show ?thesis
    using assms w1 unfolding interactive_step_def Let_def w1_def [symmetric]
    by (auto simp: puts_def emit_def dest: command split: option.splits prod.splits if_splits)
qed

lemma interactive_loop_reach:
  "interactive_loop m w = (status, m', w') \<Longrightarrow>
    machine_op\<^sup>*\<^sup>* m m' \<and> status \<in> {0, if input_fails w then 2 else 0}"
proof (induction m w arbitrary: status m' w' rule: interactive_loop.induct)
  case (1 m w)
  obtain r m1 w1 where step: "interactive_step m w = (r, m1, w1)" by (metis prod_cases3)
  note facts = interactive_step_pending [OF step] interactive_step_status [OF step]
  show ?case
  proof (cases r)
    case None
    then have "interactive_loop m1 w1 = (status, m', w')"
      using "1.prems" step by (simp add: interactive_loop.simps [of m w])
    from "1.IH" [OF step [symmetric] None refl this] facts show ?thesis by auto
  next
    case (Some s)
    then show ?thesis using "1.prems" step facts by (auto simp: interactive_loop.simps [of m w])
  qed
qed

text \<open>
  C15. No session harms the program. Whatever is typed, and whenever signals arrive, the machine after
  the session is one that steps, stops and resets of the machine before it can reach: its state is one
  of an execution of the program in the specification, it is well formed, still has the program that
  was loaded, and a reset restores it. The status is 0, or 2 when reading the input failed.
\<close>

theorem session_keeps_program:
  assumes "program_wf p" and "machine_op\<^sup>*\<^sup>* (fresh_machine p) m" and "interactive m w = (status, m', w')"
  shows "machine_op\<^sup>*\<^sup>* m m' \<and> machine_wf m' \<and> m_initial m' = m_initial m
    \<and> machine_reset (Ref m') = Some (fresh_machine p)
    \<and> isa_retires\<^sup>*\<^sup>* (isa_start p) (machine_state m')
    \<and> (status = 0 \<or> status = 2 \<and> input_fails w)"
proof -
  have loop: "machine_op\<^sup>*\<^sup>* m m'" "status \<in> {0, if input_fails w then 2 else 0}"
    using interactive_loop_reach [OF assms(3) [unfolded interactive_def]] by (auto simp: puts_def emit_def)
  have m: "machine_wf m \<and> m_loaded m"
    using machine_ops_keep [OF assms(2) machine_wf_fresh [OF assms(1)]] by (simp add: fresh_machine_def)
  then have "machine_wf m' \<and> m_initial m' = m_initial m" using machine_ops_keep [OF loop(1)] by blast
  moreover have reached: "machine_op\<^sup>*\<^sup>* (fresh_machine p) m'" using assms(2) loop(1) by (rule rtranclp_trans)
  then have "machine_reset (Ref m') = Some (fresh_machine p)" by (rule reset_reached [OF assms(1)])
  moreover have "isa_retires\<^sup>*\<^sup>* (isa_start p) (machine_state m')"
    using assms(1) reached by (rule machine_ops_follow)
  ultimately show ?thesis using loop by (auto split: if_splits)
qed

theorem session_keeps_program_witness:
  "\<exists>status m' w'. interactive (fresh_machine exit_program) sample_session = (status, m', w') \<and> status = 0
     \<and> machine_wf m' \<and> machine_reset (Ref m') = Some (fresh_machine exit_program)"
proof -
  obtain status m' w' where run: "interactive (fresh_machine exit_program) sample_session = (status, m', w')"
    by (metis prod_cases3)
  from session_keeps_program [OF exit_program_wf rtranclp.rtrancl_refl this] show ?thesis
    using run by (auto simp: sample_session_def)
qed

subsection \<open>Tracing\<close>

text \<open>
  Contexts that only differ in what tracing writes and remembers: the flag and the signals are the same.
\<close>

definition same_signals :: "session \<Rightarrow> session \<Rightarrow> bool" where
  "same_signals v w \<longleftrightarrow> interrupted v = interrupted w \<and> signals v = signals w"

lemma same_signals_ask:
  assumes "same_signals v w"
  shows "fst (stop_requested v) = fst (stop_requested w)" "same_signals (snd (stop_requested v)) (snd (stop_requested w))"
  using assms by (auto simp: same_signals_def stop_requested_def interrupt_handler_def Let_def split: list.split)

lemma same_signals_trace: "same_signals v w \<Longrightarrow> same_signals (trace_step record v) w"
  by (simp add: same_signals_def trace_step_def Let_def puts_def emit_def)

lemma run_loop_untraced:
  "same_signals v w \<Longrightarrow>
    (case run_loop limit (Ref stop_requested) (Ref trace_step) m v sofar of (r, m', v') \<Rightarrow>
     case run_loop limit (Ref stop_requested) NULL m w sofar of (s, n', w') \<Rightarrow> r = s \<and> m' = n' \<and> same_signals v' w')"
proof (induction limit a \<equiv> "Ref stop_requested" t \<equiv> "Ref trace_step" m v sofar arbitrary: w rule: run_loop.induct)
  case (1 limit m v sofar)
  obtain stop v1 where ask: "stop_requested v = (stop, v1)" by fastforce
  then obtain w1 where ask': "stop_requested w = (stop, w1)" and same: "same_signals v1 w1"
    using same_signals_ask [OF "1.prems"] by (cases "stop_requested w") auto
  obtain one m1 where step: "machine_step m = (one, m1)" by fastforce
  have traced: "same_signals (tell_trace (Ref trace_step) one v1) w1"
    using same same_signals_trace by (simp add: tell_trace_def)
  show ?case
  proof (cases "run_attempts sofar < limit \<and> \<not> stop \<and> run_reason one = MACHINE_READY")
    case True
    then have live: "run_attempts sofar < limit" "\<not> stop" "\<not> run_reason one \<noteq> MACHINE_READY" by simp_all
    have "ask_stop (Ref stop_requested) v = (stop, v1)" using ask by (simp add: ask_stop_def)
    from "1.hyps" [OF live(1) this [symmetric] live(2) step [symmetric] refl refl live(3) traced]
    show ?thesis
      using live ask ask' step
      by (simp add: run_loop.simps [of limit _ _ m v sofar] run_loop.simps [of limit _ _ m w sofar] ask_stop_def
          tell_trace_def Let_def)
  next
    case False
    then show ?thesis
      using ask ask' step same traced "1.prems"
      by (auto simp: run_loop.simps [of limit _ _ m v sofar] run_loop.simps [of limit _ _ m w sofar] ask_stop_def
          tell_trace_def Let_def split: if_splits)
  qed
qed

text \<open>
  C17. Tracing only watches. With the same signals to come, a run with the monitor's trace callback,
  whatever it prints, takes the same steps as a run without one: the reports are equal, and so are the
  machines and the signals left.
\<close>

theorem trace_transparent:
  assumes "signals v = signals w" "interrupted v = interrupted w"
  shows "case machine_run m limit (Ref stop_requested) (Ref trace_step) v of (r, m', v') \<Rightarrow>
     case machine_run m limit (Ref stop_requested) NULL w of (s, n', w') \<Rightarrow>
       r = s \<and> m' = n' \<and> signals v' = signals w' \<and> interrupted v' = interrupted w'"
proof -
  have same: "same_signals v w" using assms by (simp add: same_signals_def)
  then show ?thesis
    using run_loop_untraced [OF same, of limit m zero_run]
    by (auto simp: machine_run_def same_signals_def split: prod.splits)
qed

theorem trace_transparent_witness:
  "fst (machine_run (Ref (fresh_machine exit_program)) 5 (Ref stop_requested) (Ref trace_step) (sample_session\<lparr>tracing := True\<rparr>))
   = fst (machine_run (Ref (fresh_machine exit_program)) 5 (Ref stop_requested) NULL sample_session)"
  using trace_transparent [of "sample_session\<lparr>tracing := True\<rparr>" sample_session "Ref (fresh_machine exit_program)" 5]
  by (auto simp: sample_session_def split: prod.splits)

end
