(* ===== verification/Elf_Format.thy ===== *)
theory Elf_Format
  imports Prelude
begin

section \<open>The ELF file format as a specification\<close>

text \<open>
  What \<^verbatim>\<open>docs/C_WORKFLOW.md\<close> ("ELF and binary loading") and the RISC-V ELF format ask of the
  section headers of an accepted file and of its build attributes, written down apart from the code
  of \<^verbatim>\<open>src/program_elf.c\<close>: no cursors and no order of checks, only what the bytes consist of. The
  attributes are a grammar over byte lists. The theory \<open>Elf\<close> shows that the checks of the loader
  accept exactly these files.
\<close>

subsection \<open>Fields\<close>

definition u16_at :: "u8 list \<Rightarrow> nat \<Rightarrow> u16" where
  "u16_at d p = ucast (d ! p) OR push_bit 8 (ucast (d ! (p + 1)))"

definition u32_at :: "u8 list \<Rightarrow> nat \<Rightarrow> u32" where
  "u32_at d p = ucast (d ! p) OR push_bit 8 (ucast (d ! (p + 1)))
     OR push_bit 16 (ucast (d ! (p + 2))) OR push_bit 24 (ucast (d ! (p + 3)))"

text \<open>The bytes of a text, without a terminator.\<close>

abbreviation chars :: "string \<Rightarrow> u8 list" where
  "chars s \<equiv> map of_char s"

subsection \<open>Variable-length numbers\<close>

text \<open>
  A number is written in groups of seven bits, the least significant first. Every byte but the last
  has bit 7 set. It has at most five bytes and is below \<open>2 ^ 32\<close>.
\<close>

fun groups_value :: "u8 list \<Rightarrow> nat" where
  "groups_value [] = 0"
| "groups_value (b # bs) = unat b mod 128 + 128 * groups_value bs"

definition groups :: "nat \<Rightarrow> u8 list \<Rightarrow> bool" where
  "groups most bs \<longleftrightarrow> bs \<noteq> [] \<and> length bs \<le> most \<and> list_all (\<lambda>b. 128 \<le> b) (butlast bs) \<and> last bs < 128"

definition numeral_of :: "u8 list \<Rightarrow> nat \<Rightarrow> bool" where
  "numeral_of bs v \<longleftrightarrow> groups 5 bs \<and> groups_value bs = v \<and> v < 2 ^ 32"

subsection \<open>RISC-V attributes\<close>

text \<open>A list of bytes that is a sequence of items.\<close>

inductive sequence_of :: "(u8 list \<Rightarrow> bool) \<Rightarrow> u8 list \<Rightarrow> bool" for item where
  no_item: "sequence_of item []"
| an_item: "item a \<Longrightarrow> sequence_of item bs \<Longrightarrow> sequence_of item (a @ bs)"

text \<open>
  An attribute is a tag and a value. The value of an odd tag is a text with a NUL after it, that of an
  even tag is a number. Tag 5 names the architecture, tag 4 the stack alignment, and tag 6 says
  whether accesses may be unaligned.
\<close>

inductive attribute_item :: "u8 list \<Rightarrow> bool" where
  text_item: "numeral_of t tag \<Longrightarrow> odd tag \<Longrightarrow> 0 \<notin> set s \<Longrightarrow>
    tag = 5 \<longrightarrow> s \<in> {chars ''rv32i2p1'', chars ''rv32i2p0'', chars ''rv32i''} \<Longrightarrow>
    attribute_item (t @ s @ [0])"
| number_item: "numeral_of t tag \<Longrightarrow> even tag \<Longrightarrow> numeral_of n v \<Longrightarrow>
    tag = 4 \<longrightarrow> v = 16 \<Longrightarrow> tag = 6 \<longrightarrow> v = 0 \<Longrightarrow>
    attribute_item (t @ n)"

text \<open>A scope is the number 1 (the whole file), the length of the scope in four bytes, and attributes.\<close>

inductive scope_item :: "u8 list \<Rightarrow> bool" where
  file_scope: "numeral_of t 1 \<Longrightarrow> length sz = 4 \<Longrightarrow> unat (u32_at sz 0) = length (t @ sz @ as) \<Longrightarrow>
    sequence_of attribute_item as \<Longrightarrow> scope_item (t @ sz @ as)"

text \<open>
  A vendor's part is its length in four bytes, the vendor's name with a NUL after it, and what the
  vendor puts there: scopes for \<^verbatim>\<open>riscv\<close>, anything for the others.
\<close>

inductive vendor_item :: "u8 list \<Rightarrow> bool" where
  a_vendor: "length sz = 4 \<Longrightarrow> unat (u32_at sz 0) = length (sz @ name @ [0] @ bs) \<Longrightarrow> 0 \<notin> set name \<Longrightarrow>
    name = chars ''riscv'' \<longrightarrow> sequence_of scope_item bs \<Longrightarrow> vendor_item (sz @ name @ [0] @ bs)"

text \<open>The section is the version, a letter A, and the parts of the vendors.\<close>

definition attributes_ok :: "u8 list \<Rightarrow> bool" where
  "attributes_ok d \<longleftrightarrow> d \<noteq> [] \<and> hd d = of_char CHR ''A'' \<and> sequence_of vendor_item (tl d)"

subsection \<open>Section headers\<close>

record section_header =
  s_type :: u32
  s_flags :: u32
  s_offset :: u32
  s_size :: u32

definition section_at :: "u8 list \<Rightarrow> nat \<Rightarrow> section_header" where
  "section_at d p =
     \<lparr>s_type = u32_at d (p + 4), s_flags = u32_at d (p + 8), s_offset = u32_at d (p + 16), s_size = u32_at d (p + 20)\<rparr>"

definition sections_of :: "u8 list \<Rightarrow> section_header list" where
  "sections_of d = map (\<lambda>i. section_at d (unat (u32_at d 32) + i * 40)) [0..<unat (u16_at d 48)]"

definition section_bytes :: "u8 list \<Rightarrow> section_header \<Rightarrow> u8 list" where
  "section_bytes d s = take (unat (s_size s)) (drop (unat (s_offset s)) d)"

text \<open>
  No thread-local storage (flag bit 10); what is not of type 8, the sections without bytes, lies in
  the file; and a section of type \<open>0x70000003\<close> holds attributes.
\<close>

definition section_ok :: "u8 list \<Rightarrow> section_header \<Rightarrow> bool" where
  "section_ok d s \<longleftrightarrow> \<not> bit (s_flags s) 10
     \<and> (s_type s \<noteq> 8 \<longrightarrow> unat (s_offset s) + unat (s_size s) \<le> length d)
     \<and> (s_type s = 0x70000003 \<longrightarrow> attributes_ok (section_bytes d s))"

text \<open>
  The section header table: its position, the size of an entry, the number of entries and the index
  of the names are at 32, 46, 48 and 50 of the header. There is none, or its entries have 40 bytes,
  lie in the file, and are acceptable.
\<close>

definition sections_ok :: "u8 list \<Rightarrow> bool" where
  "sections_ok d \<longleftrightarrow>
     u32_at d 32 = 0 \<and> u16_at d 48 = 0 \<and> u16_at d 50 = 0
     \<or> u16_at d 46 = 40 \<and> u16_at d 50 < u16_at d 48
       \<and> unat (u32_at d 32) + unat (u16_at d 48) * 40 \<le> length d
       \<and> list_all (section_ok d) (sections_of d)"

subsection \<open>Pieces of a file\<close>

text \<open>The bytes from position \<open>p\<close> up to \<open>e\<close>.\<close>

definition part :: "u8 list \<Rightarrow> nat \<Rightarrow> nat \<Rightarrow> u8 list" where
  "part d p e = take (e - p) (drop p d)"

lemma length_part: "p \<le> e \<Longrightarrow> e \<le> length d \<Longrightarrow> length (part d p e) = e - p"
  by (simp add: part_def)

lemma part_empty [simp]: "part d e e = []"
  by (simp add: part_def)

lemma part_head: "p < e \<Longrightarrow> e \<le> length d \<Longrightarrow> part d p e = d ! p # part d (p + 1) e"
  by (simp add: part_def Cons_nth_drop_Suc [symmetric] take_Cons' Suc_diff_Suc)

lemma part_append: "p \<le> m \<Longrightarrow> m \<le> e \<Longrightarrow> part d p e = part d p m @ part d m e"
proof -
  assume "p \<le> m" "m \<le> e"
  then have "e - p = (m - p) + (e - m)" "p + (m - p) = m" by simp_all
  then show ?thesis by (simp only: part_def take_add drop_drop) (simp add: add.commute)
qed

lemma part_split:
  assumes "part d p e = a @ bs" "p \<le> e" "e \<le> length d"
  shows "p + length a \<le> e" "part d (p + length a) e = bs" "part d p (p + length a) = a"
proof -
  have "length (a @ bs) = e - p" using length_part [OF assms(2,3)] assms(1) by simp
  with assms(2) show le: "p + length a \<le> e" by simp
  then have "a @ bs = part d p (p + length a) @ part d (p + length a) e"
    using part_append [of p "p + length a" e d] assms(1) by simp
  moreover have "length (part d p (p + length a)) = length a" using le assms(3) by (simp add: length_part)
  ultimately show "part d (p + length a) e = bs" "part d p (p + length a) = a"
    by (simp_all add: append_eq_append_conv)
qed

lemma nth_part: "i < e - p \<Longrightarrow> e \<le> length d \<Longrightarrow> part d p e ! i = d ! (p + i)"
  by (simp add: part_def)

lemma u32_at_part:
  assumes "p + 4 \<le> e" "e \<le> length d"
  shows "u32_at (part d p (p + 4)) 0 = u32_at d p"
  using assms by (simp add: u32_at_def nth_part)

subsection \<open>Groups of bits\<close>

lemma low_seven: "(b :: u8) AND 127 = take_bit 7 b"
proof -
  have "(127 :: u8) = mask 7" by (simp add: mask_eq_decr_exp)
  then show ?thesis by (simp add: take_bit_eq_mask)
qed

lemma top_bit_clear: "(b :: u8) AND 128 = 0 \<longleftrightarrow> b < 128"
proof -
  have "b AND 128 = 0 \<longleftrightarrow> \<not> bit (unat b) 7"
    using and_exp_eq_0_iff_not_bit [of b 7] by (simp add: bit_unsigned_iff)
  also have "\<dots> \<longleftrightarrow> unat b < 128"
  proof -
    have "odd (n div 128) \<longleftrightarrow> \<not> n < 128" if "n < 256" for n :: nat
    proof (cases "n < 128")
      case False
      with that have "n div 128 = 1" by (intro div_nat_eqI) simp_all
      with False show ?thesis by simp
    qed simp
    with unsigned_less [of b, where ?'a = nat] show ?thesis by (simp add: bit_iff_odd)
  qed
  finally show ?thesis by (simp add: word_less_nat_alt)
qed

lemma top_nibble_clear: "(b :: u8) AND 0xF0 = 0 \<longleftrightarrow> unat b < 16"
proof -
  have high: "(0xF0 :: u8) = push_bit 4 (mask 4)" by (simp add: mask_eq_exp_minus_1)
  have "b AND 0xF0 = push_bit 4 (drop_bit 4 b)"
    unfolding high by (rule bit_word_eqI) (auto simp: bit_simps)
  moreover have "push_bit 4 (drop_bit 4 b) = 0 \<longleftrightarrow> drop_bit 4 b = 0"
  proof
    assume "push_bit 4 (drop_bit 4 b) = 0"
    then have "\<not> bit (push_bit 4 (drop_bit 4 b)) (n + 4)" for n by simp
    then have "\<not> bit b (4 + n)" for n
      using bit_imp_le_length [of b "4 + n"] by (auto simp: bit_push_bit_iff bit_drop_bit_eq add.commute)
    then show "drop_bit 4 b = 0" by (intro bit_word_eqI) (simp add: bit_drop_bit_eq)
  qed simp
  moreover have "drop_bit 4 b = 0 \<longleftrightarrow> unat b < 16"
    by (simp add: word_unat_eq_iff drop_bit_eq_div unat_div div_eq_0_iff)
  ultimately show ?thesis by simp
qed

lemma group_or:
  fixes r :: u32 and b :: u8
  assumes "unat r < 2 ^ s" "s \<le> 21 \<or> s = 28 \<and> unat b < 16"
  shows "unat (r OR push_bit s (ucast (b AND 127))) = unat r + 2 ^ s * (unat b mod 128)"
proof -
  have low: "unat (ucast (b AND 127) :: u32) = unat b mod 128"
  proof -
    have "unat (ucast x :: u32) = unat x" for x :: u8
      using unsigned_less [of x, where ?'a = nat] by (simp add: unsigned_ucast_eq take_bit_nat_eq_self)
    then show ?thesis unfolding low_seven by (simp only: unsigned_take_bit_eq) (simp add: take_bit_eq_mod)
  qed
  have "2 ^ s * (unat b mod 128) < 2 ^ 32"
  proof (cases "s = 28")
    case True
    with assms(2) show ?thesis by simp
  next
    case False
    with assms(2) have "(2 :: nat) ^ s \<le> 2 ^ 21" by (intro power_increasing) simp_all
    moreover have "unat b mod 128 < 128" by simp
    ultimately have "2 ^ s * (unat b mod 128) \<le> 2 ^ 21 * 128" by (intro mult_le_mono) simp_all
    then show ?thesis by simp
  qed
  then have shifted: "unat (push_bit s (ucast (b AND 127)) :: u32) = push_bit s (unat b mod 128)"
    by (simp only: unsigned_push_bit_eq low) (simp add: push_bit_eq_mult take_bit_nat_eq_self mult.commute)
  have "unat (r OR push_bit s (ucast (b AND 127))) = unat r OR push_bit s (unat b mod 128)"
    by (simp only: unsigned_or_eq shifted)
  also have "\<dots> = unat r + push_bit s (unat b mod 128)"
  proof (rule disjunctive_add [symmetric])
    fix n
    have "unat r = take_bit s (unat r)" using assms(1) by (simp add: take_bit_nat_eq_self)
    then show "\<not> bit (unat r) n \<or> \<not> bit (push_bit s (unat b mod 128)) n"
      by (metis bit_push_bit_iff bit_take_bit_iff not_le)
  qed
  finally show ?thesis by (simp add: push_bit_eq_mult mult.commute)
qed

text \<open>One byte of a number, and the last one.\<close>

lemma groups_Cons:
  "groups most (b # bs) \<longleftrightarrow> 0 < most \<and> (if b < 128 then bs = [] else groups (most - 1) bs)"
  by (cases bs; cases most) (auto simp: groups_def not_less)

lemma group_bound:
  fixes a m :: nat
  assumes "a < 2 ^ s" "m < 128"
  shows "a + 2 ^ s * m < 2 ^ (s + 7)"
proof -
  have "a + 2 ^ s * m < 2 ^ s + 2 ^ s * m" using assms(1) by simp
  also have "\<dots> = 2 ^ s * Suc m" by simp
  also have "\<dots> \<le> 2 ^ s * 2 ^ 7" using assms(2) by (intro mult_le_mono2) simp
  finally show ?thesis by (simp only: power_add)
qed

lemma next_value: "(a :: nat) + 2 ^ s * (m + 128 * g) = a + 2 ^ s * m + 2 ^ (s + 7) * g"
  by (simp add: power_add distrib_left)

lemma groups_Nil [simp]: "\<not> groups most []"
  by (simp add: groups_def)

text \<open>A number that begins with a byte \<open>b\<close>, when the groups before it add up to \<open>r\<close> below \<open>2 ^ s\<close>.\<close>

lemma groups_read:
  "(\<exists>bs rest. b # t = bs @ rest \<and> groups (Suc n) bs \<and> v = r + 2 ^ s * groups_value bs \<and> q = p + length bs)
   \<longleftrightarrow> (if b < 128 then v = r + 2 ^ s * (unat b mod 128) \<and> q = p + 1
        else \<exists>bs rest. t = bs @ rest \<and> groups n bs
          \<and> v = r + 2 ^ s * (unat b mod 128 + 128 * groups_value bs) \<and> q = p + 1 + length bs)"
proof -
  have "(\<exists>bs rest. b # t = bs @ rest \<and> F bs) \<longleftrightarrow> F [] \<or> (\<exists>bs rest. t = bs @ rest \<and> F (b # bs))" for F
    by (auto simp: Cons_eq_append_conv)
  then show ?thesis by (simp add: groups_Cons mod_less word_less_nat_alt)
qed

lemma fifth_group:
  fixes v :: u32 and b :: u8
  assumes "16 \<le> unat b" "b < 128"
  shows "unat v \<noteq> r + 2 ^ 28 * (unat b mod 128)"
proof
  assume v: "unat v = r + 2 ^ 28 * (unat b mod 128)"
  have "unat b mod 128 = unat b" using assms(2) by (simp add: word_less_nat_alt)
  then have "2 ^ 28 * unat b \<le> unat v" unfolding v by (simp only: le_add2)
  moreover have "2 ^ 28 * 16 \<le> 2 ^ 28 * unat b" using assms(1) by (rule mult_le_mono2)
  moreover have "unat v < 2 ^ 28 * 16" using unsigned_less [of v, where ?'a = nat] by simp
  ultimately show False by (meson le_trans not_le)
qed

lemma odd_tag: "(w :: u32) AND 1 \<noteq> 0 \<longleftrightarrow> odd (unat w)"
proof -
  have "w AND 1 \<noteq> 0 \<longleftrightarrow> bit (unat w) 0"
    using and_exp_eq_0_iff_not_bit [of w 0] by (simp add: bit_unsigned_iff del: bit_0)
  then show ?thesis by (simp add: bit_0)
qed

lemma small_word: "unat (v :: u32) = k \<longleftrightarrow> v = of_nat k" if "k < 2 ^ 32"
  using that by (auto simp: unat_of_nat)

lemma attribute_item_ne: "attribute_item a \<Longrightarrow> a \<noteq> []"
  by (auto elim!: attribute_item.cases simp: numeral_of_def)

end
