(* ===== verification/Elf.thy ===== *)
theory Elf
  imports Program Elf_Format
begin

section \<open>The ELF loader\<close>

text \<open>
  The model of \<^verbatim>\<open>src/program_elf.c\<close>: the header, section and program-header checks, the RISC-V
  attributes with their variable-length numbers, and the copy of the segments into RAM. The file
  is the list of its bytes. Every access to the file or to RAM that is not inside the array is the
  outcome \<open>Bad_Access\<close>, which stands for the undefined behaviour of C; the theory shows that no
  input leads there, that the files the loader accepts are those of a specification (the section
  headers and attributes of \<open>Elf_Format\<close>, the header and segments below), and what it makes of them.
\<close>

subsection \<open>Outcomes\<close>

datatype 'a parse = Bad_Access | Fail ProgramError | Done 'a

primrec and_then :: "'a parse \<Rightarrow> ('a \<Rightarrow> 'b parse) \<Rightarrow> 'b parse" where
  "and_then Bad_Access f = Bad_Access"
| "and_then (Fail e) f = Fail e"
| "and_then (Done x) f = f x"

lemma and_then_cong [fundef_cong]:
  "m = m' \<Longrightarrow> (\<And>x. m' = Done x \<Longrightarrow> f x = f' x) \<Longrightarrow> and_then m f = and_then m' f'"
  by (cases m') simp_all

definition fail :: "string \<Rightarrow> 'a parse" where
  "fail message = Fail \<lparr>error_line = 0, error_message = message\<rparr>"

text \<open>A loop over the elements of a list that passes a state on.\<close>

fun each :: "('i \<Rightarrow> 's \<Rightarrow> 's parse) \<Rightarrow> 'i list \<Rightarrow> 's \<Rightarrow> 's parse" where
  "each body [] s = Done s"
| "each body (i # is) s = and_then (body i s) (each body is)"

subsection \<open>Numbers in the file\<close>

definition ELF_HEADER_SIZE :: nat where "ELF_HEADER_SIZE = 52"
definition ELF_PH_SIZE :: nat where "ELF_PH_SIZE = 32"
definition ELF_SH_SIZE :: nat where "ELF_SH_SIZE = 40"
definition ELF_FILE_LIMIT :: nat where "ELF_FILE_LIMIT = 64 * MEMORY_MIB"
definition ELF_MAX_SEGMENTS :: nat where "ELF_MAX_SEGMENTS = 1024"

definition elf_u8 :: "u8 list \<Rightarrow> nat \<Rightarrow> u8 parse" where
  "elf_u8 d p = (if p < length d then Done (d ! p) else Bad_Access)"

definition elf_u16 :: "u8 list \<Rightarrow> nat \<Rightarrow> u16 parse" where
  "elf_u16 d p =
     (if p + 2 \<le> length d
      then Done (ucast (d ! p) OR push_bit 8 (ucast (d ! (p + 1)))) else Bad_Access)"

definition elf_u32 :: "u8 list \<Rightarrow> nat \<Rightarrow> u32 parse" where
  "elf_u32 d p =
     (if p + 4 \<le> length d
      then Done (ucast (d ! p) OR push_bit 8 (ucast (d ! (p + 1)))
             OR push_bit 16 (ucast (d ! (p + 2))) OR push_bit 24 (ucast (d ! (p + 3))))
      else Bad_Access)"

definition elf_range :: "nat \<Rightarrow> nat \<Rightarrow> nat \<Rightarrow> bool" where
  "elf_range offset len limit \<longleftrightarrow> offset \<le> limit \<and> len \<le> limit - offset"

text \<open>
  A variable-length number: the value and the position after it, or \<open>None\<close> when it is malformed.
  The loop starts with shift 0 and result 0.
\<close>

function uleb_loop :: "u8 list \<Rightarrow> nat \<Rightarrow> nat \<Rightarrow> nat \<Rightarrow> u32 \<Rightarrow> (u32 \<times> nat) option parse" where
  "uleb_loop d end_pos p shift result =
     (if shift < 35 \<and> p < end_pos
      then and_then (elf_u8 d p) (\<lambda>byte.
        if shift = 28 \<and> byte AND 0xF0 \<noteq> 0 then Done None
        else
        let result = result OR push_bit shift (ucast (byte AND 127)) in
        if byte AND 128 = 0 then Done (Some (result, p + 1))
        else uleb_loop d end_pos (p + 1) (shift + 7) result)
      else Done None)"
  by pat_completeness auto
termination
  by (relation "measure (\<lambda>(d, end_pos, p, shift, result). 35 - shift)") auto

declare uleb_loop.simps [simp del]

definition uleb :: "u8 list \<Rightarrow> nat \<Rightarrow> nat \<Rightarrow> (u32 \<times> nat) option parse" where
  "uleb d p end_pos = uleb_loop d end_pos p 0 0"

subsection \<open>RISC-V attributes\<close>

text \<open>The position of the first NUL in \<open>[p, end_pos)\<close>, as \<^verbatim>\<open>memchr\<close> finds it; it may look at the whole range.\<close>

definition find_nul :: "u8 list \<Rightarrow> nat \<Rightarrow> nat \<Rightarrow> nat option parse" where
  "find_nul d p end_pos =
     (if end_pos \<le> length d then Done (find (\<lambda>i. d ! i = 0) [p..<end_pos]) else Bad_Access)"

definition ascii :: "string \<Rightarrow> u8 list" where
  "ascii s = map of_char s"

text \<open>Whether the string from \<open>p\<close> to the NUL at \<open>nul\<close> is \<open>s\<close>.\<close>

definition text_is :: "u8 list \<Rightarrow> nat \<Rightarrow> nat \<Rightarrow> string \<Rightarrow> bool" where
  "text_is d p nul s \<longleftrightarrow> take (nul - p) (drop p d) = ascii s"

abbreviation malformed :: "'a parse" where
  "malformed \<equiv> fail ''malformed RISC-V attributes''"

text \<open>One attribute of the file scope; the result is the position after it.\<close>

definition attribute_tag :: "u8 list \<Rightarrow> nat \<Rightarrow> nat \<Rightarrow> nat parse" where
  "attribute_tag d p subend =
     and_then (uleb d p subend) (\<lambda>tag. case tag of None \<Rightarrow> malformed | Some (tag, p) \<Rightarrow>
     if tag AND 1 \<noteq> 0
     then
       and_then (find_nul d p subend) (\<lambda>nul. case nul of None \<Rightarrow> malformed | Some nul \<Rightarrow>
       if tag = 5 \<and> \<not> text_is d p nul ''rv32i2p1'' \<and> \<not> text_is d p nul ''rv32i2p0''
          \<and> \<not> text_is d p nul ''rv32i''
       then fail ''ELF architecture requires instructions beyond RV32I''
       else Done (nul + 1))
     else
       and_then (uleb d p subend) (\<lambda>v. case v of None \<Rightarrow> malformed | Some (v, p) \<Rightarrow>
       if tag = 4 \<and> v \<noteq> 16 then fail ''ELF requires an unsupported stack alignment''
       else if tag = 6 \<and> v \<noteq> 0 then fail ''ELF declares unaligned memory accesses''
       else Done p))"

lemma uleb_loop_advances:
  "uleb_loop d end_pos p shift result = Done (Some (v, q)) \<Longrightarrow> p < q \<and> q \<le> end_pos"
proof (induction d end_pos p shift result rule: uleb_loop.induct)
  case (1 d end_pos p shift result)
  from "1.prems" obtain byte where go: "shift < 35" "p < end_pos" "elf_u8 d p = Done byte"
    and "\<not> (shift = 28 \<and> byte AND 0xF0 \<noteq> 0)"
    by (auto simp: uleb_loop.simps [of _ _ p] elf_u8_def split: if_splits)
  with 1 show ?case
    by (cases "byte AND 128 = 0") (fastforce simp: uleb_loop.simps [of _ _ p] Let_def)+
qed

lemma uleb_advances: "uleb d p end_pos = Done (Some (v, q)) \<Longrightarrow> p < q \<and> q \<le> end_pos"
  unfolding uleb_def by (rule uleb_loop_advances)

lemma and_then_Done: "and_then m f = Done y \<longleftrightarrow> (\<exists>x. m = Done x \<and> f x = Done y)"
  by (cases m) auto

lemma and_then_DoneE:
  "and_then m f = Done y \<Longrightarrow> (\<And>x. m = Done x \<Longrightarrow> f x = Done y \<Longrightarrow> P) \<Longrightarrow> P"
  by (cases m) auto

lemma fail_ne [simp]:
  "fail message \<noteq> Done x" "fail message \<noteq> Bad_Access" "Done x \<noteq> fail message" "Bad_Access \<noteq> fail message"
  by (simp_all add: fail_def)

lemma find_nul_Done: "find_nul d p end_pos = Done (Some q) \<Longrightarrow> p \<le> q \<and> q < end_pos"
  by (auto simp: find_nul_def find_Some_iff split: if_splits)

lemma attribute_tag_advances: "attribute_tag d p subend = Done q \<Longrightarrow> p < q \<and> q \<le> subend"
  by (auto simp: attribute_tag_def elim!: and_then_DoneE dest!: uleb_advances find_nul_Done
      split: option.split_asm if_split_asm)

text \<open>The attributes of one scope; the result is the position after them.\<close>

function attribute_tags :: "u8 list \<Rightarrow> nat \<Rightarrow> nat \<Rightarrow> nat parse" where
  "attribute_tags d p subend =
     (if p < subend then and_then (attribute_tag d p subend) (\<lambda>p. attribute_tags d p subend) else Done p)"
  by pat_completeness auto
termination
  by (relation "measure (\<lambda>(d, p, subend). subend - p)") (auto dest: attribute_tag_advances)

declare attribute_tags.simps [simp del]

lemma attribute_tags_advances: "attribute_tags d p subend = Done q \<Longrightarrow> p \<le> subend \<Longrightarrow> p \<le> q \<and> q = subend"
proof (induction d p subend rule: attribute_tags.induct)
  case (1 d p subend)
  then show ?case
    by (fastforce simp: attribute_tags.simps [of _ p] and_then_Done dest: attribute_tag_advances split: if_splits)
qed

text \<open>One scope of the vendor's attributes: its number, its size and its attributes.\<close>

definition attribute_scope :: "u8 list \<Rightarrow> nat \<Rightarrow> nat \<Rightarrow> nat parse" where
  "attribute_scope d start end_pos =
     and_then (uleb d start end_pos) (\<lambda>scope. case scope of None \<Rightarrow> malformed | Some (scope, p) \<Rightarrow>
     if end_pos - p < 4 then malformed
     else
     and_then (elf_u32 d p) (\<lambda>subsize.
       let p = p + 4 in
       if unat subsize < p - start \<or> unat subsize > end_pos - start then malformed
       else
       let subend = start + unat subsize in
       if scope \<noteq> 1 then fail ''unsupported RISC-V attribute scope''
       else attribute_tags d p subend))"

lemma attribute_scope_advances:
  assumes "attribute_scope d start end_pos = Done q" "start < end_pos"
  shows "start < q \<and> q \<le> end_pos"
proof -
  from assms obtain scope p and subsize :: u32 where u: "uleb d start end_pos = Done (Some (scope, p))"
    "\<not> (unat subsize < p + 4 - start \<or> unat subsize > end_pos - start)"
    "attribute_tags d (p + 4) (start + unat subsize) = Done q"
    by (auto simp: attribute_scope_def Let_def elim!: and_then_DoneE split: option.split_asm if_split_asm)
  have "start < p" using uleb_advances [OF u(1)] by simp
  with u(2) have "p + 4 \<le> start + unat subsize" by linarith
  from attribute_tags_advances [OF u(3) this] \<open>start < p\<close> u(2) assms(2) show ?thesis by linarith
qed

function attribute_scopes :: "u8 list \<Rightarrow> nat \<Rightarrow> nat \<Rightarrow> unit parse" where
  "attribute_scopes d p end_pos =
     (if p < end_pos then and_then (attribute_scope d p end_pos) (\<lambda>p. attribute_scopes d p end_pos) else Done ())"
  by pat_completeness auto
termination
  by (relation "measure (\<lambda>(d, p, end_pos). end_pos - p)") (auto dest: attribute_scope_advances)

declare attribute_scopes.simps [simp del]

text \<open>The subsections of the vendors; only those of \<^verbatim>\<open>riscv\<close> are looked into. 65 is \<^verbatim>\<open>A\<close>.\<close>

function attribute_vendors :: "u8 list \<Rightarrow> nat \<Rightarrow> unit parse" where
  "attribute_vendors d offset =
     (if offset < length d
      then
        if \<not> elf_range offset 4 (length d) then malformed
        else
        and_then (elf_u32 d offset) (\<lambda>len.
          if unat len < 5 \<or> \<not> elf_range offset (unat len) (length d) then malformed
          else
          let end_pos = offset + unat len; vendor = offset + 4 in
          and_then (find_nul d vendor end_pos) (\<lambda>nul. case nul of None \<Rightarrow> malformed | Some nul \<Rightarrow>
            and_then (if text_is d vendor nul ''riscv'' then attribute_scopes d (nul + 1) end_pos else Done ())
              (\<lambda>_. attribute_vendors d (offset + unat len))))
      else Done ())"
  by pat_completeness auto
termination
  by (relation "measure (\<lambda>(d, offset). length d - offset)") auto

declare attribute_vendors.simps [simp del]

definition attributes :: "u8 list \<Rightarrow> unit parse" where
  "attributes d =
     (if length d < 1 then fail ''invalid RISC-V attributes''
      else and_then (elf_u8 d 0) (\<lambda>magic.
        if magic \<noteq> 65 then fail ''invalid RISC-V attributes'' else attribute_vendors d 1))"

subsection \<open>Sections\<close>

definition check_section :: "u8 list \<Rightarrow> nat \<Rightarrow> nat \<Rightarrow> unit \<Rightarrow> unit parse" where
  "check_section d offset i _ =
     (let sec = offset + i * ELF_SH_SIZE in
      and_then (elf_u32 d (sec + 4)) (\<lambda>type.
      and_then (elf_u32 d (sec + 16)) (\<lambda>start.
      and_then (elf_u32 d (sec + 20)) (\<lambda>len.
      and_then (elf_u32 d (sec + 8)) (\<lambda>flags.
      if flags AND 0x400 \<noteq> 0 then fail ''ELF thread-local storage is unsupported''
      else if type \<noteq> 8 \<and> \<not> elf_range (unat start) (unat len) (length d)
      then fail ''ELF section exceeds the file''
      else if type = 0x70000003
      then (if unat start + unat len \<le> length d
            then attributes (take (unat len) (drop (unat start) d)) else Bad_Access)
      else Done ())))))"

definition validate_sections :: "u8 list \<Rightarrow> unit parse" where
  "validate_sections d =
     and_then (elf_u32 d 32) (\<lambda>offset.
     and_then (elf_u16 d 48) (\<lambda>n.
     and_then (elf_u16 d 50) (\<lambda>names.
     if n = 0 \<and> offset = 0 \<and> names = 0 then Done ()
     else
     and_then (elf_u16 d 46) (\<lambda>entry_size.
     if n = 0 \<or> unat entry_size \<noteq> ELF_SH_SIZE
        \<or> \<not> elf_range (unat offset) (unat n * ELF_SH_SIZE) (length d) \<or> n \<le> names
     then fail ''invalid or unsupported ELF section table''
     else each (check_section d (unat offset)) [0..<unat n] ()))))"

subsection \<open>Segments\<close>

text \<open>An entry of the program header table.\<close>

record segment =
  p_type :: u32
  p_offset :: u32
  p_vaddr :: u32
  p_paddr :: u32
  p_filesz :: u32
  p_memsz :: u32
  p_flags :: u32
  p_align :: u32

definition read_segment :: "u8 list \<Rightarrow> nat \<Rightarrow> segment parse" where
  "read_segment d ph =
     and_then (elf_u32 d ph) (\<lambda>type.
     and_then (elf_u32 d (ph + 4)) (\<lambda>offset.
     and_then (elf_u32 d (ph + 8)) (\<lambda>address.
     and_then (elf_u32 d (ph + 12)) (\<lambda>physical.
     and_then (elf_u32 d (ph + 16)) (\<lambda>filesz.
     and_then (elf_u32 d (ph + 20)) (\<lambda>memsz.
     and_then (elf_u32 d (ph + 24)) (\<lambda>flags.
     and_then (elf_u32 d (ph + 28)) (\<lambda>align.
       Done \<lparr>p_type = type, p_offset = offset, p_vaddr = address, p_paddr = physical,
         p_filesz = filesz, p_memsz = memsz, p_flags = flags, p_align = align\<rparr>))))))))"

text \<open>The loop over the segments before one; a sum in \<^verbatim>\<open>uint64_t\<close> of two 32-bit numbers does not wrap.\<close>

definition check_overlap :: "u8 list \<Rightarrow> nat \<Rightarrow> segment \<Rightarrow> nat \<Rightarrow> unit \<Rightarrow> unit parse" where
  "check_overlap d table s j _ =
     and_then (read_segment d (table + j * ELF_PH_SIZE)) (\<lambda>prior.
     if p_type prior = 1 \<and> p_memsz prior \<noteq> 0
        \<and> unat (p_vaddr s) < unat (p_vaddr prior) + unat (p_memsz prior)
        \<and> unat (p_vaddr prior) < unat (p_vaddr s) + unat (p_memsz s)
     then fail ''overlapping ELF load segments'' else Done ())"

text \<open>The state: the lowest and highest address so far, and whether the entry was found.\<close>

definition check_segment ::
  "u8 list \<Rightarrow> nat \<Rightarrow> u32 \<Rightarrow> nat \<Rightarrow> nat \<Rightarrow> nat \<times> nat \<times> bool \<Rightarrow> (nat \<times> nat \<times> bool) parse" where
  "check_segment d ram_size entry_addr table i state =
     and_then (read_segment d (table + i * ELF_PH_SIZE)) (\<lambda>s.
     if p_type s = 2 \<or> p_type s = 3 \<or> p_type s = 7
     then fail ''dynamic linking, interpreters, and TLS are unsupported''
     else if p_type s \<noteq> 1 then Done state
     else if p_memsz s < p_filesz s \<or> \<not> elf_range (unat (p_offset s)) (unat (p_filesz s)) (length d)
     then fail ''ELF segment exceeds file or memory size''
     else if p_paddr s \<noteq> p_vaddr s then fail ''ELF requires different physical and virtual addresses''
     else if p_align s > 1 \<and> (p_align s AND (p_align s - 1) \<noteq> 0
          \<or> p_vaddr s mod p_align s \<noteq> p_offset s mod p_align s)
     then fail ''invalid ELF segment alignment''
     else if \<not> elf_range (unat (p_vaddr s)) (unat (p_memsz s)) ram_size
     then fail ''ELF segment does not fit in configured RAM''
     else if p_memsz s = 0 then Done state
     else
     and_then (each (check_overlap d table s) [0..<i] ()) (\<lambda>_.
     case state of (lowest, highest, executable_entry) \<Rightarrow>
     let address = unat (p_vaddr s);
         lowest = (if address < lowest then address else lowest);
         highest = (if address + unat (p_memsz s) > highest then address + unat (p_memsz s) else highest);
         executable_entry = (if p_flags s AND 1 \<noteq> 0 \<and> p_filesz s \<ge> 4 \<and> entry_addr \<ge> p_vaddr s
             \<and> entry_addr - p_vaddr s \<le> p_filesz s - 4 \<and> unat entry_addr mod 4 = 0
           then True else executable_entry)
     in Done (lowest, highest, executable_entry)))"

definition copy_segment :: "u8 list \<Rightarrow> nat \<Rightarrow> nat \<Rightarrow> u8 list \<Rightarrow> u8 list parse" where
  "copy_segment d table i ram =
     and_then (read_segment d (table + i * ELF_PH_SIZE)) (\<lambda>s.
     if p_type s = 1 \<and> p_filesz s \<noteq> 0
     then
       if unat (p_offset s) + unat (p_filesz s) \<le> length d
          \<and> unat (p_vaddr s) + unat (p_filesz s) \<le> length ram
       then Done (blit ram (unat (p_vaddr s)) (take (unat (p_filesz s)) (drop (unat (p_offset s)) d)))
       else Bad_Access
     else Done ram)"

text \<open>\<^verbatim>\<open>\177ELF\<close>, class 32, little endian, version 1.\<close>

definition elf_identity :: "u8 list" where
  "elf_identity = [0x7F, 0x45, 0x4C, 0x46]"

definition load_elf :: "bool \<Rightarrow> program \<Rightarrow> nat \<Rightarrow> program parse" where
  "load_elf ram_ok next_program ram_size =
     (let d = the (elf_data next_program); len = elf_size next_program in
      if len < ELF_HEADER_SIZE \<or> take 4 d \<noteq> elf_identity
      then fail ''not an ELF file or truncated ELF header''
      else
      and_then (elf_u8 d 4) (\<lambda>class_byte. and_then (elf_u8 d 5) (\<lambda>order. and_then (elf_u8 d 6) (\<lambda>version.
      and_then (elf_u16 d 16) (\<lambda>kind. and_then (elf_u16 d 18) (\<lambda>arch. and_then (elf_u32 d 20) (\<lambda>elf_version.
      if class_byte \<noteq> 1 \<or> order \<noteq> 1 \<or> version \<noteq> 1 \<or> kind \<noteq> 2 \<or> arch \<noteq> 243 \<or> elf_version \<noteq> 1
      then fail ''expected ELF32 little-endian RISC-V static executable''
      else
      and_then (elf_u32 d 36) (\<lambda>flags.
      if flags \<noteq> 0 then fail ''ELF flags require an ABI or extension beyond RV32I/ILP32''
      else
      and_then (elf_u16 d 40) (\<lambda>header_size. and_then (elf_u16 d 42) (\<lambda>ph_size.
      if unat header_size \<noteq> ELF_HEADER_SIZE \<or> unat ph_size \<noteq> ELF_PH_SIZE then fail ''invalid ELF header sizes''
      else
      and_then (elf_u32 d 28) (\<lambda>table. and_then (elf_u32 d 24) (\<lambda>entry_addr. and_then (elf_u16 d 44) (\<lambda>n.
      if n = 0 \<or> unat n > ELF_MAX_SEGMENTS \<or> \<not> elf_range (unat table) (unat n * ELF_PH_SIZE) len
      then fail ''invalid ELF program header table''
      else
      and_then (validate_sections d) (\<lambda>_.
      and_then (each (check_segment d ram_size entry_addr (unat table)) [0..<unat n] (ram_size, 0, False))
        (\<lambda>(lowest, highest, executable_entry).
      if \<not> executable_entry \<or> lowest \<ge> highest
      then fail ''ELF entry must address an aligned file-backed executable instruction''
      else
      case memory_init (Ref (prog_memory next_program)) ram_size ram_ok of
        None \<Rightarrow> fail ''cannot allocate program RAM''
      | Some mem \<Rightarrow>
          and_then (each (copy_segment d (unat table)) [0..<unat n] (bytes_of mem)) (\<lambda>ram.
          Done (next_program\<lparr>prog_memory := mem\<lparr>mem_bytes := Ref ram\<rparr>, load_address := of_nat lowest,
            entry := entry_addr, image_size := highest - lowest\<rparr>)))))))))))))))))"

definition program_read_elf :: "(nat \<Rightarrow> bool) \<Rightarrow> bool \<Rightarrow> infile ptr \<Rightarrow> nat \<Rightarrow> program ptr \<Rightarrow> program parse" where
  "program_read_elf alloc ram_ok input ram_size output =
     (if input = NULL \<or> output = NULL then fail ''invalid argument''
      else if \<not> memory_size_valid ram_size then fail ''invalid RAM size''
      else case program_input_bytes alloc (the input) ELF_FILE_LIMIT of
        Inl e \<Rightarrow> Fail e
      | Inr bytes \<Rightarrow>
          load_elf ram_ok (zero_program\<lparr>prog_format := PROGRAM_ELF, elf_data := Ref bytes, elf_size := length bytes\<rparr>)
            ram_size)"

subsection \<open>No access outside the file\<close>

text \<open>
  A computation is safe when it does not end in \<open>Bad_Access\<close>. The rules follow the structure of the
  code; each reader needs its range, which the checks before it give.
\<close>

definition safe :: "'a parse \<Rightarrow> bool" where
  "safe m \<longleftrightarrow> m \<noteq> Bad_Access"

named_theorems safety

lemma safe_basic [simp]: "safe (Done x)" "safe (Fail e)" "safe (fail message)" "\<not> safe Bad_Access"
  by (simp_all add: safe_def)

lemma safe_and_then [safety]: "safe m \<Longrightarrow> (\<And>x. m = Done x \<Longrightarrow> safe (f x)) \<Longrightarrow> safe (and_then m f)"
  by (cases m) (simp_all add: safe_def)

lemma safe_if [safety]: "(b \<Longrightarrow> safe x) \<Longrightarrow> (\<not> b \<Longrightarrow> safe y) \<Longrightarrow> safe (if b then x else y)"
  by simp

lemma safe_option [safety]:
  "(x = None \<Longrightarrow> safe a) \<Longrightarrow> (\<And>y. x = Some y \<Longrightarrow> safe (f y)) \<Longrightarrow> safe (case x of None \<Rightarrow> a | Some y \<Rightarrow> f y)"
  by (cases x) simp_all

lemma safe_pair [safety]: "(\<And>a b. x = (a, b) \<Longrightarrow> safe (f a b)) \<Longrightarrow> safe (case x of (a, b) \<Rightarrow> f a b)"
  by (cases x) simp

lemma safe_let [safety]: "(\<And>y. y = x \<Longrightarrow> safe (f y)) \<Longrightarrow> safe (let y = x in f y)"
  by (simp add: Let_def)

lemma safe_each:
  assumes "\<And>i s. i \<in> set is \<Longrightarrow> I s \<Longrightarrow> safe (body i s)"
    "\<And>i s s'. i \<in> set is \<Longrightarrow> I s \<Longrightarrow> body i s = Done s' \<Longrightarrow> I s'" "I s"
  shows "safe (each body is s)"
  using assms
proof (induction "is" arbitrary: s)
  case (Cons i "is")
  show ?case unfolding each.simps
  proof (rule safe_and_then)
    show "safe (body i s)" using Cons.prems by simp
    fix s1 assume step: "body i s = Done s1"
    have "I s1" using Cons.prems(2) [OF _ Cons.prems(3) step] by simp
    show "safe (each body is s1)"
    proof (rule Cons.IH [OF _ _ \<open>I s1\<close>])
      show "safe (body j t)" if "j \<in> set is" "I t" for j t using Cons.prems(1) [of j t] that by simp
      show "I t'" if "j \<in> set is" "I t" "body j t = Done t'" for j t t'
        using Cons.prems(2) [of j t t'] that by simp
    qed
  qed
qed simp

lemma safe_read [safety]:
  "p < length d \<Longrightarrow> safe (elf_u8 d p)"
  "p + 2 \<le> length d \<Longrightarrow> safe (elf_u16 d p)"
  "p + 4 \<le> length d \<Longrightarrow> safe (elf_u32 d p)"
  "e \<le> length d \<Longrightarrow> safe (find_nul d p e)"
  by (simp_all add: elf_u8_def elf_u16_def elf_u32_def find_nul_def)

lemma safe_uleb_loop: "end_pos \<le> length d \<Longrightarrow> safe (uleb_loop d end_pos p shift result)"
proof (induction d end_pos p shift result rule: uleb_loop.induct)
  case (1 d end_pos p shift result)
  show ?case unfolding uleb_loop.simps [of d end_pos p]
    using 1 by (intro safety) (auto simp: elf_u8_def)
qed

lemma safe_uleb [safety]: "end_pos \<le> length d \<Longrightarrow> safe (uleb d p end_pos)"
  by (simp add: uleb_def safe_uleb_loop)

lemma safe_attribute_tag [safety]: "subend \<le> length d \<Longrightarrow> safe (attribute_tag d p subend)"
  unfolding attribute_tag_def by (intro safety) simp_all

lemma safe_attribute_tags [safety]: "subend \<le> length d \<Longrightarrow> safe (attribute_tags d p subend)"
proof (induction d p subend rule: attribute_tags.induct)
  case (1 d p subend)
  show ?case unfolding attribute_tags.simps [of d p] using 1 by (intro safety) simp_all
qed

lemma safe_attribute_scope [safety]:
  assumes "end_pos \<le> length d" "start \<le> end_pos"
  shows "safe (attribute_scope d start end_pos)"
  unfolding attribute_scope_def
proof (intro safety)
  show "end_pos \<le> length d" by fact
next
  fix x y scope p assume "uleb d start end_pos = Done x" "x = Some y" "y = (scope, p)" and enough: "\<not> end_pos - p < 4"
  then have p: "p \<le> end_pos" using uleb_advances by blast
  with enough assms(1) show "p + 4 \<le> length d" by linarith
  fix subsize :: u32 and q subend
  assume "\<not> (unat subsize < q - start \<or> end_pos - start < unat subsize)" "subend = start + unat subsize"
  with assms show "subend \<le> length d" by linarith
qed simp_all

lemma safe_attribute_scopes [safety]: "end_pos \<le> length d \<Longrightarrow> safe (attribute_scopes d p end_pos)"
proof (induction d p end_pos rule: attribute_scopes.induct)
  case (1 d p end_pos)
  show ?case unfolding attribute_scopes.simps [of d p] using 1 by (intro safety) simp_all
qed

lemma safe_attribute_vendors [safety]: "safe (attribute_vendors d offset)"
proof (induction d offset rule: attribute_vendors.induct)
  case (1 d offset)
  show ?case unfolding attribute_vendors.simps [of d offset]
  proof (intro safety)
    assume "\<not> \<not> elf_range offset 4 (length d)"
    then show "offset + 4 \<le> length d" by (auto simp: elf_range_def)
  next
    fix len :: u32 and end_pos
    assume "\<not> (unat len < 5 \<or> \<not> elf_range offset (unat len) (length d))" "end_pos = offset + unat len"
    then show "end_pos \<le> length d" "end_pos \<le> length d" by (auto simp: elf_range_def)
  qed (use 1 in auto)
qed

lemma safe_attributes [safety]: "safe (attributes d)"
  unfolding attributes_def by (intro safety) simp_all

lemma safe_check_section:
  assumes "offset + unat n * ELF_SH_SIZE \<le> length d" "i < unat n"
  shows "safe (check_section d offset i u)"
proof -
  have "i * 40 + 40 \<le> unat n * 40" using assms(2) by linarith
  then have "offset + i * ELF_SH_SIZE + 40 \<le> length d" using assms(1) by (simp add: ELF_SH_SIZE_def)
  then show ?thesis unfolding check_section_def
    by (intro safety) (auto simp: elf_range_def)
qed

lemma safe_validate_sections [safety]:
  assumes "ELF_HEADER_SIZE \<le> length d"
  shows "safe (validate_sections d)"
  unfolding validate_sections_def
proof (intro safety)
  fix offset :: u32 and n size names :: u16
  assume "\<not> (n = 0 \<or> unat size \<noteq> ELF_SH_SIZE \<or> \<not> elf_range (unat offset) (unat n * ELF_SH_SIZE) (length d) \<or> n \<le> names)"
  then have "unat offset + unat n * ELF_SH_SIZE \<le> length d" by (auto simp: elf_range_def)
  then show "safe (each (check_section d (unat offset)) [0..<unat n] ())"
    by (intro safe_each [where I = "\<lambda>_. True"]) (auto intro: safe_check_section)
qed (use assms in \<open>simp_all add: ELF_HEADER_SIZE_def\<close>)

lemma safe_read_segment [safety]: "ph + ELF_PH_SIZE \<le> length d \<Longrightarrow> safe (read_segment d ph)"
  unfolding read_segment_def by (intro safety) (simp_all add: ELF_PH_SIZE_def)

subsection \<open>What the loader accepts\<close>

text \<open>
  The specification of an accepted file: the fields of the header, the entries of the program
  header table, the conditions on one entry and on all of them, the entry point, and the byte of
  RAM at an address.
\<close>

lemma elf_at [simp]:
  "p < length d \<Longrightarrow> elf_u8 d p = Done (d ! p)"
  "p + 2 \<le> length d \<Longrightarrow> elf_u16 d p = Done (u16_at d p)"
  "p + 4 \<le> length d \<Longrightarrow> elf_u32 d p = Done (u32_at d p)"
  by (simp_all add: elf_u8_def elf_u16_def elf_u32_def u16_at_def u32_at_def)

definition segment_at :: "u8 list \<Rightarrow> nat \<Rightarrow> segment" where
  "segment_at d ph =
     \<lparr>p_type = u32_at d ph, p_offset = u32_at d (ph + 4), p_vaddr = u32_at d (ph + 8), p_paddr = u32_at d (ph + 12),
      p_filesz = u32_at d (ph + 16), p_memsz = u32_at d (ph + 20), p_flags = u32_at d (ph + 24),
      p_align = u32_at d (ph + 28)\<rparr>"

definition segments_of :: "u8 list \<Rightarrow> segment list" where
  "segments_of d = map (\<lambda>i. segment_at d (unat (u32_at d 28) + i * 32)) [0..<unat (u16_at d 44)]"

definition header_ok :: "u8 list \<Rightarrow> bool" where
  "header_ok d \<longleftrightarrow> 52 \<le> length d \<and> take 4 d = [0x7F, 0x45, 0x4C, 0x46]
     \<and> d ! 4 = 1 \<and> d ! 5 = 1 \<and> d ! 6 = 1 \<and> u16_at d 16 = 2 \<and> u16_at d 18 = 243 \<and> u32_at d 20 = 1
     \<and> u32_at d 36 = 0 \<and> unat (u16_at d 40) = 52 \<and> unat (u16_at d 42) = 32
     \<and> u16_at d 44 \<noteq> 0 \<and> unat (u16_at d 44) \<le> 1024
     \<and> unat (u32_at d 28) + unat (u16_at d 44) * 32 \<le> length d"

lemma header_ok_code:
  "header_ok d \<longleftrightarrow> ELF_HEADER_SIZE \<le> length d \<and> take 4 d = elf_identity
     \<and> d ! 4 = 1 \<and> d ! 5 = 1 \<and> d ! 6 = 1 \<and> u16_at d 16 = 2 \<and> u16_at d 18 = 243 \<and> u32_at d 20 = 1
     \<and> u32_at d 36 = 0 \<and> unat (u16_at d 40) = ELF_HEADER_SIZE \<and> unat (u16_at d 42) = ELF_PH_SIZE
     \<and> u16_at d 44 \<noteq> 0 \<and> unat (u16_at d 44) \<le> ELF_MAX_SEGMENTS
     \<and> unat (u32_at d 28) + unat (u16_at d 44) * ELF_PH_SIZE \<le> length d"
  by (simp add: header_ok_def ELF_HEADER_SIZE_def ELF_PH_SIZE_def ELF_MAX_SEGMENTS_def elf_identity_def)

definition loadable :: "segment \<Rightarrow> bool" where
  "loadable s \<longleftrightarrow> p_type s = 1 \<and> p_memsz s \<noteq> 0"

definition segment_end :: "segment \<Rightarrow> nat" where
  "segment_end s = unat (p_vaddr s) + unat (p_memsz s)"

definition segment_ok :: "nat \<Rightarrow> nat \<Rightarrow> segment \<Rightarrow> bool" where
  "segment_ok file_size ram_size s \<longleftrightarrow> p_type s \<noteq> 2 \<and> p_type s \<noteq> 3 \<and> p_type s \<noteq> 7 \<and>
     (p_type s = 1 \<longrightarrow> p_filesz s \<le> p_memsz s \<and> unat (p_offset s) + unat (p_filesz s) \<le> file_size
        \<and> p_paddr s = p_vaddr s
        \<and> (p_align s > 1 \<longrightarrow> p_align s AND (p_align s - 1) = 0 \<and> p_vaddr s mod p_align s = p_offset s mod p_align s)
        \<and> segment_end s \<le> ram_size)"

definition apart :: "segment \<Rightarrow> segment \<Rightarrow> bool" where
  "apart t s \<longleftrightarrow> (loadable t \<longrightarrow> loadable s \<longrightarrow>
     segment_end t \<le> unat (p_vaddr s) \<or> segment_end s \<le> unat (p_vaddr t))"

definition segments_ok :: "nat \<Rightarrow> nat \<Rightarrow> segment list \<Rightarrow> bool" where
  "segments_ok file_size ram_size ss \<longleftrightarrow> list_all (segment_ok file_size ram_size) ss \<and> sorted_wrt apart ss"

definition holds_entry :: "u32 \<Rightarrow> segment \<Rightarrow> bool" where
  "holds_entry e s \<longleftrightarrow> loadable s \<and> p_flags s AND 1 \<noteq> 0 \<and> unat e mod 4 = 0 \<and> unat (p_vaddr s) \<le> unat e
     \<and> unat e + 4 \<le> unat (p_vaddr s) + unat (p_filesz s)"

definition backs :: "nat \<Rightarrow> segment \<Rightarrow> bool" where
  "backs a s \<longleftrightarrow> p_type s = 1 \<and> unat (p_vaddr s) \<le> a \<and> a < unat (p_vaddr s) + unat (p_filesz s)"

definition elf_byte :: "u8 list \<Rightarrow> segment list \<Rightarrow> nat \<Rightarrow> u8" where
  "elf_byte d ss a =
     (case find (backs a) ss of None \<Rightarrow> 0 | Some s \<Rightarrow> d ! (unat (p_offset s) + (a - unat (p_vaddr s))))"

definition lowest_of :: "nat \<Rightarrow> segment list \<Rightarrow> nat" where
  "lowest_of ram_size ss = Min (insert ram_size ((\<lambda>s. unat (p_vaddr s)) ` set (filter loadable ss)))"

definition highest_of :: "segment list \<Rightarrow> nat" where
  "highest_of ss = Max (insert 0 (segment_end ` set (filter loadable ss)))"

text \<open>The program of an accepted file.\<close>

definition elf_program :: "u8 list \<Rightarrow> nat \<Rightarrow> program" where
  "elf_program d ram_size = zero_program
     \<lparr>prog_memory := \<lparr>mem_bytes = Ref (map (elf_byte d (segments_of d)) [0..<ram_size]), mem_size = ram_size\<rparr>,
      load_address := of_nat (lowest_of ram_size (segments_of d)), entry := u32_at d 24,
      image_size := highest_of (segments_of d) - lowest_of ram_size (segments_of d),
      prog_format := PROGRAM_ELF, elf_data := Ref d, elf_size := length d\<rparr>"

definition elf_ok :: "u8 list \<Rightarrow> nat \<Rightarrow> bool" where
  "elf_ok d ram_size \<longleftrightarrow> header_ok d \<and> sections_ok d
     \<and> segments_ok (length d) ram_size (segments_of d) \<and> (\<exists>s\<in>set (segments_of d). holds_entry (u32_at d 24) s)"

subsection \<open>The segment checks\<close>

lemma each_append: "each body (xs @ ys) s = and_then (each body xs s) (each body ys)"
proof (induction xs arbitrary: s)
  case (Cons x xs)
  then show ?case by (cases "body x s") simp_all
qed simp

lemma each_snoc: "each body (xs @ [x]) s = and_then (each body xs s) (body x)"
proof -
  have "and_then m (each body []) = m" for m by (cases m) simp_all
  then have "and_then (body x t) (each body []) = body x t" for t by simp
  then have "each body [x] = body x" by (intro ext) simp
  then show ?thesis by (simp only: each_append)
qed

lemma each_unit: "each body xs () = Done () \<longleftrightarrow> (\<forall>x\<in>set xs. body x () = Done ())"
  by (induction xs) (auto simp: and_then_Done)

lemma elf_range_iff: "elf_range a n m \<longleftrightarrow> a + n \<le> m"
  by (auto simp: elf_range_def)

lemma read_segment_at: "ph + ELF_PH_SIZE \<le> length d \<Longrightarrow> read_segment d ph = Done (segment_at d ph)"
  by (simp add: read_segment_def segment_at_def ELF_PH_SIZE_def)

lemma entry_check:
  "p_filesz s \<ge> 4 \<and> e \<ge> p_vaddr s \<and> e - p_vaddr s \<le> p_filesz s - 4
   \<longleftrightarrow> unat (p_vaddr s) \<le> unat e \<and> unat e + 4 \<le> unat (p_vaddr s) + unat (p_filesz s)"
proof (cases "p_filesz s \<ge> 4 \<and> e \<ge> p_vaddr s")
  case True
  then have "unat (e - p_vaddr s) = unat e - unat (p_vaddr s)" "unat (p_filesz s - 4) = unat (p_filesz s) - 4"
    by (simp_all add: unat_sub)
  with True show ?thesis by (auto simp: word_le_nat_alt)
next
  case False
  then show ?thesis by (auto simp: word_le_nat_alt)
qed

lemma check_overlap_iff:
  assumes "table + j * ELF_PH_SIZE + ELF_PH_SIZE \<le> length d"
  shows "loadable s \<Longrightarrow> check_overlap d table s j u = Done () \<longleftrightarrow> apart (segment_at d (table + j * ELF_PH_SIZE)) s"
  by (auto simp: check_overlap_def read_segment_at [OF assms] apart_def loadable_def segment_end_def not_less)

lemma check_segment_iff:
  assumes "\<And>j. j \<le> i \<Longrightarrow> table + j * ELF_PH_SIZE + ELF_PH_SIZE \<le> length d"
    and "s = segment_at d (table + i * ELF_PH_SIZE)"
  shows "check_segment d ram_size e table i (lo, hi, ex) = Done st \<longleftrightarrow>
    segment_ok (length d) ram_size s \<and> (\<forall>j<i. apart (segment_at d (table + j * ELF_PH_SIZE)) s) \<and>
    st = (if loadable s
          then (min lo (unat (p_vaddr s)), max hi (segment_end s), ex \<or> holds_entry e s) else (lo, hi, ex))"
proof -
  note read = read_segment_at [OF assms(1) [OF order_refl], folded assms(2)]
  have overlaps: "each (check_overlap d table s) [0..<i] () = Done ()
      \<longleftrightarrow> (\<forall>j<i. apart (segment_at d (table + j * ELF_PH_SIZE)) s)" if "loadable s"
    using that assms(1) by (auto simp: each_unit check_overlap_iff)
  have unit_result: "(\<exists>x. each body xs () = Done x \<and> P x) \<longleftrightarrow> each body xs () = Done () \<and> P ()"
    for body :: "nat \<Rightarrow> unit \<Rightarrow> unit parse" and xs P by auto
  show ?thesis
  proof (cases "p_type s = 1")
    case False
    then show ?thesis
      by (auto simp: check_segment_def read segment_ok_def loadable_def apart_def)
  next
    case type: True
    show ?thesis
    proof (cases "p_memsz s = 0")
      case True
      with type show ?thesis
        by (auto simp: check_segment_def read segment_ok_def loadable_def apart_def elf_range_iff segment_end_def word_gt_0)
    next
      case False
      with type have load: "loadable s" by (simp add: loadable_def)
      have state: "(if p_flags s AND 1 \<noteq> 0 \<and> p_filesz s \<ge> 4 \<and> e \<ge> p_vaddr s
             \<and> e - p_vaddr s \<le> p_filesz s - 4 \<and> unat e mod 4 = 0 then True else ex) = (ex \<or> holds_entry e s)"
        using load entry_check [of s e] by (auto simp: holds_entry_def)
      have bounds: "(if unat (p_vaddr s) < lo then unat (p_vaddr s) else lo) = min lo (unat (p_vaddr s))"
        "(if unat (p_vaddr s) + unat (p_memsz s) > hi then unat (p_vaddr s) + unat (p_memsz s) else hi) = max hi (segment_end s)"
        by (auto simp: segment_end_def)
      show ?thesis
        unfolding check_segment_def read and_then.simps prod.case Let_def state bounds
        using type False load
        by (auto simp: and_then_Done unit_result overlaps segment_ok_def elf_range_iff segment_end_def not_less)
    qed
  qed
qed

lemma Min_Max_insert:
  fixes A :: "nat set"
  assumes "finite A"
  shows "Min (insert r (insert v A)) = min (Min (insert r A)) v" "Max (insert r (insert v A)) = max (Max (insert r A)) v"
  using assms by (cases "A = {}"; simp add: min.commute min.left_commute max.commute max.left_commute)+

text \<open>The loop over the entries of the table, on a prefix of them.\<close>

lemma check_segments_iff:
  assumes "\<And>j. j < n \<Longrightarrow> table + j * ELF_PH_SIZE + ELF_PH_SIZE \<le> length d" "k \<le> n"
    and "ss = (\<lambda>k. map (\<lambda>i. segment_at d (table + i * ELF_PH_SIZE)) [0..<k])"
  shows "each (check_segment d ram_size e table) [0..<k] (ram_size, 0, False) = Done st \<longleftrightarrow>
    segments_ok (length d) ram_size (ss k) \<and>
    st = (lowest_of ram_size (ss k), highest_of (ss k), \<exists>s\<in>set (ss k). holds_entry e s)"
  using assms(2)
proof (induction k arbitrary: st)
  case 0
  then show ?case by (auto simp: segments_ok_def lowest_of_def highest_of_def assms(3))
next
  case (Suc k)
  let ?s = "segment_at d (table + k * ELF_PH_SIZE)"
  have ss: "ss (Suc k) = ss k @ [?s]" by (simp add: assms(3))
  have others: "(\<forall>j<k. apart (segment_at d (table + j * ELF_PH_SIZE)) ?s) \<longleftrightarrow> (\<forall>t\<in>set (ss k). apart t ?s)"
    by (auto simp: assms(3))
  have hits: "set (filter loadable (ss (Suc k))) =
      (if loadable ?s then insert ?s (set (filter loadable (ss k))) else set (filter loadable (ss k)))"
    by (auto simp: ss)
  have grow: "lowest_of ram_size (ss (Suc k)) =
      (if loadable ?s then min (lowest_of ram_size (ss k)) (unat (p_vaddr ?s)) else lowest_of ram_size (ss k))"
    "highest_of (ss (Suc k)) =
      (if loadable ?s then max (highest_of (ss k)) (segment_end ?s) else highest_of (ss k))"
    unfolding lowest_of_def highest_of_def hits
    by (cases "loadable ?s"; simp only: if_True if_False image_insert Min_Max_insert finite_imageI finite_set)+
  have "holds_entry e ?s \<Longrightarrow> loadable ?s" by (simp add: holds_entry_def)
  moreover have bound: "table + j * ELF_PH_SIZE + ELF_PH_SIZE \<le> length d" if "j \<le> k" for j
    using that Suc.prems by (intro assms(1)) simp
  ultimately show ?case
    unfolding upt_Suc_append [OF le0] each_snoc and_then_Done Suc.IH [OF Suc_leD [OF Suc.prems]] grow
    by (auto simp: check_segment_iff [OF bound refl] others ss segments_ok_def sorted_wrt_append)
qed

lemma backs_loadable:
  assumes "segment_ok file_size ram_size s" "backs a s"
  shows "loadable s" "a < segment_end s" "unat (p_vaddr s) \<le> a" "segment_end s \<le> ram_size"
    "unat (p_offset s) + unat (p_filesz s) \<le> file_size"
  using assms by (auto simp: segment_ok_def backs_def loadable_def segment_end_def word_le_nat_alt)

text \<open>Copying one more segment, which overlaps none of those copied before.\<close>

lemma copy_segment_eq:
  assumes read: "read_segment d (table + k * ELF_PH_SIZE) = Done s" and ok: "segment_ok (length d) ram_size s"
    and apart: "\<And>t. t \<in> set ss \<Longrightarrow> apart t s" and oks: "\<And>t. t \<in> set ss \<Longrightarrow> segment_ok (length d) ram_size t"
  shows "copy_segment d table k (map (elf_byte d ss) [0..<ram_size])
    = Done (map (elf_byte d (ss @ [s])) [0..<ram_size])"
proof -
  have other: "elf_byte d (ss @ [s]) a = elf_byte d ss a" if "\<not> backs a s" for a
    using that by (simp add: elf_byte_def find_append split: option.splits)
  show ?thesis
  proof (cases "p_type s = 1 \<and> p_filesz s \<noteq> 0")
    case False
    then have "\<not> backs a s" for a by (auto simp: backs_def)
    with False other show ?thesis by (auto simp: copy_segment_def read)
  next
    case True
    have fits: "unat (p_offset s) + unat (p_filesz s) \<le> length d"
      "unat (p_vaddr s) + unat (p_filesz s) \<le> ram_size"
      using ok True by (auto simp: segment_ok_def segment_end_def word_le_nat_alt)
    have mine: "elf_byte d (ss @ [s]) a = d ! (unat (p_offset s) + (a - unat (p_vaddr s)))" if "backs a s" for a
    proof -
      have "\<not> backs a t" if t: "t \<in> set ss" for t
        using apart [OF t] backs_loadable [OF oks [OF t], of a] backs_loadable [OF ok \<open>backs a s\<close>]
        by (auto simp: apart_def)
      then have "find (backs a) ss = None" by (simp add: find_None_iff)
      with that show ?thesis by (simp add: elf_byte_def find_append)
    qed
    have "blit (map (elf_byte d ss) [0..<ram_size]) (unat (p_vaddr s))
        (take (unat (p_filesz s)) (drop (unat (p_offset s)) d)) ! a = elf_byte d (ss @ [s]) a" if a: "a < ram_size" for a
      using a fits True mine [of a] other [of a]
      by (cases "backs a s") (auto simp: nth_blit_inside nth_blit_outside backs_def not_le)
    then have "blit (map (elf_byte d ss) [0..<ram_size]) (unat (p_vaddr s))
        (take (unat (p_filesz s)) (drop (unat (p_offset s)) d)) = map (elf_byte d (ss @ [s])) [0..<ram_size]"
      using fits by (intro nth_equalityI) simp_all
    with True fits show ?thesis by (simp add: copy_segment_def read)
  qed
qed

text \<open>Copying the segments gives the image.\<close>

lemma copy_segments_eq:
  assumes "\<And>j. j < n \<Longrightarrow> table + j * ELF_PH_SIZE + ELF_PH_SIZE \<le> length d" "k \<le> n"
    and "ss = (\<lambda>k. map (\<lambda>i. segment_at d (table + i * ELF_PH_SIZE)) [0..<k])"
    and "segments_ok (length d) ram_size (ss n)"
  shows "each (copy_segment d table) [0..<k] (replicate ram_size 0)
    = Done (map (elf_byte d (ss k)) [0..<ram_size])"
  using assms(2)
proof (induction k)
  case 0
  then show ?case by (simp add: assms(3) elf_byte_def map_replicate_const)
next
  case (Suc k)
  let ?s = "segment_at d (table + k * ELF_PH_SIZE)"
  have ss: "ss (Suc k) = ss k @ [?s]" by (simp add: assms(3))
  have "?s = ss n ! k" "take k (ss n) = ss k" "k < length (ss n)"
    using Suc.prems by (simp_all add: assms(3) take_map)
  then have "segment_ok (length d) ram_size ?s" "\<And>t. t \<in> set (ss k) \<Longrightarrow> apart t ?s"
    "\<And>t. t \<in> set (ss k) \<Longrightarrow> segment_ok (length d) ram_size t"
    using assms(4) Suc.prems
    by (auto simp: segments_ok_def list_all_iff sorted_wrt_iff_nth_less in_set_conv_nth assms(3))
  moreover have "read_segment d (table + k * ELF_PH_SIZE) = Done ?s"
    using Suc.prems by (intro read_segment_at assms(1)) simp
  ultimately have "copy_segment d table k (map (elf_byte d (ss k)) [0..<ram_size])
      = Done (map (elf_byte d (ss (Suc k))) [0..<ram_size])"
    unfolding ss by (intro copy_segment_eq)
  then show ?case unfolding upt_Suc_append [OF le0] each_snoc Suc.IH [OF Suc_leD [OF Suc.prems]] by simp
qed

subsection \<open>The whole loader\<close>

lemma lowest_less_highest:
  assumes "s \<in> set ss" "loadable s"
  shows "lowest_of ram_size ss \<le> unat (p_vaddr s)" "segment_end s \<le> highest_of ss"
    "lowest_of ram_size ss < highest_of ss"
proof -
  show low: "lowest_of ram_size ss \<le> unat (p_vaddr s)" and high: "segment_end s \<le> highest_of ss"
    using assms by (auto simp: lowest_of_def highest_of_def intro!: Min_le Max_ge)
  have "unat (p_vaddr s) < segment_end s" using assms(2) by (simp add: segment_end_def loadable_def unat_gt_0)
  with low high show "lowest_of ram_size ss < highest_of ss" by linarith
qed

lemma table_bound:
  assumes "header_ok d" "i < unat (u16_at d 44)"
  shows "unat (u32_at d 28) + i * ELF_PH_SIZE + ELF_PH_SIZE \<le> length d"
proof -
  have "unat (u32_at d 28) + unat (u16_at d 44) * 32 \<le> length d" using assms(1) by (simp add: header_ok_def ELF_PH_SIZE_def)
  moreover have "i * 32 + 32 \<le> unat (u16_at d 44) * 32" using assms(2) by linarith
  ultimately show ?thesis by (simp add: ELF_PH_SIZE_def)
qed

text \<open>The loops over the whole table, for a file with an accepted header.\<close>

lemma segment_loops:
  assumes "header_ok d"
  shows "each (check_segment d ram_size e (unat (u32_at d 28))) [0..<unat (u16_at d 44)] (ram_size, 0, False) = Done st
    \<longleftrightarrow> segments_ok (length d) ram_size (segments_of d)
      \<and> st = (lowest_of ram_size (segments_of d), highest_of (segments_of d), \<exists>s\<in>set (segments_of d). holds_entry e s)"
    and "segments_ok (length d) ram_size (segments_of d) \<Longrightarrow>
      each (copy_segment d (unat (u32_at d 28))) [0..<unat (u16_at d 44)] (replicate ram_size 0)
      = Done (map (elf_byte d (segments_of d)) [0..<ram_size])"
  using check_segments_iff [of "unat (u16_at d 44)" "unat (u32_at d 28)" d "unat (u16_at d 44)", OF _ order_refl refl]
    copy_segments_eq [of "unat (u16_at d 44)" "unat (u32_at d 28)" d "unat (u16_at d 44)", OF _ order_refl refl]
    table_bound [OF assms]
  by (simp_all add: segments_of_def ELF_PH_SIZE_def)

subsection \<open>The attribute checks\<close>

text \<open>
  The readers of numbers, attributes, scopes and vendors' parts against the grammar of
  \<open>Elf_Format\<close>: each accepts what is left of its range exactly when the grammar's item is at the
  beginning of it, and stops after the item.
\<close>

lemma uleb_loop_byte:
  assumes "s < 35" "p < e" "e \<le> length d"
  shows "uleb_loop d e p s r =
    (if s = 28 \<and> 16 \<le> unat (d ! p) then Done None
     else let r' = r OR push_bit s (ucast (d ! p AND 127)) in
       if d ! p < 128 then Done (Some (r', p + 1)) else uleb_loop d e (p + 1) (s + 7) r')"
  using assms by (auto simp: uleb_loop.simps [of d e p] top_bit_clear top_nibble_clear Let_def)

lemma uleb_loop_iff:
  assumes "s + 7 * n = 35" "e \<le> length d" "p \<le> e" "unat r < 2 ^ s"
  shows "uleb_loop d e p s r = Done (Some (v, q)) \<longleftrightarrow>
    (\<exists>bs rest. part d p e = bs @ rest \<and> groups n bs \<and> unat v = unat r + 2 ^ s * groups_value bs \<and> q = p + length bs)"
  using assms
proof (induction n arbitrary: s p r)
  case 0
  then show ?case by (simp add: uleb_loop.simps groups_def)
next
  case (Suc n)
  let ?b = "d ! p" and ?r = "r OR push_bit s (ucast (d ! p AND 127))"
  have s: "s < 35" "s = 28 \<Longrightarrow> n = 0" "s = 28 \<or> s \<le> 21" using Suc.prems(1) by presburger+
  consider "p = e" | (fifth) "p < e" "s = 28" "16 \<le> unat ?b" | (byte) "p < e" "s = 28 \<longrightarrow> unat ?b < 16"
    using Suc.prems(3) by fastforce
  then show ?case
  proof cases
    case 1
    then show ?thesis by (simp add: uleb_loop.simps groups_def)
  next
    case fifth
    with s(2) show ?thesis
      unfolding uleb_loop_byte [OF s(1) fifth(1) Suc.prems(2)] part_head [OF fifth(1) Suc.prems(2)] groups_read
      using fifth_group [OF fifth(3)] by (simp add: groups_def)
  next
    case byte
    then have go: "\<not> (s = 28 \<and> 16 \<le> unat ?b)" by auto
    note step = uleb_loop_byte [OF s(1) byte(1) Suc.prems(2), unfolded if_not_P [OF go] Let_def]
    have r: "unat ?r = unat r + 2 ^ s * (unat ?b mod 128)"
      using s(3) byte(2) by (intro group_or Suc.prems(4)) blast
    then have "unat ?r < 2 ^ (s + 7)" using group_bound [OF Suc.prems(4), of "unat ?b mod 128"] by simp
    then have later: "uleb_loop d e (p + 1) (s + 7) ?r = Done (Some (v, q)) \<longleftrightarrow>
        (\<exists>bs rest. part d (p + 1) e = bs @ rest \<and> groups n bs
           \<and> unat v = unat ?r + 2 ^ (s + 7) * groups_value bs \<and> q = p + 1 + length bs)"
      using Suc.prems(1) byte(1) by (intro Suc.IH Suc.prems(2)) simp_all
    show ?thesis
      unfolding step part_head [OF byte(1) Suc.prems(2)] groups_read next_value r [symmetric] later [symmetric]
      by (auto simp: word_unat_eq_iff)
  qed
qed

lemma uleb_iff:
  assumes "p \<le> e" "e \<le> length d"
  shows "uleb d p e = Done (Some (v, q)) \<longleftrightarrow>
    (\<exists>bs rest. part d p e = bs @ rest \<and> numeral_of bs (unat v) \<and> q = p + length bs)"
  using uleb_loop_iff [of 0 5 e d p 0 v q] assms unsigned_less [of v, where ?'a = nat]
  by (simp add: uleb_def numeral_of_def eq_commute [of "unat v"])

lemma uleb_complete:
  assumes "part d p e = bs @ rest" "numeral_of bs n" "p \<le> e" "e \<le> length d"
  shows "uleb d p e = Done (Some (of_nat n, p + length bs))"
proof -
  have "n < 2 ^ 32" using assms(2) by (simp add: numeral_of_def)
  then have "unat (of_nat n :: u32) = n" by (simp add: unat_of_nat)
  with assms show ?thesis by (auto simp: uleb_iff)
qed

lemma find_nul_sound:
  assumes "find_nul d p e = Done (Some q)" "p \<le> e" "e \<le> length d"
  obtains t rest where "part d p e = t @ 0 # rest" "0 \<notin> set t" "q = p + length t"
proof
  from assms(1,3) obtain i where i: "i < e - p" "d ! (p + i) = 0" "q = p + i" "\<forall>j<i. d ! (p + j) \<noteq> 0"
    by (auto simp: find_nul_def find_Some_iff)
  then have q: "p \<le> q" "q < e" "d ! q = 0" by simp_all
  show "part d p e = part d p q @ 0 # part d (q + 1) e"
    using part_append [of p q e d] part_head [of q e d] q assms(3) by simp
  have "length (part d p q) = q - p" using q assms(3) by (simp add: length_part)
  with i(3) show "q = p + length (part d p q)" by simp
  show "0 \<notin> set (part d p q)"
    using i(3,4) q assms(3) by (auto simp: in_set_conv_nth length_part nth_part)
qed

lemma find_nul_complete:
  assumes "part d p e = t @ 0 # rest" "0 \<notin> set t" "p \<le> e" "e \<le> length d"
  shows "find_nul d p e = Done (Some (p + length t))"
proof -
  have "length (t @ 0 # rest) = e - p" using length_part [OF assms(3,4)] assms(1) by simp
  then have t: "length t < e - p" by simp
  have at: "d ! (p + i) = (t @ 0 # rest) ! i" if "i \<le> length t" for i
    using nth_part [of i e p d] that t assms(1,4) by simp
  have "find (\<lambda>i. d ! i = 0) [p..<e] = Some (p + length t)"
    unfolding find_Some_iff using t at assms(2)
    by (intro exI [of _ "length t"]) (auto simp: nth_append in_set_conv_nth)
  with assms(4) show ?thesis by (simp add: find_nul_def)
qed

lemma text_is_iff:
  assumes "part d p e = t @ rest" "p \<le> e" "e \<le> length d"
  shows "text_is d p (p + length t) s \<longleftrightarrow> t = chars s"
  using part_split(3) [OF assms] by (simp add: text_is_def ascii_def part_def)

lemma attribute_tag_sound:
  assumes "attribute_tag d p e = Done q" "p \<le> e" "e \<le> length d"
  obtains a rest where "part d p e = a @ rest" "attribute_item a" "q = p + length a"
proof -
  from assms(1) obtain tag p1 where read: "uleb d p e = Done (Some (tag, p1))"
    by (auto simp: attribute_tag_def elim!: and_then_DoneE split: option.split_asm)
  with assms(2,3) obtain t rest1 where t: "part d p e = t @ rest1" "numeral_of t (unat tag)" "p1 = p + length t"
    by (auto simp: uleb_iff)
  note p1 = part_split [OF t(1) assms(2,3), folded t(3)]
  show thesis
  proof (cases "odd (unat tag)")
    case True
    with assms(1) obtain nul where nul: "find_nul d p1 e = Done (Some nul)" "q = nul + 1"
      "tag = 5 \<longrightarrow> text_is d p1 nul ''rv32i2p1'' \<or> text_is d p1 nul ''rv32i2p0'' \<or> text_is d p1 nul ''rv32i''"
      by (auto simp: attribute_tag_def read odd_tag elim!: and_then_DoneE split: option.split_asm if_split_asm)
    from find_nul_sound [OF nul(1) p1(1) assms(3)] obtain s rest where
      s: "rest1 = s @ 0 # rest" "0 \<notin> set s" "nul = p1 + length s" by (metis p1(2))
    have "attribute_item (t @ s @ [0])"
    proof (rule text_item [OF t(2) True s(2)])
      show "unat tag = 5 \<longrightarrow> s \<in> {chars ''rv32i2p1'', chars ''rv32i2p0'', chars ''rv32i''}"
        using nul(3) text_is_iff [OF _ p1(1) assms(3), of s "0 # rest"] p1(2) s(1,3) small_word [of 5 tag] by auto
    qed
    then show thesis by (rule that [rotated]) (simp_all add: t s nul(2))
  next
    case False
    with assms(1) obtain v where v: "uleb d p1 e = Done (Some (v, q))" "tag = 4 \<longrightarrow> v = 16" "tag = 6 \<longrightarrow> v = 0"
      by (auto simp: attribute_tag_def read odd_tag elim!: and_then_DoneE split: option.split_asm if_split_asm)
    from v(1) p1(1) assms(3) obtain n rest where n: "rest1 = n @ rest" "numeral_of n (unat v)" "q = p1 + length n"
      unfolding uleb_iff [OF p1(1) assms(3)] p1(2) by blast
    have "attribute_item (t @ n)"
      using t(2) False n(2) v(2,3) small_word [of 4 tag] small_word [of 6 tag] by (auto intro!: number_item)
    then show thesis by (rule that [rotated]) (simp_all add: t n)
  qed
qed

lemma attribute_tag_complete:
  assumes "part d p e = a @ rest" "attribute_item a" "p \<le> e" "e \<le> length d"
  shows "attribute_tag d p e = Done (p + length a)"
  using assms(2)
proof cases
  case (text_item t tag s)
  have split: "part d p e = t @ (s @ 0 # rest)" using assms(1) text_item(1) by simp
  note p1 = part_split [OF split assms(3,4)]
  have tag: "unat (of_nat tag :: u32) = tag" using text_item(2) by (simp add: numeral_of_def unat_of_nat)
  show ?thesis
    using text_item(3,5) find_nul_complete [OF p1(2) text_item(4) p1(1) assms(4)] text_is_iff [OF p1(2,1) assms(4)] small_word [of 5 "of_nat tag"]
    unfolding attribute_tag_def uleb_complete [OF split text_item(2) assms(3,4)]
    by (auto simp: odd_tag tag text_item(1))
next
  case (number_item t tag n v)
  have split: "part d p e = t @ (n @ rest)" using assms(1) number_item(1) by simp
  note p1 = part_split [OF split assms(3,4)]
  have tag: "unat (of_nat tag :: u32) = tag" using number_item(2) by (simp add: numeral_of_def unat_of_nat)
  show ?thesis
    using number_item(3,5,6) small_word [of 4 "of_nat tag"] small_word [of 6 "of_nat tag"]
    unfolding attribute_tag_def uleb_complete [OF split number_item(2) assms(3,4)]
    by (auto simp: odd_tag tag number_item(1) uleb_complete [OF p1(2) number_item(4) p1(1) assms(4)])
qed

text \<open>
  The contract of a reader of items: it reads one item at the beginning of what is left, and goes
  past it. A loop that calls it up to the end accepts the sequences of items.
\<close>

locale item_reader =
  fixes reader :: "u8 list \<Rightarrow> nat \<Rightarrow> nat \<Rightarrow> nat parse"
    and item :: "u8 list \<Rightarrow> bool"
  assumes sound: "reader d p e = Done q \<Longrightarrow> p < e \<Longrightarrow> e \<le> length d \<Longrightarrow>
      \<exists>a rest. part d p e = a @ rest \<and> item a \<and> q = p + length a"
    and complete: "part d p e = a @ rest \<Longrightarrow> item a \<Longrightarrow> p < e \<Longrightarrow> e \<le> length d \<Longrightarrow>
      reader d p e = Done (p + length a)"
    and item_ne: "item a \<Longrightarrow> a \<noteq> []"
begin

lemma sequence_next:
  assumes "bs \<noteq> []"
  shows "sequence_of item bs \<longleftrightarrow> (\<exists>a rest. bs = a @ rest \<and> item a \<and> sequence_of item rest)"
  using assms by (auto elim: sequence_of.cases intro: an_item)

lemma loop_exact:
  assumes loop: "\<And>p. loop p = (if p < e then and_then (reader d p e) loop else Done (result p))"
    and "p \<le> e" "e \<le> length d"
  shows "(\<exists>x. loop p = Done x) \<longleftrightarrow> sequence_of item (part d p e)"
  using assms(2)
proof (induction "e - p" arbitrary: p rule: less_induct)
  case less
  show ?case
  proof (cases "p < e")
    case False
    with less.prems have "part d p e = []" by simp
    with False show ?thesis by (simp add: loop [of p] no_item)
  next
    case True
    have IH: "(\<exists>x. loop (p + length a) = Done x) \<longleftrightarrow> sequence_of item rest"
      if "part d p e = a @ rest" "item a" for a rest
    proof -
      note split = part_split [OF that(1) less.prems assms(3)]
      have "e - (p + length a) < e - p" using item_ne [OF that(2)] True by (simp add: diff_less_mono2)
      from less.hyps [OF this split(1)] split(2) show ?thesis by simp
    qed
    have "part d p e \<noteq> []" using True part_head [OF True assms(3)] by simp
    then show ?thesis
      unfolding sequence_next [OF \<open>part d p e \<noteq> []\<close>] loop [of p] if_P [OF True] and_then_Done
      using IH sound [OF _ True assms(3)] complete [OF _ _ True assms(3)] by metis
  qed
qed

end

interpretation tag_reader: item_reader attribute_tag attribute_item
  by unfold_locales (blast elim: attribute_tag_sound intro: less_imp_le, auto intro: attribute_tag_complete dest: attribute_item_ne)

lemma attribute_tags_iff:
  assumes "p \<le> e" "e \<le> length d"
  shows "attribute_tags d p e = Done q \<longleftrightarrow> q = e \<and> sequence_of attribute_item (part d p e)"
proof -
  have "(\<exists>x. attribute_tags d p e = Done x) \<longleftrightarrow> sequence_of attribute_item (part d p e)"
    by (rule tag_reader.loop_exact [OF attribute_tags.simps [of d _ e] assms])
  then show ?thesis using attribute_tags_advances [OF _ assms(1)] by metis
qed

lemma attribute_scope_sound:
  assumes "attribute_scope d start e = Done q" "start < e" "e \<le> length d"
  shows "\<exists>a rest. part d start e = a @ rest \<and> scope_item a \<and> q = start + length a"
proof -
  from assms(1) obtain scope p where read: "uleb d start e = Done (Some (scope, p))" "4 \<le> e - p"
    by (auto simp: attribute_scope_def elim!: and_then_DoneE split: option.split_asm if_split_asm)
  with assms(2,3) obtain t rest where t: "part d start e = t @ rest" "numeral_of t (unat scope)" "p = start + length t"
    by (auto simp: uleb_iff)
  note split = part_split [OF t(1) less_imp_le [OF assms(2)] assms(3), folded t(3)]
  define subend where "subend = start + unat (u32_at d p)"
  have p: "p + 4 \<le> e" "start \<le> p" using read(2) split(1) t(3) by simp_all
  with assms(1,3) have ends: "p + 4 \<le> subend" "subend \<le> e" and one: "scope = 1"
    and tags: "attribute_tags d (p + 4) subend = Done q"
    by (auto simp: attribute_scope_def read Let_def subend_def split: if_split_asm)
  have as: "q = subend" "sequence_of attribute_item (part d (p + 4) subend)"
    using tags ends assms(3) by (simp_all add: attribute_tags_iff)
  have a: "part d start subend = t @ part d p (p + 4) @ part d (p + 4) subend"
    using part_append [of start p subend d] part_append [of p "p + 4" subend d] ends p split(3) by simp
  have len: "length (part d start subend) = unat (u32_at d p)"
    using ends p assms(3) by (simp add: length_part subend_def)
  have "scope_item (t @ part d p (p + 4) @ part d (p + 4) subend)"
  proof (rule file_scope [OF _ _ _ as(2)])
    show "numeral_of t 1" using t(2) one by simp
    show "length (part d p (p + 4)) = 4" using p(1) assms(3) by (simp add: length_part)
    show "unat (u32_at (part d p (p + 4)) 0) = length (t @ part d p (p + 4) @ part d (p + 4) subend)"
      unfolding u32_at_part [OF p(1) assms(3)] len [symmetric] a ..
  qed
  moreover have "part d start e = (t @ part d p (p + 4) @ part d (p + 4) subend) @ part d subend e"
    using part_append [of start subend e d] ends p a by simp
  moreover have "q = start + length (part d start subend)" using as(1) len by (simp add: subend_def)
  ultimately show ?thesis unfolding a by blast
qed

lemma attribute_scope_complete:
  assumes "part d start e = a @ rest" "scope_item a" "start < e" "e \<le> length d"
  shows "attribute_scope d start e = Done (start + length a)"
  using assms(2)
proof cases
  case (file_scope t sz as)
  have split1: "part d start e = t @ (sz @ as @ rest)" using assms(1) file_scope(1) by simp
  note p = part_split [OF split1 less_imp_le [OF assms(3)] assms(4)]
  note p4 = part_split [OF p(2,1) assms(4), unfolded file_scope(3)]
  note whole = part_split [OF assms(1) less_imp_le [OF assms(3)] assms(4)]
  have sub: "unat (u32_at d (start + length t)) = length a"
    using file_scope(1,4) u32_at_part [OF p4(1) assms(4)] p4(3) by simp
  have as: "part d (start + length t + 4) (start + length a) = as"
    using part_split(2) [OF whole(3) [unfolded file_scope(1) append_assoc [symmetric]] le_add1] whole(1) assms(4)
    by (simp add: file_scope(1,3) add.assoc)
  have le: "start + length t + 4 \<le> start + length a" by (simp add: file_scope(1,3))
  have "attribute_tags d (start + length t + 4) (start + length a) = Done (start + length a)"
    using le whole(1) assms(4) as file_scope(5) by (simp add: attribute_tags_iff)
  then show ?thesis
    using p4(1) whole(1) assms(4) uleb_complete [OF split1 file_scope(2) less_imp_le [OF assms(3)] assms(4)]
    by (simp add: attribute_scope_def Let_def sub) (auto simp: file_scope(1,3))
qed

interpretation scope_reader: item_reader attribute_scope scope_item
proof
  show "a \<noteq> []" if "scope_item a" for a
    using that by (auto elim!: scope_item.cases simp: numeral_of_def)
qed (fact attribute_scope_sound attribute_scope_complete)+

lemma attribute_scopes_iff:
  assumes "p \<le> e" "e \<le> length d"
  shows "attribute_scopes d p e = Done () \<longleftrightarrow> sequence_of scope_item (part d p e)"
  using scope_reader.loop_exact [OF attribute_scopes.simps [of d _ e] assms] by simp

text \<open>The body of the loop over the vendors' parts.\<close>

definition vendor_reader :: "u8 list \<Rightarrow> nat \<Rightarrow> nat \<Rightarrow> nat parse" where
  "vendor_reader d p e =
     (if \<not> elf_range p 4 e then malformed
      else and_then (elf_u32 d p) (\<lambda>len.
        if unat len < 5 \<or> \<not> elf_range p (unat len) e then malformed
        else and_then (find_nul d (p + 4) (p + unat len)) (\<lambda>nul. case nul of None \<Rightarrow> malformed | Some nul \<Rightarrow>
          and_then (if text_is d (p + 4) nul ''riscv'' then attribute_scopes d (nul + 1) (p + unat len) else Done ())
            (\<lambda>_. Done (p + unat len)))))"

lemma and_then_assoc: "and_then (and_then m f) g = and_then m (\<lambda>x. and_then (f x) g)"
  by (cases m) simp_all

lemma fail_then [simp]: "and_then (fail message) f = fail message"
  by (simp add: fail_def)

lemma attribute_vendors_loop:
  "attribute_vendors d p = (if p < length d then and_then (vendor_reader d p (length d)) (attribute_vendors d) else Done ())"
  by (subst attribute_vendors.simps)
    (auto simp: vendor_reader_def and_then_assoc Let_def intro!: and_then_cong split: option.split)

lemma vendor_reader_sound:
  assumes "vendor_reader d p e = Done q" "p < e" "e \<le> length d"
  shows "\<exists>a rest. part d p e = a @ rest \<and> vendor_item a \<and> q = p + length a"
proof -
  define m where "m = p + unat (u32_at d p)"
  from assms(1,3) obtain nul where p4: "p + 4 \<le> e"
    and m: "p + 5 \<le> m" "m \<le> e" and nul: "find_nul d (p + 4) m = Done (Some nul)" "q = m"
    and scopes: "text_is d (p + 4) nul ''riscv'' \<longrightarrow> attribute_scopes d (nul + 1) m = Done ()"
    by (auto simp: vendor_reader_def m_def elf_range_iff and_then_Done split: option.split_asm if_split_asm)
  have p4m: "p + 4 \<le> m" "m \<le> length d" using m assms(3) by simp_all
  from find_nul_sound [OF nul(1) p4m] obtain name bs where
    name: "part d (p + 4) m = name @ 0 # bs" "0 \<notin> set name" "nul = p + 4 + length name" .
  have "part d (p + 4) m = (name @ [0]) @ bs" using name(1) by simp
  note bs = part_split [OF this p4m]
  have a: "part d p m = part d p (p + 4) @ name @ [0] @ bs"
    using part_append [of p "p + 4" m d] p4m(1) name(1) by simp
  have len: "length (part d p m) = unat (u32_at d p)" using p4m by (simp add: length_part m_def)
  have "vendor_item (part d p (p + 4) @ name @ [0] @ bs)"
  proof (rule a_vendor)
    show "length (part d p (p + 4)) = 4" using p4 assms(3) by (simp add: length_part)
    show "unat (u32_at (part d p (p + 4)) 0) = length (part d p (p + 4) @ name @ [0] @ bs)"
      unfolding u32_at_part [OF p4 assms(3)] len [symmetric] a ..
    show "0 \<notin> set name" by fact
    show "name = chars ''riscv'' \<longrightarrow> sequence_of scope_item bs"
    proof -
      have "nul + 1 = p + 4 + length (name @ [0])" by (simp add: name(3))
      with scopes show ?thesis
        using text_is_iff [OF name(1) p4m, of "''riscv''"] attribute_scopes_iff [OF bs(1) p4m(2)] bs(2)
        by (simp only: name(3))
    qed
  qed
  moreover have "part d p e = (part d p (p + 4) @ name @ [0] @ bs) @ part d m e"
    using part_append [of p m e d] m a by simp
  moreover have "q = p + length (part d p m)" using nul(2) len by (simp add: m_def)
  ultimately show ?thesis unfolding a by blast
qed

lemma vendor_reader_complete:
  assumes "part d p e = a @ rest" "vendor_item a" "p < e" "e \<le> length d"
  shows "vendor_reader d p e = Done (p + length a)"
  using assms(2)
proof cases
  case (a_vendor sz name bs)
  have split: "part d p e = sz @ (name @ [0] @ bs @ rest)" using assms(1) a_vendor(1) by simp
  note p4 = part_split [OF split less_imp_le [OF assms(3)] assms(4), unfolded a_vendor(2)]
  note whole = part_split [OF assms(1) less_imp_le [OF assms(3)] assms(4)]
  have len: "unat (u32_at d p) = length a"
    using a_vendor(1,3) u32_at_part [OF p4(1) assms(4)] p4(3) by simp
  define m where "m = p + length a"
  have m: "p + 4 \<le> m" "m \<le> length d" "5 \<le> length a" "m \<le> e"
    using whole(1) assms(4) by (simp_all add: m_def a_vendor(1,2))
  have inner: "part d (p + 4) m = name @ 0 # bs"
    using part_split(2) [OF whole(3) [unfolded a_vendor(1)] le_add1] whole(1) assms(4)
    by (simp add: a_vendor(1,2) m_def)
  then have "part d (p + 4) m = (name @ [0]) @ bs" by simp
  note bs = part_split [OF this m(1,2)]
  have "text_is d (p + 4) (p + 4 + length name) ''riscv'' \<Longrightarrow>
      attribute_scopes d (p + 4 + length name + 1) m = Done ()"
    using a_vendor(5) text_is_iff [OF inner m(1,2)] bs(1,2) m(2) by (simp add: attribute_scopes_iff)
  then show ?thesis
    using find_nul_complete [OF inner a_vendor(4) m(1,2)] p4(1) assms(4) m
    by (simp add: vendor_reader_def elf_range_iff len m_def)
qed

interpretation vendor_reader: item_reader vendor_reader vendor_item
proof
  show "a \<noteq> []" if "vendor_item a" for a
    using that by (auto elim!: vendor_item.cases)
qed (fact vendor_reader_sound vendor_reader_complete)+

lemma attributes_iff: "attributes d = Done () \<longleftrightarrow> attributes_ok d"
proof (cases d)
  case (Cons b bs)
  have "part d 1 (length d) = bs" by (simp add: part_def Cons)
  moreover have "(\<exists>x. attribute_vendors d 1 = Done x) \<longleftrightarrow> sequence_of vendor_item (part d 1 (length d))"
    by (rule vendor_reader.loop_exact [OF attribute_vendors_loop]) (simp_all add: Cons)
  ultimately show ?thesis by (auto simp: attributes_def attributes_ok_def Cons elf_u8_def)
qed (simp add: attributes_def attributes_ok_def)

subsection \<open>The section checks\<close>

lemma check_section_iff:
  assumes "table + i * 40 + 40 \<le> length d"
  shows "check_section d table i u = Done () \<longleftrightarrow> section_ok d (section_at d (table + i * 40))"
proof -
  have tls: "w AND 0x400 \<noteq> 0 \<longleftrightarrow> bit w 10" for w :: u32
    using and_exp_eq_0_iff_not_bit [of w 10] by simp
  show ?thesis
    using assms
    by (auto simp: check_section_def section_ok_def section_at_def section_bytes_def ELF_SH_SIZE_def Let_def
        elf_range_iff tls attributes_iff)
qed

lemma validate_sections_iff:
  assumes "52 \<le> length d"
  shows "validate_sections d = Done () \<longleftrightarrow> sections_ok d"
proof -
  let ?table = "unat (u32_at d 32)" and ?n = "unat (u16_at d 48)"
  have sections: "each (check_section d ?table) [0..<?n] () = Done () \<longleftrightarrow> list_all (section_ok d) (sections_of d)"
    if "?table + ?n * 40 \<le> length d"
  proof -
    have "?table + i * 40 + 40 \<le> length d" if "i < ?n" for i
    proof -
      have "Suc i * 40 \<le> ?n * 40" using that by (intro mult_le_mono1) simp
      with \<open>?table + ?n * 40 \<le> length d\<close> show ?thesis by simp
    qed
    then show ?thesis by (simp add: each_unit check_section_iff sections_of_def list_all_iff)
  qed
  have size: "unat (u16_at d 46) = 40 \<longleftrightarrow> u16_at d 46 = 40" by (simp add: word_unat_eq_iff)
  have none: "u16_at d 48 = 0 \<Longrightarrow> \<not> u16_at d 50 < u16_at d 48" by simp
  show ?thesis
    using assms sections none
    by (auto simp: validate_sections_def sections_ok_def ELF_SH_SIZE_def elf_range_iff not_le [symmetric] size)
qed

definition elf_owner :: "u8 list \<Rightarrow> program" where
  "elf_owner d = zero_program\<lparr>prog_format := PROGRAM_ELF, elf_data := Ref d, elf_size := length d\<rparr>"

lemma elf_owner_parts [simp]:
  "elf_data (elf_owner d) = Ref d" "elf_size (elf_owner d) = length d" "prog_memory (elf_owner d) = zero_memory"
  by (simp_all add: elf_owner_def zero_program_def)

text \<open>The checks of the header come first; what follows them is the rest of the function.\<close>

definition load_rest :: "bool \<Rightarrow> u8 list \<Rightarrow> nat \<Rightarrow> program parse" where
  "load_rest ram_ok d ram_size =
     and_then (validate_sections d) (\<lambda>_.
     and_then (each (check_segment d ram_size (u32_at d 24) (unat (u32_at d 28))) [0..<unat (u16_at d 44)]
         (ram_size, 0, False)) (\<lambda>(lowest, highest, executable_entry).
     if \<not> executable_entry \<or> lowest \<ge> highest
     then fail ''ELF entry must address an aligned file-backed executable instruction''
     else
     case memory_init (Ref (prog_memory (elf_owner d))) ram_size ram_ok of
       None \<Rightarrow> fail ''cannot allocate program RAM''
     | Some mem \<Rightarrow>
         and_then (each (copy_segment d (unat (u32_at d 28))) [0..<unat (u16_at d 44)] (bytes_of mem)) (\<lambda>ram.
         Done ((elf_owner d)\<lparr>prog_memory := mem\<lparr>mem_bytes := Ref ram\<rparr>, load_address := of_nat lowest,
           entry := u32_at d 24, image_size := highest - lowest\<rparr>))))"

lemma load_elf_header:
  assumes "header_ok d"
  shows "load_elf ram_ok (elf_owner d) ram_size = load_rest ram_ok d ram_size"
proof -
  have size: "52 \<le> length d" using assms by (simp add: header_ok_def)
  from assms show ?thesis
    unfolding header_ok_code load_elf_def load_rest_def Let_def elf_owner_parts option.sel
    using size by (simp only: elf_at and_then.simps elf_range_iff not_less [symmetric]) simp
qed

definition fails :: "'a parse \<Rightarrow> bool" where
  "fails m \<longleftrightarrow> (\<exists>message. m = fail message)"

lemma fails_intros:
  "fails (fail message)" "(\<not> c \<Longrightarrow> fails m) \<Longrightarrow> fails (if c then fail message else m)"
  "m = Done x \<Longrightarrow> fails (f x) \<Longrightarrow> fails (and_then m f)"
  by (auto simp: fails_def)

lemma load_elf_bad_header:
  assumes "\<not> header_ok d"
  shows "fails (load_elf ram_ok (elf_owner d) ram_size)"
proof (cases "52 \<le> length d")
  case False
  then show ?thesis by (simp add: load_elf_def ELF_HEADER_SIZE_def fails_intros(1))
next
  case True
  then have at: "elf_u8 d 4 = Done (d ! 4)" "elf_u8 d 5 = Done (d ! 5)" "elf_u8 d 6 = Done (d ! 6)"
    "elf_u16 d 16 = Done (u16_at d 16)" "elf_u16 d 18 = Done (u16_at d 18)" "elf_u32 d 20 = Done (u32_at d 20)"
    "elf_u32 d 36 = Done (u32_at d 36)" "elf_u16 d 40 = Done (u16_at d 40)" "elf_u16 d 42 = Done (u16_at d 42)"
    "elf_u32 d 28 = Done (u32_at d 28)" "elf_u32 d 24 = Done (u32_at d 24)" "elf_u16 d 44 = Done (u16_at d 44)"
    by simp_all
  have "fails (if length d < ELF_HEADER_SIZE \<or> take 4 d \<noteq> elf_identity then fail m0
      else if d ! 4 \<noteq> 1 \<or> d ! 5 \<noteq> 1 \<or> d ! 6 \<noteq> 1 \<or> u16_at d 16 \<noteq> 2 \<or> u16_at d 18 \<noteq> 243 \<or> u32_at d 20 \<noteq> 1 then fail m1
      else if u32_at d 36 \<noteq> 0 then fail m2
      else if unat (u16_at d 40) \<noteq> ELF_HEADER_SIZE \<or> unat (u16_at d 42) \<noteq> ELF_PH_SIZE then fail m3
      else if u16_at d 44 = 0 \<or> unat (u16_at d 44) > ELF_MAX_SEGMENTS
         \<or> \<not> elf_range (unat (u32_at d 28)) (unat (u16_at d 44) * ELF_PH_SIZE) (length d) then fail m4
      else rest)" for m0 m1 m2 m3 m4 and rest :: "program parse"
    using assms by (intro fails_intros) (auto simp: header_ok_code elf_range_iff)
  then show ?thesis
    unfolding load_elf_def Let_def elf_owner_parts option.sel at and_then.simps .
qed

lemma load_rest_iff:
  assumes "header_ok d" "memory_size_valid ram_size"
  shows "load_rest True d ram_size = Done p \<longleftrightarrow>
    sections_ok d \<and> segments_ok (length d) ram_size (segments_of d)
    \<and> (\<exists>s\<in>set (segments_of d). holds_entry (u32_at d 24) s) \<and> p = elf_program d ram_size"
proof -
  note checks = segment_loops(1) [OF assms(1)] and copies = segment_loops(2) [OF assms(1)]
  have sections: "(\<exists>x. validate_sections d = Done x \<and> P x) \<longleftrightarrow> sections_ok d \<and> P ()" for P
    using assms(1) validate_sections_iff [of d] by (auto simp: header_ok_def)
  have entry: "lowest_of ram_size (segments_of d) < highest_of (segments_of d)"
    if "s \<in> set (segments_of d)" "holds_entry (u32_at d 24) s" for s
    using that lowest_less_highest(3) by (auto simp: holds_entry_def)
  have init: "memory_init (Ref (prog_memory (elf_owner d))) ram_size True
      = Some \<lparr>mem_bytes = Ref (replicate ram_size 0), mem_size = ram_size\<rparr>"
    using assms(2) by (simp add: memory_init_def zero_memory_def)
  show ?thesis
    unfolding load_rest_def init and_then_Done checks sections
    using entry copies [of ram_size]
    by (auto simp: elf_program_def elf_owner_def and_then_Done not_le [symmetric] split: if_splits)
qed

lemma program_read_elf_iff:
  assumes "\<And>n. alloc n"
  shows "program_read_elf alloc True (Ref f) ram_size (Ref out) = Done p \<longleftrightarrow>
    memory_size_valid ram_size \<and> length (bytes_left f) \<le> ELF_FILE_LIMIT \<and> \<not> read_fails f
    \<and> elf_ok (bytes_left f) ram_size \<and> p = elf_program (bytes_left f) ram_size"
proof (cases "memory_size_valid ram_size \<and> length (bytes_left f) \<le> ELF_FILE_LIMIT \<and> \<not> read_fails f")
  case False
  then show ?thesis
    by (auto simp: program_read_elf_def program_input_bytes_eq [OF assms] program_error_def)
next
  case True
  then have "program_read_elf alloc True (Ref f) ram_size (Ref out) = load_elf True (elf_owner (bytes_left f)) ram_size"
    by (simp add: program_read_elf_def program_input_bytes_eq [OF assms] elf_owner_def)
  then show ?thesis
    using True load_elf_header [of "bytes_left f" True ram_size] load_elf_bad_header [of "bytes_left f" True ram_size] load_rest_iff [of "bytes_left f" ram_size p]
    by (cases "header_ok (bytes_left f)") (auto simp: elf_ok_def fails_def)
qed

text \<open>Allocation failures only add errors: what is loaded with them is loaded without.\<close>

lemma program_read_elf_Done:
  assumes "program_read_elf alloc ram_ok (Ref f) ram_size (Ref out) = Done p"
  shows "program_read_elf (\<lambda>_. True) True (Ref f) ram_size (Ref out) = Done p"
proof -
  from assms have size: "memory_size_valid ram_size"
    by (auto simp: program_read_elf_def split: if_splits)
  with assms obtain bytes where input: "program_input_bytes alloc f ELF_FILE_LIMIT = Inr bytes"
    and load: "load_elf ram_ok (elf_owner bytes) ram_size = Done p"
    by (auto simp: program_read_elf_def elf_owner_def split: sum.splits)
  note b = program_input_bytes_Inr [OF input]
  have "header_ok bytes" using load load_elf_bad_header [of bytes ram_ok ram_size] by (auto simp: fails_def)
  have "ram_ok"
  proof (rule ccontr)
    assume "\<not> ram_ok"
    then have "load_rest ram_ok bytes ram_size \<noteq> Done p"
      using size by (auto simp: load_rest_def memory_init_def zero_memory_def
          and_then_Done split: if_splits)
    with load load_elf_header [OF \<open>header_ok bytes\<close>] show False by simp
  qed
  with load b size show ?thesis
    by (simp add: program_read_elf_def program_input_bytes_eq elf_owner_def)
qed

lemma elf_program_wf:
  assumes "elf_ok d ram_size" "memory_size_valid ram_size"
  shows "program_wf (elf_program d ram_size)"
proof -
  let ?ss = "segments_of d" and ?e = "u32_at d 24"
  obtain s where s: "s \<in> set ?ss" "holds_entry ?e s" using assms(1) by (auto simp: elf_ok_def fails_def)
  have ok: "segment_ok (length d) ram_size t" if "t \<in> set ?ss" for t
    using that assms(1) by (auto simp: elf_ok_def segments_ok_def list_all_iff)
  have load: "loadable s" using s(2) by (simp add: holds_entry_def)
  note bounds = lowest_less_highest(1) [OF s(1) load, of ram_size] lowest_less_highest(2) [OF s(1) load]
    lowest_less_highest(3) [OF s(1) load, of ram_size]
  have high: "highest_of ?ss \<le> ram_size"
    using ok by (auto simp: highest_of_def segment_ok_def loadable_def)
  have small: "ram_size < 2 ^ 32" using memory_size_validD [OF assms(2)] by simp
  have address: "unat (of_nat (lowest_of ram_size ?ss) :: u32) = lowest_of ram_size ?ss"
  proof -
    have "lowest_of ram_size ?ss < 2 ^ 32" using bounds(3) high small by linarith
    then show ?thesis by (simp add: unat_of_nat)
  qed
  have "unat (p_vaddr s) \<le> unat ?e" "unat ?e + 4 \<le> unat (p_vaddr s) + unat (p_filesz s)" "unat ?e mod 4 = 0"
      "unat (p_filesz s) \<le> unat (p_memsz s)"
    using s(2) ok [OF s(1)] load by (simp_all add: holds_entry_def segment_ok_def loadable_def word_le_nat_alt)
  then have "lowest_of ram_size ?ss \<le> unat ?e" "unat ?e + 4 \<le> highest_of ?ss" "unat ?e mod 4 = 0"
    using bounds(1,2) by (simp_all add: segment_end_def)
  with bounds(3) high assms(2) address show ?thesis
    by (simp add: program_wf_def elf_program_def memory_wf_def)
qed

interpretation elf_loader: program_loader
  "\<lambda>f p. program_read_elf alloc ram_ok (Ref f) sz (Ref out) = Done p" for alloc ram_ok sz out
proof unfold_locales
  fix f p
  assume "program_read_elf alloc ram_ok (Ref f) sz (Ref out) = Done p"
  from program_read_elf_Done [OF this] have "memory_size_valid sz" "elf_ok (bytes_left f) sz"
    "p = elf_program (bytes_left f) sz" by (simp_all add: program_read_elf_iff)
  then show "program_wf p" using elf_program_wf by simp
qed

lemma load_elf_safe: "safe (load_elf ram_ok (elf_owner d) ram_size)"
proof (cases "header_ok d")
  case False
  then show ?thesis using load_elf_bad_header [OF False, of ram_ok ram_size] by (auto simp: fails_def)
next
  case True
  let ?n = "unat (u16_at d 44)" and ?table = "unat (u32_at d 28)"
  note bound = table_bound [OF True]
  note checks = segment_loops(1) [OF True] and copies = segment_loops(2) [OF True]
  have overlap: "safe (each (check_overlap d ?table s) [0..<i] ())" if "i < ?n" for s i
    using that bound by (intro safe_each [where I = "\<lambda>_. True"]) (auto simp: check_overlap_def intro!: safety)
  have segment: "safe (check_segment d ram_size (u32_at d 24) ?table i st)" if "i < ?n" for i st
    unfolding check_segment_def using that bound overlap by (intro safety) simp_all
  show ?thesis
    unfolding load_elf_header [OF True] load_rest_def
  proof (intro safety)
    show "ELF_HEADER_SIZE \<le> length d" using True by (simp add: header_ok_code)
    show "safe (each (check_segment d ram_size (u32_at d 24) ?table) [0..<?n] (ram_size, 0, False))"
      using segment by (intro safe_each [where I = "\<lambda>_. True"]) simp_all
  next
    fix x lowest highest_entry highest found mem
    assume "each (check_segment d ram_size (u32_at d 24) ?table) [0..<?n] (ram_size, 0, False) = Done x"
      and mem: "memory_init (Ref (prog_memory (elf_owner d))) ram_size ram_ok = Some mem"
    then have "segments_ok (length d) ram_size (segments_of d)" by (simp add: checks)
    moreover have "bytes_of mem = replicate ram_size 0"
      using mem by (auto simp: memory_init_def split: if_splits)
    ultimately show "safe (each (copy_segment d ?table) [0..<?n] (bytes_of mem))"
      using copies by simp
  qed simp_all
qed

subsection \<open>Variable-length numbers\<close>

text \<open>The encoding with seven bits in a byte, the least first, and bit 7 set on all but the last.\<close>

function uleb_encode :: "u32 \<Rightarrow> u8 list" where
  "uleb_encode w = (if w < 128 then [ucast w] else (ucast (take_bit 7 w) OR 128) # uleb_encode (drop_bit 7 w))"
  by pat_completeness auto
termination
  by (relation "measure unat") (auto simp: drop_bit_eq_div unat_div word_less_nat_alt not_less word_le_nat_alt)

declare uleb_encode.simps [simp del]

lemma bit_128: "bit (128 :: u8) n \<longleftrightarrow> n = 7"
  using bit_exp_iff [of 7 n, where ?'a = "8 word"] by auto

lemma more_byte:
  "(ucast (take_bit 7 w) OR 128 :: u8) AND 128 \<noteq> 0"
  "(ucast ((ucast (take_bit 7 w) OR 128 :: u8) AND 127) :: u32) = take_bit 7 w" for w :: u32
proof -
  have "bit ((ucast (take_bit 7 w) OR 128 :: u8) AND 128) 7" by (simp add: bit_and_iff bit_or_iff bit_128)
  then show "(ucast (take_bit 7 w) OR 128 :: u8) AND 128 \<noteq> 0" by (metis bit_0_eq bot_apply bot_bool_def)
  show "(ucast ((ucast (take_bit 7 w) OR 128 :: u8) AND 127) :: u32) = take_bit 7 w"
    unfolding low_seven by (rule bit_eqI) (auto simp: bit_unsigned_iff bit_take_bit_iff bit_or_iff bit_128)
qed

lemma take_seven: "w < 128 \<Longrightarrow> take_bit 7 w = w" for w :: u32
proof -
  assume "w < 128"
  then have "unat w < 2 ^ 7" by (simp add: word_less_nat_alt)
  then have "take_bit 7 (unat w) = unat w" by (rule take_bit_nat_eq_self)
  then show ?thesis by (metis unsigned_take_bit_eq word_unat_eq_iff)
qed

lemma last_byte:
  fixes w :: u32
  assumes "w < 128"
  shows "(ucast w :: u8) AND 128 = 0" "(ucast ((ucast w :: u8) AND 127) :: u32) = w"
proof -
  have "take_bit 7 w = w" using assms by (rule take_seven)
  then have low: "bit w n \<Longrightarrow> n < 7" for n by (metis bit_take_bit_iff)
  have wide: "bit w n \<Longrightarrow> n < 8" for n using low [of n] by simp
  from low show "(ucast w :: u8) AND 128 = 0"
    using bit_128 by (intro bit_eqI) (simp only: bit_and_iff bit_unsigned_iff bit_0_eq bot_apply bot_bool_def, blast)
  show "(ucast ((ucast w :: u8) AND 127) :: u32) = w"
    unfolding low_seven using low wide
    by (intro bit_eqI) (auto simp: bit_unsigned_iff bit_take_bit_iff)
qed

lemma join_groups: "take_bit s w OR push_bit s (take_bit 7 (drop_bit s w)) = take_bit (s + 7) w" for w :: u32
  by (rule bit_eqI) (auto simp: bit_or_iff bit_take_bit_iff bit_push_bit_iff bit_drop_bit_eq)

text \<open>The last group: it ends the number, and as the fifth one it has only four bits.\<close>

lemma last_group:
  fixes v :: u32
  assumes "drop_bit s v < 128"
  shows "take_bit s v OR push_bit s (drop_bit s v) = v"
    and "s = 28 \<Longrightarrow> (ucast (drop_bit s v) :: u8) AND 0xF0 = 0"
proof -
  have seven: "take_bit 7 (drop_bit s v) = drop_bit s v" using assms by (rule take_seven)
  have "take_bit (s + 7) v = v"
  proof (rule bit_eqI)
    fix n show "bit (take_bit (s + 7) v) n = bit v n"
      using arg_cong [OF seven, of "\<lambda>x. bit x (n - s)"]
      by (cases "s \<le> n") (auto simp: bit_take_bit_iff bit_drop_bit_eq)
  qed
  with join_groups [of s v] seven show "take_bit s v OR push_bit s (drop_bit s v) = v" by simp
  assume "s = 28"
  then have "bit (drop_bit s v) n \<Longrightarrow> n < 4" for n
    using bit_imp_le_length [of v "28 + n"] by (simp add: bit_drop_bit_eq)
  moreover have "bit (0xF0 :: u8) n \<Longrightarrow> 4 \<le> n" for n
  proof -
    have "(0xF0 :: u8) = push_bit 4 15" by simp
    then show "bit (0xF0 :: u8) n \<Longrightarrow> 4 \<le> n" by (metis bit_push_bit_iff)
  qed
  ultimately show "(ucast (drop_bit s v) :: u8) AND 0xF0 = 0"
    by (intro bit_eqI) (auto simp: bit_and_iff bit_unsigned_iff dest: leD)
qed

text \<open>Every other group has a successor inside the 32 bits.\<close>

lemma next_group:
  fixes v :: u32
  assumes "s mod 7 = 0" "s \<le> 28" "\<not> drop_bit s v < 128"
  shows "s \<noteq> 28" "s + 7 \<le> 28" "(s + 7) mod 7 = 0"
proof -
  show "s \<noteq> 28"
  proof
    assume "s = 28"
    then have "unat (drop_bit s v) < 16" using unsigned_less [of v, where ?'a = nat]
      by (simp add: drop_bit_eq_div unat_div)
    with assms(3) show False by (simp add: word_less_nat_alt)
  qed
  with assms(1,2) show "s + 7 \<le> 28" "(s + 7) mod 7 = 0" by presburger+
qed

lemma uleb_loop_encoded:
  assumes "s mod 7 = 0" "s \<le> 28" "end_pos \<le> length d" "p + length (uleb_encode (drop_bit s v)) \<le> end_pos"
    "take (length (uleb_encode (drop_bit s v))) (drop p d) = uleb_encode (drop_bit s v)"
  shows "uleb_loop d end_pos p s (take_bit s v) = Done (Some (v, p + length (uleb_encode (drop_bit s v))))"
  using assms
proof (induction "35 - s" arbitrary: s p rule: less_induct)
  case less
  let ?w = "drop_bit s v"
  have p: "p < end_pos" "p < length d" using less.prems(3,4) by (auto simp: uleb_encode.simps split: if_splits)
  have "uleb_encode ?w \<noteq> []" by (subst uleb_encode.simps) simp
  then have "hd (take (length (uleb_encode ?w)) (drop p d)) = d ! p" using p(2) by (simp add: hd_take hd_drop_conv_nth)
  then have head: "d ! p = hd (uleb_encode ?w)" using less.prems(5) by simp
  show ?case
  proof (cases "?w < 128")
    case True
    then have enc: "uleb_encode ?w = [ucast ?w]" by (simp add: uleb_encode.simps)
    show ?thesis
      using p head less.prems(2) last_group [OF True] last_byte [OF True]
      by (simp add: uleb_loop.simps [of d end_pos p] enc)
  next
    case False
    then have enc: "uleb_encode ?w = (ucast (take_bit 7 ?w) OR 128) # uleb_encode (drop_bit 7 ?w)"
      by (simp add: uleb_encode.simps [of ?w])
    note s = next_group [OF less.prems(1,2) False]
    have next_w: "drop_bit 7 ?w = drop_bit (s + 7) v" by (simp add: add.commute)
    note comm = add.commute [of 7 s]
    let ?n = "length (uleb_encode (drop_bit (s + 7) v))"
    have "take (Suc ?n) (drop p d) = uleb_encode ?w" using less.prems(5) by (simp add: enc next_w comm)
    then have "take ?n (drop (Suc p) d) = uleb_encode (drop_bit (s + 7) v)"
      using p(2) by (simp add: enc next_w comm Cons_nth_drop_Suc [symmetric])
    then have "uleb_loop d end_pos (p + 1) (s + 7) (take_bit (s + 7) v) = Done (Some (v, p + 1 + ?n))"
      using less.prems(3,4) s by (intro less.hyps) (simp_all add: enc next_w comm)
    then show ?thesis
      using p head less.prems(2) s(1) more_byte [of ?w]
      by (simp add: uleb_loop.simps [of d end_pos p] enc next_w comm join_groups)
  qed
qed

subsection \<open>Properties\<close>

text \<open>
  C18. The loader never reads outside the file and never writes outside the RAM: whatever bytes the
  input holds, whatever the RAM size and whichever allocations fail, no access of the header,
  section, attribute, segment or copy code is out of bounds.
\<close>

theorem elf_no_bad_access:
  "program_read_elf alloc ram_ok input ram_size output \<noteq> Bad_Access"
proof -
  have "safe (program_read_elf alloc ram_ok input ram_size output)"
    unfolding program_read_elf_def
    by (intro safety) (auto simp: elf_owner_def [symmetric] load_elf_safe split: sum.split)
  then show ?thesis by (simp add: safe_def)
qed

text \<open>A file with one segment of four bytes, the environment call, and four more bytes of zero.\<close>

definition sample_file :: "u8 list" where
  "sample_file =
    [0x7F, 0x45, 0x4C, 0x46, 1, 1, 1, 0, 0, 0, 0, 0, 0, 0, 0, 0,
     2, 0, 243, 0, 1, 0, 0, 0, 0, 0, 0, 0, 52, 0, 0, 0,
     0, 0, 0, 0, 0, 0, 0, 0, 52, 0, 32, 0, 1, 0, 0, 0, 0, 0, 0, 0,
     1, 0, 0, 0, 84, 0, 0, 0, 0, 0, 0, 0, 0, 0, 0, 0,
     4, 0, 0, 0, 8, 0, 0, 0, 5, 0, 0, 0, 4, 0, 0, 0,
     0x73, 0, 0, 0]"

lemma sample_segments:
  "segments_of sample_file = [\<lparr>p_type = 1, p_offset = 84, p_vaddr = 0, p_paddr = 0, p_filesz = 4, p_memsz = 8,
     p_flags = 5, p_align = 4\<rparr>]"
  by (simp add: segments_of_def sample_file_def u32_at_def u16_at_def segment_at_def ELF_PH_SIZE_def)

lemma sample_ok: "elf_ok sample_file 64"
proof -
  have "header_ok sample_file"
    by (simp add: header_ok_def sample_file_def u32_at_def u16_at_def ELF_PH_SIZE_def ELF_HEADER_SIZE_def
        ELF_MAX_SEGMENTS_def elf_identity_def)
  moreover have "sections_ok sample_file"
    by (simp add: sections_ok_def sample_file_def u32_at_def u16_at_def)
  moreover have "u32_at sample_file 24 = 0" "length sample_file = 88" by (simp_all add: sample_file_def u32_at_def)
  ultimately show ?thesis
    by (simp add: elf_ok_def sample_segments segments_ok_def segment_ok_def segment_end_def holds_entry_def loadable_def)
qed

lemma sample_size_ok: "memory_size_valid 64" "length sample_file \<le> ELF_FILE_LIMIT"
  by (simp_all add: memory_size_valid_def size_simps ELF_FILE_LIMIT_def sample_file_def)

text \<open>
  The same program with build attributes (version A, vendor \<open>riscv\<close>, the scope of the file,
  architecture \<open>rv32i2p1\<close>, stack alignment 16, no unaligned accesses) and a table of two section
  headers, the empty one and that of the attributes. The argument is the second byte of the flags of
  the attributes' section; bit 2 of it stands for thread-local storage.
\<close>

definition sample_attributes :: "u8 list" where
  "sample_attributes = of_char CHR ''A'' #
     [29, 0, 0, 0] @ chars ''riscv'' @ [0] @
       ([1] @ [19, 0, 0, 0] @ ([5] @ chars ''rv32i2p1'' @ [0]) @ ([4] @ [16]) @ ([6] @ [0]) @ []) @ []"

definition sectioned_file :: "u8 \<Rightarrow> u8 list" where
  "sectioned_file flag_byte =
    take 32 sample_file @ [120, 0, 0, 0, 0, 0, 0, 0, 52, 0, 32, 0, 1, 0, 40, 0, 2, 0, 0, 0] @ drop 52 sample_file
      @ sample_attributes @ [0, 0] @ replicate 40 0
      @ [0, 0, 0, 0, 3, 0, 0, 0x70, 0, flag_byte, 0, 0, 0, 0, 0, 0, 88, 0, 0, 0, 30, 0, 0, 0] @ replicate 16 0"

lemma sectioned_bytes:
  "sectioned_file flag_byte =
    [0x7F, 0x45, 0x4C, 0x46, 1, 1, 1, 0, 0, 0, 0, 0, 0, 0, 0, 0,
     2, 0, 243, 0, 1, 0, 0, 0, 0, 0, 0, 0, 52, 0, 0, 0,
     120, 0, 0, 0, 0, 0, 0, 0, 52, 0, 32, 0, 1, 0, 40, 0, 2, 0, 0, 0,
     1, 0, 0, 0, 84, 0, 0, 0, 0, 0, 0, 0, 0, 0, 0, 0,
     4, 0, 0, 0, 8, 0, 0, 0, 5, 0, 0, 0, 4, 0, 0, 0,
     0x73, 0, 0, 0,
     65, 29, 0, 0, 0, 114, 105, 115, 99, 118, 0, 1, 19, 0, 0, 0,
     5, 114, 118, 51, 50, 105, 50, 112, 49, 0, 4, 16, 6, 0, 0, 0,
     0, 0, 0, 0, 0, 0, 0, 0, 0, 0, 0, 0, 0, 0, 0, 0, 0, 0, 0, 0,
     0, 0, 0, 0, 0, 0, 0, 0, 0, 0, 0, 0, 0, 0, 0, 0, 0, 0, 0, 0,
     0, 0, 0, 0, 3, 0, 0, 0x70, 0, flag_byte, 0, 0, 0, 0, 0, 0, 88, 0, 0, 0, 30, 0, 0, 0,
     0, 0, 0, 0, 0, 0, 0, 0, 0, 0, 0, 0, 0, 0, 0, 0]"
  by (simp add: sectioned_file_def sample_file_def sample_attributes_def numeral_eq_Suc)

lemma sample_attributes_ok: "attributes_ok sample_attributes"
proof -
  let ?as = "([5] @ chars ''rv32i2p1'' @ [0]) @ ([4] @ [16]) @ ([6] @ [0]) @ []"
  let ?scopes = "([1] @ [19, 0, 0, 0] @ ?as) @ []"
  let ?vendors = "([29, 0, 0, 0] @ chars ''riscv'' @ [0] @ ?scopes) @ []"
  note numerals = numeral_of_def groups_def
  have "attribute_item ([5] @ chars ''rv32i2p1'' @ [0])"
    by (rule text_item [of _ 5]) (simp_all add: numerals)
  moreover have "attribute_item ([4] @ [16])" by (rule number_item [of _ 4 _ 16]) (simp_all add: numerals)
  moreover have "attribute_item ([6] @ [0])" by (rule number_item [of _ 6 _ 0]) (simp_all add: numerals)
  ultimately have "sequence_of attribute_item ?as" by (intro an_item no_item)
  then have "scope_item ([1] @ [19, 0, 0, 0] @ ?as)"
    by (rule file_scope [rotated 3]) (simp_all add: numerals u32_at_def)
  then have "sequence_of scope_item ?scopes" by (intro an_item no_item)
  then have "vendor_item ([29, 0, 0, 0] @ chars ''riscv'' @ [0] @ ?scopes)"
    by (intro a_vendor impI) (simp_all add: u32_at_def)
  then have "sequence_of vendor_item ?vendors" by (intro an_item no_item)
  then show ?thesis by (simp add: attributes_ok_def sample_attributes_def)
qed

lemma sectioned_sections:
  "sections_of (sectioned_file b) =
    [\<lparr>s_type = 0, s_flags = 0, s_offset = 0, s_size = 0\<rparr>,
     \<lparr>s_type = 0x70000003, s_flags = push_bit 8 (ucast b), s_offset = 88, s_size = 30\<rparr>]"
  by (simp add: sections_of_def section_at_def u32_at_def u16_at_def sectioned_bytes upt_rec)

lemma sectioned_sections_ok: "sections_ok (sectioned_file 0)" "\<not> sections_ok (sectioned_file 4)"
proof -
  have bytes: "take 30 (drop 88 (sectioned_file b)) = sample_attributes" for b
    by (simp add: sectioned_bytes sample_attributes_def numeral_eq_Suc)
  have bit: "bit (1024 :: u32) 10" using bit_exp_iff [of 10 10, where ?'a = u32] by simp
  show "sections_ok (sectioned_file 0)"
    using sample_attributes_ok
    by (simp add: sections_ok_def sectioned_sections section_ok_def section_bytes_def bytes)
      (simp add: sectioned_bytes u32_at_def u16_at_def)
  show "\<not> sections_ok (sectioned_file 4)"
    using bit by (simp add: sections_ok_def sectioned_sections section_ok_def)
      (simp add: sectioned_bytes u32_at_def u16_at_def)
qed

lemma sectioned_segments:
  "segments_of (sectioned_file b) = [\<lparr>p_type = 1, p_offset = 84, p_vaddr = 0, p_paddr = 0, p_filesz = 4, p_memsz = 8,
     p_flags = 5, p_align = 4\<rparr>]"
  by (simp add: segments_of_def sectioned_bytes u32_at_def u16_at_def segment_at_def)

lemma sectioned_ok: "elf_ok (sectioned_file 0) 64" "\<not> elf_ok (sectioned_file 4) 64"
proof -
  have "header_ok (sectioned_file 0)"
    by (simp add: header_ok_def sectioned_bytes u32_at_def u16_at_def)
  moreover have "u32_at (sectioned_file 0) 24 = 0" "length (sectioned_file 0) = 200"
    by (simp_all add: sectioned_bytes u32_at_def)
  ultimately show "elf_ok (sectioned_file 0) 64"
    using sectioned_sections_ok(1)
    by (simp add: elf_ok_def sectioned_segments segments_ok_def segment_ok_def segment_end_def holds_entry_def loadable_def)
  show "\<not> elf_ok (sectioned_file 4) 64" using sectioned_sections_ok(2) by (simp add: elf_ok_def)
qed

text \<open>
  C19. What the loader accepts, exactly. When allocations succeed, it loads a file if and only if the
  RAM size is a multiple of four from 4 bytes to 256 MiB, the file is read without error and has at
  most 64 MiB, the header describes a static RV32I executable, the section headers and the build
  attributes are as \<open>Elf_Format\<close> asks (no thread-local storage, sections inside the file, attributes
  that follow the grammar and ask for nothing beyond RV32I, a stack alignment of 16 and aligned
  accesses), every loadable segment lies in the file and in RAM, properly aligned and apart from the
  others, and the entry is an aligned instruction in the file-backed part of an executable segment;
  and then the program is the one the segments describe.
\<close>

theorem elf_loads_exact:
  assumes "\<And>n. alloc n"
  shows "program_read_elf alloc True (Ref f) ram_size (Ref out) = Done p \<longleftrightarrow>
    4 \<le> ram_size \<and> ram_size \<le> 256 * 1024 * 1024 \<and> ram_size mod 4 = 0
    \<and> length (bytes_left f) \<le> 64 * 1024 * 1024 \<and> \<not> read_fails f
    \<and> elf_ok (bytes_left f) ram_size \<and> p = elf_program (bytes_left f) ram_size"
proof -
  have "memory_size_valid ram_size \<longleftrightarrow> 4 \<le> ram_size \<and> ram_size \<le> 256 * 1024 * 1024 \<and> ram_size mod 4 = 0"
    by (simp add: memory_size_valid_def size_simps)
  moreover have "ELF_FILE_LIMIT = 64 * 1024 * 1024" by (simp add: ELF_FILE_LIMIT_def size_simps)
  ultimately show ?thesis using program_read_elf_iff [OF assms, where f = f and p = p] by simp
qed

text \<open>The file with attributes is loaded; with thread-local storage in its flags it is not.\<close>

theorem elf_loads_exact_witness:
  "program_read_elf (\<lambda>_. True) True (Ref \<lparr>bytes_left = sectioned_file 0, read_fails = False\<rparr>) 64 (Ref zero_program)
    = Done (elf_program (sectioned_file 0) 64) \<and>
   (\<nexists>p. program_read_elf (\<lambda>_. True) True (Ref \<lparr>bytes_left = sectioned_file 4, read_fails = False\<rparr>) 64 (Ref zero_program)
    = Done p)"
proof -
  have "length (sectioned_file 0) \<le> 64 * 1024 * 1024" by (simp add: sectioned_bytes)
  then show ?thesis
    using sectioned_ok
      elf_loads_exact [of "\<lambda>_. True" "\<lparr>bytes_left = sectioned_file 0, read_fails = False\<rparr>" 64 zero_program
        "elf_program (sectioned_file 0) 64"]
      elf_loads_exact [of "\<lambda>_. True" "\<lparr>bytes_left = sectioned_file 4, read_fails = False\<rparr>" 64 zero_program]
    by simp
qed

text \<open>A byte that a segment holds: no other segment holds it, since loadable segments do not overlap.\<close>

lemma elf_byte_backed:
  assumes "segments_ok (length d) ram_size ss" "s \<in> set ss" "backs a s"
  shows "elf_byte d ss a = d ! (unat (p_offset s) + (a - unat (p_vaddr s)))"
proof -
  have segs: "segment_ok (length d) ram_size t" if "t \<in> set ss" for t
    using assms(1) that by (auto simp: segments_ok_def list_all_iff)
  have one: "s = t" if t: "t \<in> set ss" "backs a t" for t
  proof (rule ccontr)
    assume "s \<noteq> t"
    with assms(2) t(1) obtain i j where ij: "i < length ss" "j < length ss" "ss ! i = s" "ss ! j = t" "i \<noteq> j"
      by (auto simp: in_set_conv_nth)
    have "sorted_wrt apart ss" using assms(1) by (simp add: segments_ok_def)
    then have "apart s t \<or> apart t s"
      using ij by (cases "i < j") (auto simp: sorted_wrt_iff_nth_less)
    with backs_loadable [OF segs [OF assms(2)] assms(3)] backs_loadable [OF segs [OF t(1)] t(2)]
    show False by (auto simp: apart_def)
  qed
  show ?thesis
  proof (cases "find (backs a) ss")
    case None
    with assms(2,3) show ?thesis by (auto simp: find_None_iff)
  next
    case (Some t)
    then have "t \<in> set ss" "backs a t" by (auto simp: find_Some_iff)
    with one Some show ?thesis by (simp add: elf_byte_def)
  qed
qed

text \<open>
  C20. The image in RAM. A program that was loaded is well formed, also when other allocations
  failed; its RAM holds the bytes of every loadable segment at the segment's address and zero
  elsewhere, and its entry lies in the file-backed part of an executable segment.
\<close>

theorem elf_image_exact:
  assumes "program_read_elf alloc ram_ok (Ref f) ram_size (Ref out) = Done p"
  shows "program_wf p \<and> mem_size (prog_memory p) = ram_size \<and>
    (\<forall>s\<in>set (segments_of (bytes_left f)). p_type s = 1 \<longrightarrow> (\<forall>k<unat (p_filesz s).
       bytes_of (prog_memory p) ! (unat (p_vaddr s) + k) = bytes_left f ! (unat (p_offset s) + k))) \<and>
    (\<forall>a<ram_size. (\<forall>s\<in>set (segments_of (bytes_left f)). \<not> backs a s) \<longrightarrow> bytes_of (prog_memory p) ! a = 0) \<and>
    (\<exists>s\<in>set (segments_of (bytes_left f)). holds_entry (entry p) s)"
proof -
  let ?d = "bytes_left f" and ?ss = "segments_of (bytes_left f)"
  from program_read_elf_Done [OF assms] have ok: "memory_size_valid ram_size" "elf_ok ?d ram_size"
    and p: "p = elf_program ?d ram_size"
    by (simp_all add: program_read_elf_iff)
  then have segs: "segments_ok (length ?d) ram_size ?ss" by (simp add: elf_ok_def)
  have ram: "bytes_of (prog_memory p) ! a = elf_byte ?d ?ss a" if "a < ram_size" for a
    using that by (simp add: p elf_program_def)
  have "bytes_of (prog_memory p) ! (unat (p_vaddr s) + k) = ?d ! (unat (p_offset s) + k)"
    if s: "s \<in> set ?ss" "p_type s = 1" "k < unat (p_filesz s)" for s k
  proof -
    have b: "backs (unat (p_vaddr s) + k) s" using s by (simp add: backs_def)
    have "segment_ok (length ?d) ram_size s" using segs s(1) by (auto simp: segments_ok_def list_all_iff)
    note backs_loadable [OF this b]
    then have "unat (p_vaddr s) + k < ram_size" by linarith
    with elf_byte_backed [OF segs s(1) b] show ?thesis by (simp add: ram)
  qed
  moreover have "bytes_of (prog_memory p) ! a = 0" if "a < ram_size" "\<forall>s\<in>set ?ss. \<not> backs a s" for a
  proof -
    have "find (backs a) ?ss = None" using that(2) by (simp add: find_None_iff)
    then show ?thesis by (simp add: ram [OF that(1)] elf_byte_def)
  qed
  moreover have "\<exists>s\<in>set ?ss. holds_entry (entry p) s"
    using ok(2) by (simp add: elf_ok_def p elf_program_def)
  moreover have "program_wf p" using elf_program_wf [OF ok(2,1)] by (simp add: p)
  ultimately show ?thesis by (simp add: p elf_program_def)
qed

lemma sample_loads:
  "program_read_elf (\<lambda>_. True) True (Ref \<lparr>bytes_left = sample_file, read_fails = False\<rparr>) 64 (Ref zero_program)
    = Done (elf_program sample_file 64)"
  using program_read_elf_iff [of "\<lambda>_. True"] sample_ok sample_size_ok by simp

theorem elf_image_exact_witness:
  "program_wf (elf_program sample_file 64) \<and> bytes_of (prog_memory (elf_program sample_file 64)) ! 0 = 0x73 \<and>
   bytes_of (prog_memory (elf_program sample_file 64)) ! 63 = 0"
  using elf_image_exact [OF sample_loads]
  by (simp add: sample_segments backs_def) (simp add: sample_file_def elf_program_def)

text \<open>
  C36. Variable-length numbers round-trip: reading the encoding of any 32-bit number, at any place
  of the file and before any end that holds it, gives the number and the position after it.
\<close>

theorem uleb_roundtrip:
  assumes "end_pos \<le> length d" "p + length (uleb_encode v) \<le> end_pos"
    and "take (length (uleb_encode v)) (drop p d) = uleb_encode v"
  shows "uleb d p end_pos = Done (Some (v, p + length (uleb_encode v)))"
  using uleb_loop_encoded [of 0 end_pos d p v] assms by (simp add: uleb_def)

theorem uleb_roundtrip_witness:
  "uleb [7, 0xAC, 0x02] 1 3 = Done (Some (300, 3))"
proof -
  have "uleb_encode 300 = [0xAC, 0x02]" by (simp add: uleb_encode.simps)
  then show ?thesis using uleb_roundtrip [of 3 "[7, 0xAC, 0x02]" 1 300] by simp
qed

end
