(* ===== verification/Command_Line.thy ===== *)
theory Command_Line
  imports Session Elf
begin

section \<open>The command line\<close>

text \<open>
  The model of \<^verbatim>\<open>usage\<close> and \<^verbatim>\<open>monitor_main\<close> of \<^verbatim>\<open>src/monitor.c\<close>: options, loading, and a run in
  batch mode or a session. Everything outside is a field of an environment. The result is the exit
  status with what was written to the two output streams.
\<close>

subsection \<open>Options\<close>

definition usage :: string where
  "usage = text_block
    [''RISC-V Studio - RV32I teaching monitor'',
     ''Usage: riscv32-studio (--program FILE | --elf FILE | --bin FILE) [options]'',
     ''  --program FILE     Text words: one 32-bit hex word per line, # comments'',
     ''  --elf FILE         ELF32 RV32I/ILP32 executable, symbols, and DWARF source mapping'',
     ''  --bin FILE         Raw bytes; requires --load-address AND --entry'',
     ''  --ram SIZE         RAM size with B, KiB, or MiB suffix (default: 64KiB)'',
     ''                     Range: 4B through 256MiB, multiples of 4 bytes'',
     ''  --run              Run in batch mode; otherwise open the monitor'',
     ''  --trace            Show each instruction and its effects'',
     ''  --max-steps N      Maximum attempts per run (default: 100000)'',
     ''  --load-address N   First instruction address (default: 0)'',
     ''  --entry N          Initial PC (default: load address)'',
     ''  --color            Highlight changes with ANSI colors'',
     ''  --no-color         Disable colors (automatic on terminals by default)'',
     ''  --help             Show this help'',
     ''Numbers are decimal or 0x-prefixed hexadecimal; negative values are invalid.'',
     ''RAM requires an explicit case-sensitive unit, e.g. 65536B, 64KiB, or 1MiB.'',
     ''Commands: step [N], run [N], stop, reset, regs, mem ADDRESS [BYTES],'',
     ''          disasm ADDRESS [COUNT], where [ADDRESS], sources, source [LINE] [FILE_INDEX],'',
     ''          symbols [NAME], help [formats|runtime|source|MNEMONIC], quit'',
     ''Ctrl-C interrupts execution at an instruction boundary.'',
     ''Environment: a7=93 + ECALL exits with a0. EBREAK pauses at its instruction.'',
     ''Batch status: exit a0 & 255; trap=1; input error=2; limit=124; Ctrl-C=130.'',
     ''Examples:'',
     ''  ./build/debug/riscv32-studio --program demos/sum.words --run --trace'',
     ''  ./build/debug/riscv32-studio --program demos/call.words --ram 1MiB'',
     ''Guide and flowcharts: docs/HELP.md, docs/FLOWCHARTS.md'']"

record options =
  opt_path :: "string ptr"
  opt_format :: ProgramFormat
  opt_load_address :: u64
  opt_entry :: u64
  opt_limit :: u64
  opt_ram_size :: nat
  opt_entry_set :: bool
  opt_address_set :: bool
  opt_run_batch :: bool
  opt_trace :: bool
  opt_color :: bool

definition default_options :: "bool \<Rightarrow> options" where
  "default_options terminal = \<lparr>opt_path = NULL, opt_format = PROGRAM_WORDS, opt_load_address = 0, opt_entry = 0,
     opt_limit = DEFAULT_LIMIT, opt_ram_size = MEMORY_DEFAULT_SIZE, opt_entry_set = False,
     opt_address_set = False, opt_run_batch = False, opt_trace = False, opt_color = terminal\<rparr>"

text \<open>An exit status with the texts written to the standard and the error output.\<close>

type_synonym exit = "int \<times> string \<times> string"

definition fails_with :: "string \<Rightarrow> exit" where
  "fails_with message = (2, '''', text_line message)"

definition value_options :: "string list" where
  "value_options = [''--program'', ''--elf'', ''--bin'', ''--max-steps'', ''--load-address'', ''--entry'', ''--ram'']"

text \<open>An option with its value.\<close>

definition option_value :: "string \<Rightarrow> string \<Rightarrow> options \<Rightarrow> exit + options" where
  "option_value opt v opts =
     (if opt = ''--program'' \<or> opt = ''--elf'' \<or> opt = ''--bin''
      then
        if opt_path opts \<noteq> NULL then Inl (fails_with ''Choose exactly one input: --program, --elf, or --bin.'')
        else Inr (opts\<lparr>opt_path := Ref v, opt_format :=
               (if opt = ''--elf'' then PROGRAM_ELF else if opt = ''--bin'' then PROGRAM_BINARY else PROGRAM_WORDS)\<rparr>)
      else if opt = ''--ram''
      then
       (case parse_ram_size v of
          None \<Rightarrow> Inl (fails_with ''Invalid RAM size. Use B, KiB, or MiB; 4B through 256MiB in multiples of 4.'')
        | Some n \<Rightarrow> Inr (opts\<lparr>opt_ram_size := n\<rparr>))
      else
       (case number (Ref v) (if opt = ''--max-steps'' then - 1 else 0xFFFFFFFF) of
          None \<Rightarrow> Inl (fails_with (''Invalid number for '' @ opt @ '': '' @ v))
        | Some n \<Rightarrow>
            if opt = ''--max-steps''
            then if n = 0 then Inl (fails_with ''Instruction limit must be positive.'') else Inr (opts\<lparr>opt_limit := n\<rparr>)
            else if opt = ''--load-address'' then Inr (opts\<lparr>opt_load_address := n, opt_address_set := True\<rparr>)
            else Inr (opts\<lparr>opt_entry := n, opt_entry_set := True\<rparr>)))"

text \<open>The loop over the arguments after the name of the program.\<close>

fun parse_options :: "string list \<Rightarrow> options \<Rightarrow> exit + options" where
  "parse_options [] opts = Inr opts"
| "parse_options (opt # args) opts =
     (if opt = ''--help'' then Inl (0, usage, '''')
      else if opt = ''--run'' then parse_options args (opts\<lparr>opt_run_batch := True\<rparr>)
      else if opt = ''--trace'' then parse_options args (opts\<lparr>opt_trace := True\<rparr>)
      else if opt = ''--color'' then parse_options args (opts\<lparr>opt_color := True\<rparr>)
      else if opt = ''--no-color'' then parse_options args (opts\<lparr>opt_color := False\<rparr>)
      else if opt \<in> set value_options
      then case args of
          [] \<Rightarrow> Inl (fails_with (''Missing value for '' @ opt @ ''.''))
        | v # args \<Rightarrow>
           (case option_value opt v opts of Inl e \<Rightarrow> Inl e | Inr opts \<Rightarrow> parse_options args opts)
      else Inl (fails_with (''Unknown option: '' @ opt)))"

text \<open>The checks after the loop, with the input path.\<close>

definition check_options :: "options \<Rightarrow> exit + (string \<times> options)" where
  "check_options opts =
     (case opt_path opts of
        NULL \<Rightarrow> Inl (2, '''', usage)
      | Ref path \<Rightarrow>
          if opt_format opts = PROGRAM_BINARY \<and> (\<not> opt_address_set opts \<or> \<not> opt_entry_set opts)
          then Inl (fails_with ''Raw binary requires both --load-address and --entry.'')
          else if opt_format opts = PROGRAM_ELF \<and> (opt_address_set opts \<or> opt_entry_set opts)
          then Inl (fails_with ''ELF supplies its load addresses and entry; address overrides are unsupported.'')
          else Inr (path, if opt_entry_set opts then opts else opts\<lparr>opt_entry := opt_load_address opts\<rparr>))"

subsection \<open>The program\<close>

text \<open>
  What the program meets outside: whether its output is a terminal, the files (or the reason why one
  cannot be opened), whether closing fails, which allocations succeed, the libraries of the debug
  information, whether the signal handler can be installed, and what a session reads.
\<close>

record 'cu environment =
  output_is_terminal :: bool
  open_file :: "string \<Rightarrow> string + infile"
  close_fails :: bool
  allocates :: "nat \<Rightarrow> bool"
  allocates_ram :: bool
  allocates_copies :: "bool \<times> bool"
  line_sorter :: "DebugLine sorter"
  symbol_sorter :: "DebugSymbol sorter"
  elf_library :: "bool \<times> (u8 list \<Rightarrow> 'cu elf_file ptr)"
  handler_fails :: bool
  outside_signals :: "bool list"
  outside_restart :: bool
  outside_input :: string
  outside_input_fails :: bool
  outside_sources :: sources

text \<open>
  The loader that the format selects. The outcome for an access outside the file has to be something;
  theory Elf shows that it does not occur.
\<close>

definition load_input :: "'cu environment \<Rightarrow> options \<Rightarrow> infile \<Rightarrow> program loaded" where
  "load_input env opts input =
     (if opt_format opts = PROGRAM_ELF
      then case program_read_elf (allocates env) (allocates_ram env) (Ref input) (opt_ram_size opts) (Ref zero_program) of
          Done p \<Rightarrow> Inr p
        | Fail e \<Rightarrow> Inl e
        | Bad_Access \<Rightarrow> program_error 0 ''access outside the file''
      else if opt_format opts = PROGRAM_BINARY
      then program_read_binary (allocates env) (allocates_ram env) (Ref input) (opt_ram_size opts)
        (ucast (opt_load_address opts)) (ucast (opt_entry opts)) (Ref zero_program)
      else program_read_words (allocates_ram env) (Ref input) (opt_ram_size opts)
        (ucast (opt_load_address opts)) (ucast (opt_entry opts)) (Ref zero_program))"

definition initial_session :: "'cu environment \<Rightarrow> options \<Rightarrow> DebugInfo \<Rightarrow> session" where
  "initial_session env opts debug =
     \<lparr>monitor_debug = debug, last_source = NULL, source_seen = False, run_limit = opt_limit opts,
      tracing = opt_trace opts, coloring = opt_color opts, has_record = False, last_step = zero_record,
      interrupted = False, signals = outside_signals env, reads_restart = outside_restart env,
      terminal_input = outside_input env, input_fails = outside_input_fails env,
      source_files = outside_sources env, written = ''''\<rparr>"

text \<open>The run in batch mode or the session, on a loaded machine.\<close>

definition monitor_run :: "'cu environment \<Rightarrow> options \<Rightarrow> DebugInfo \<Rightarrow> machine \<Rightarrow> exit" where
  "monitor_run env opts debug m =
     (let w = initial_session env opts debug in
      if handler_fails env then fails_with ''Cannot install interrupt handler.''
      else if opt_run_batch opts
      then case machine_run (Ref m) (opt_limit opts) (Ref stop_requested) (Ref trace_step) w of (run, m, w) \<Rightarrow>
        (batch_status (run_reason run) (m_exit_code (the m)), written (emit (report_stop run (the m)) w), '''')
      else case interactive m w of (status, _, w) \<Rightarrow> (status, written w, ''''))"

definition monitor_load :: "'cu environment \<Rightarrow> options \<Rightarrow> string \<Rightarrow> infile \<Rightarrow> exit" where
  "monitor_load env opts path input =
     (case load_input env opts input of
        Inl e \<Rightarrow> fails_with (path @ '':'' @ dec (error_line e) @ '': '' @ error_message e)
      | Inr p \<Rightarrow>
          if close_fails env then fails_with (path @ '':0: input close error'')
          else
         (case debug_info_read (allocates env) (line_sorter env) (symbol_sorter env) (fst (elf_library env))
             (snd (elf_library env)) (Ref p) (Ref zero_debug) of
            Inl debug_error \<Rightarrow> fails_with (path @ '': '' @ debug_error)
          | Inr debug \<Rightarrow>
             (case machine_load (Ref (machine_init zero_machine)) (Ref p) (fst (allocates_copies env))
                 (snd (allocates_copies env)) of
                None \<Rightarrow> fails_with ''Cannot create machine state from the program image.''
              | Some m \<Rightarrow> monitor_run env opts debug m)))"

definition monitor_main :: "'cu environment \<Rightarrow> string list \<Rightarrow> exit" where
  "monitor_main env args =
     (case parse_options args (default_options (output_is_terminal env)) of Inl e \<Rightarrow> e
      | Inr opts \<Rightarrow>
     (case check_options opts of Inl e \<Rightarrow> e
      | Inr (path, opts) \<Rightarrow>
     (case open_file env path of
        Inl reason \<Rightarrow> fails_with (''Cannot open '' @ path @ '': '' @ reason)
      | Inr input \<Rightarrow> monitor_load env opts path input)))"

text \<open>The whole program, in \<^verbatim>\<open>src/main.c\<close>.\<close>

definition main :: "'cu environment \<Rightarrow> string list \<Rightarrow> exit" where
  "main env args = monitor_main env args"

subsection \<open>What main returns\<close>

lemma load_input_wf: "load_input env opts f = Inr p \<Longrightarrow> program_wf p"
  by (auto simp: load_input_def program_error_def split: if_splits parse.splits
      intro: elf_loader.loads_wf binary_loader.loads_wf words_loader.loads_wf)

text \<open>
  A result of the program: a status of a process, and text on the error output only with status 2 and
  nothing on the standard output.
\<close>

definition proper :: "exit \<Rightarrow> bool" where
  "proper r \<longleftrightarrow> (case r of (status, out, err) \<Rightarrow>
     0 \<le> status \<and> status \<le> 255 \<and> (err \<noteq> '''' \<longrightarrow> status = 2 \<and> out = ''''))"

lemma proper_fails [simp]: "proper (fails_with message)" "proper (2, '''', err)"
  by (simp_all add: proper_def fails_with_def)

lemma proper_output: "0 \<le> status \<Longrightarrow> status \<le> 255 \<Longrightarrow> proper (status, out, '''')"
  by (simp add: proper_def)

lemma proper_option_value: "option_value opt v opts = Inl e \<Longrightarrow> proper e"
  by (auto simp: option_value_def split: if_splits option.splits)

lemma proper_parse: "parse_options args opts = Inl e \<Longrightarrow> proper e"
  by (induction args opts rule: parse_options.induct)
    (auto simp: proper_output dest: proper_option_value split: if_splits list.splits sum.splits)

lemma proper_check: "check_options opts = Inl e \<Longrightarrow> proper e"
  by (auto simp: check_options_def split: option.splits if_splits)

lemma batch_status_range: "0 \<le> batch_status reason c \<and> batch_status reason c \<le> 255"
proof -
  have "uint c mod 256 < 256" by (rule pos_mod_bound) simp
  then have "uint c mod 256 \<le> 255" by linarith
  then show ?thesis by (simp add: batch_status_def uint_and_255)
qed

lemma proper_run: "proper (monitor_run env opts debug m)"
proof -
  have session: "0 \<le> status \<and> status \<le> 255" if "interactive m w = (status, m', w')" for status m' w w'
    using interactive_loop_reach that by (fastforce simp: interactive_def split: if_splits)
  then show ?thesis
    using batch_status_range by (auto simp: monitor_run_def Let_def split: prod.split intro!: proper_output)
qed

lemma proper_load: "proper (monitor_load env opts path f)"
  using proper_run by (auto simp: monitor_load_def split: sum.split option.split)

text \<open>
  C34. Whatever the arguments and the environment, the program returns a status between 0 and 255, the
  range of a process. It writes to the error output only when it fails before it runs anything, and
  then the status is 2 and the standard output is empty.
\<close>

theorem main_status:
  assumes "monitor_main env args = (status, out, err)"
  shows "0 \<le> status \<and> status \<le> 255 \<and> (err \<noteq> '''' \<longrightarrow> status = 2 \<and> out = '''')"
proof -
  have "proper (monitor_main env args)"
    unfolding monitor_main_def
    using proper_parse proper_check proper_load
    by (auto split: sum.split prod.split)
  with assms show ?thesis by (simp add: proper_def)
qed

text \<open>An environment with one raw binary file, the exit program.\<close>

definition exit_file :: infile where
  "exit_file = \<lparr>bytes_left = bytes32 0x05D00893 @ bytes32 0x73, read_fails = False\<rparr>"

definition sample_environment :: "unit environment" where
  "sample_environment = \<lparr>output_is_terminal = False,
     open_file = (\<lambda>path. if path = ''exit.bin'' then Inr exit_file else Inl ''No such file or directory''),
     close_fails = False, allocates = (\<lambda>_. True), allocates_ram = True, allocates_copies = (True, True),
     line_sorter = insertion_sort, symbol_sorter = insertion_sort, elf_library = (False, \<lambda>_. NULL),
     handler_fails = False, outside_signals = [], outside_restart = False, outside_input = '''',
     outside_input_fails = False, outside_sources = (\<lambda>_. Inl '''')\<rparr>"

theorem main_status_witness:
  "\<exists>err. monitor_main sample_environment [''--program''] = (2, '''', err) \<and> err \<noteq> ''''"
proof -
  have "monitor_main sample_environment [''--program''] = fails_with ''Missing value for --program.''"
    by (simp add: monitor_main_def value_options_def)
  then obtain err where err: "monitor_main sample_environment [''--program''] = (2, '''', err)" "err \<noteq> ''''"
    by (simp add: fails_with_def text_line_def)
  from main_status [OF err(1)] err show ?thesis by blast
qed

text \<open>
  A batch run reports the program. When the options ask for a batch run, the input file is loaded
  and its debug information read, and no allocation fails, then the program cannot fail any more: the
  machine accepts the input whatever its format, the run starts at its entry with the RAM it
  describes, and the output is the trace and the report of exactly that run, with its status.
\<close>

lemma batch_run_reports:
  assumes "parse_options args (default_options (output_is_terminal env)) = Inr parsed"
    and "check_options parsed = Inr (path, opts)" and "opt_run_batch opts"
    and "open_file env path = Inr f" and "load_input env opts f = Inr p" and "\<not> close_fails env"
    and "debug_info_read (allocates env) (line_sorter env) (symbol_sorter env) (fst (elf_library env))
      (snd (elf_library env)) (Ref p) (Ref zero_debug) = Inr debug"
    and "allocates_copies env = (True, True)" and "\<not> handler_fails env"
  shows "\<exists>run m w. machine_run (Ref (fresh_machine p)) (opt_limit opts) (Ref stop_requested) (Ref trace_step)
        (initial_session env opts debug) = (run, Ref m, w)
    \<and> monitor_main env args = (batch_status (run_reason run) (m_exit_code m), written w @ report_stop run m, '''')"
proof -
  obtain run m' w where run: "machine_run (Ref (fresh_machine p)) (opt_limit opts) (Ref stop_requested)
      (Ref trace_step) (initial_session env opts debug) = (run, m', w)" by (metis prod_cases3)
  from reach.run_keeps [OF rtranclp.rtrancl_refl run] obtain m where m: "m' = Ref m" by blast
  have "program_wf p" using assms(5) by (rule load_input_wf)
  then have "machine_load (Ref (machine_init zero_machine)) (Ref p) True True = Some (fresh_machine p)"
    using machine_load_eq [of p _ True True] by (simp add: program_wf_def)
  then have "monitor_main env args = monitor_run env opts debug (fresh_machine p)"
    using assms by (simp add: monitor_main_def monitor_load_def)
  also have "\<dots> = (batch_status (run_reason run) (m_exit_code m), written w @ report_stop run m, '''')"
    using assms(3,9) run by (simp add: monitor_run_def m emit_def)
  finally show ?thesis using run m by blast
qed

text \<open>The sample options: the raw binary file at address 0, in 8 bytes of RAM, run in batch mode.\<close>

definition sample_args :: "string list" where
  "sample_args = [''--bin'', ''exit.bin'', ''--load-address'', ''0'', ''--entry'', ''0'', ''--ram'', ''8B'', ''--run'']"

definition sample_options :: options where
  "sample_options = (default_options False)\<lparr>opt_path := Ref ''exit.bin'', opt_format := PROGRAM_BINARY,
     opt_ram_size := 8, opt_entry_set := True, opt_address_set := True, opt_run_batch := True\<rparr>"

lemma sample_numbers: "number (Ref ''0'') 0xFFFFFFFF = Some 0" "parse_ram_size ''8B'' = Some 8"
proof -
  have "dec 0 = ''0''" "dec 8 = ''8''" by code_simp+
  then have d: "denotes ''0'' 0" "denotes ''8'' 8" using denotes_dec [of 0] denotes_dec [of 8] by simp_all
  then show "number (Ref ''0'') 0xFFFFFFFF = Some 0" by (simp add: number_denotes)
  have "''8B'' = ''8'' @ ''B''" "unit_of ''B'' = Some 1" "memory_size_valid 8"
    by (simp_all add: unit_of_def memory_size_valid_def size_simps)
  with d(2) show "parse_ram_size ''8B'' = Some 8"
    unfolding parse_ram_size_denotes
    by (intro exI [of _ "''8''"] exI [of _ "''B''"] exI [of _ 1] exI [of _ 8]) simp
qed

lemma sample_parse:
  "parse_options sample_args (default_options False) = Inr sample_options"
  "check_options sample_options = Inr (''exit.bin'', sample_options)"
  by (simp_all add: sample_args_def sample_options_def default_options_def value_options_def option_value_def
      sample_numbers check_options_def)

lemma sample_load:
  "load_input sample_environment sample_options exit_file = Inr (exit_program\<lparr>prog_format := PROGRAM_BINARY\<rparr>)"
proof -
  have "program_read_binary (\<lambda>_. True) True (Ref exit_file) 8 0 0 (Ref zero_program)
      = Inr (image_program PROGRAM_BINARY 8 0 0 (bytes_left exit_file))"
    by (subst program_read_binary_iff)
      (simp_all add: exit_file_def image_fits_def memory_size_valid_def size_simps)
  then show ?thesis
    by (simp add: load_input_def sample_environment_def sample_options_def default_options_def
        exit_program_def exit_file_def image_program_def)
qed

lemma sample_environment_simps:
  "output_is_terminal sample_environment = False" "open_file sample_environment ''exit.bin'' = Inr exit_file"
  "\<not> close_fails sample_environment" "allocates_copies sample_environment = (True, True)"
  "\<not> handler_fails sample_environment" "outside_signals sample_environment = []"
  "opt_run_batch sample_options" "opt_limit sample_options = DEFAULT_LIMIT"
  by (simp_all add: sample_environment_def sample_options_def default_options_def)

lemma sample_debug:
  "debug_info_read (allocates sample_environment) (line_sorter sample_environment) (symbol_sorter sample_environment)
    (fst (elf_library sample_environment)) (snd (elf_library sample_environment))
    (Ref (exit_program\<lparr>prog_format := PROGRAM_BINARY\<rparr>)) (Ref zero_debug) = Inr zero_debug"
  by (simp add: debug_info_read_def zero_debug_def)

end
