(* ===== verification/Execution.thy ===== *)
theory Execution
  imports Command_Line
begin

section \<open>Batch runs and the specification\<close>

text \<open>
  The exit status of a batch run, from the command line down to the instructions. The specification
  in theory Isa gives every state a status for a number of attempts; a run whose callbacks never ask
  it to stop ends with exactly that status. The theory also executes the sample program in the
  specification.
\<close>

subsection \<open>The status of an execution\<close>

text \<open>
  The status for a number of attempts: 124 when they are used up, the low byte of a0 when an
  environment call asks for service 93, and 1 for every other trap.
\<close>

inductive isa_status :: "nat \<Rightarrow> isa_state \<Rightarrow> int \<Rightarrow> bool" where
  status_limit: "isa_status 0 s 124"
| status_exit: "isa_step s (Trap cause_user_ecall v) \<Longrightarrow> get_reg s 17 = 93 \<Longrightarrow>
    isa_status (Suc n) s (uint (get_reg s 10) mod 256)"
| status_trap: "isa_step s (Trap c v) \<Longrightarrow> c \<noteq> cause_user_ecall \<or> get_reg s 17 \<noteq> 93 \<Longrightarrow> isa_status (Suc n) s 1"
| status_next: "isa_step s (Retire s') \<Longrightarrow> isa_status n s' st \<Longrightarrow> isa_status (Suc n) s st"

inductive_cases status_0E: "isa_status 0 s st"
inductive_cases status_SucE: "isa_status (Suc n) s st"

text \<open>Every state has one outcome, and so one status.\<close>

lemma isa_step_determ: "isa_step s a \<Longrightarrow> isa_step s b \<Longrightarrow> b = a"
  by (erule isa_step.cases) (simp_all add: isa_step_misaligned isa_step_no_fetch isa_step_illegal isa_step_execute)

lemma isa_status_determ: "isa_status n s st \<Longrightarrow> isa_status n s st' \<Longrightarrow> st' = st"
proof (induction arbitrary: st' rule: isa_status.induct)
  case (status_limit s)
  then show ?case by (auto elim: status_0E)
next
  case (status_exit s v n)
  then show ?case by (auto elim!: status_SucE dest: isa_step_determ)
next
  case (status_trap s c v n)
  then show ?case by (auto elim!: status_SucE dest: isa_step_determ)
next
  case (status_next s s' n st)
  from status_next.prems show ?case
    by (rule status_SucE) (auto dest: isa_step_determ [OF status_next.hyps(1)] intro: status_next.IH)
qed

subsection \<open>Steps of the machine\<close>

text \<open>An environment call is the only trap with its cause, and an exit is one with 93 in a7.\<close>

lemma ecall_cause:
  assumes "\<not> halted c" "cpu_step_recorded (Ref c) (Ref m) = (res, c', m', r)" "res \<noteq> CPU_STEP_OK"
  shows "cause_number (trap_cause (step_trap r)) = cause_user_ecall \<longleftrightarrow> res = CPU_STEP_ECALL"
  using assms(2)
proof (cases rule: cpu_step_cases)
  case early
  with cpu_step_ok_or_trap [OF assms(1,2)] assms(3) show ?thesis by (cases res) simp_all
next
  case retired
  with assms(3) show ?thesis by simp
qed

lemma machine_step_status:
  assumes "live m" and run: "machine_step (Ref m) = (one, Ref x)"
  shows "run_reason one = MACHINE_EXITED \<Longrightarrow>
      \<exists>v. isa_step (machine_state m) (Trap cause_user_ecall v) \<and> get_reg (machine_state m) 17 = 93
        \<and> m_exit_code x = get_reg (machine_state m) 10"
    and "run_reason one = MACHINE_TRAP \<Longrightarrow>
      \<exists>c v. isa_step (machine_state m) (Trap c v) \<and> (c \<noteq> cause_user_ecall \<or> get_reg (machine_state m) 17 \<noteq> 93)"
proof -
  have regs: "get_reg (machine_state m) 17 = registers (m_cpu m) ! 17"
      "get_reg (machine_state m) 10 = registers (m_cpu m) ! 10"
    by (simp_all add: machine_state_def get_reg_abs register_value_def)
  have m: "m_loaded m" "\<not> m_exited m" using assms(1) by (simp_all add: live_def)
  have go: "\<not> halted (m_cpu (running m))" by (simp add: running_def)
  note sim = machine_step_simulates [OF assms]
  show "\<exists>v. isa_step (machine_state m) (Trap cause_user_ecall v) \<and> get_reg (machine_state m) 17 = 93
        \<and> m_exit_code x = get_reg (machine_state m) 10" if reason: "run_reason one = MACHINE_EXITED"
    using run m
  proof (cases rule: machine_step_cases)
    case (exit r)
    then show ?thesis using sim reason ecall_cause [OF go exit(2)] regs by (auto simp: reported_trap_def)
  qed (use reason in simp_all)
  show "\<exists>c v. isa_step (machine_state m) (Trap c v) \<and> (c \<noteq> cause_user_ecall \<or> get_reg (machine_state m) 17 \<noteq> 93)"
    if reason: "run_reason one = MACHINE_TRAP"
    using run m
  proof (cases rule: machine_step_cases)
    case (trap res r)
    then show ?thesis using sim reason ecall_cause [OF go trap(2)] regs by (auto simp: reported_trap_def)
  qed (use reason in simp_all)
qed

subsection \<open>Runs that are not stopped\<close>

text \<open>Callbacks that keep a property of their context under which they never ask the run to stop.\<close>

locale quiet_callbacks = run_callbacks +
  assumes never_stops: "Q c \<Longrightarrow> \<not> fst (ask_stop ask c)"
begin

lemma loop_status:
  assumes "Q c" "live m" "run_attempts sofar \<le> limit"
    "run_loop limit ask tell (Ref m) c sofar = (r, Ref x, c')"
  shows "isa_status (unat limit - unat (run_attempts sofar)) (machine_state m) (batch_status (run_reason r) (m_exit_code x))"
  using assms
proof (induction limit s \<equiv> ask t \<equiv> tell "Ref m" c sofar arbitrary: m rule: run_loop.induct)
  case (1 limit c0 sofar)
  obtain c1 where ask: "ask_stop ask c0 = (False, c1)"
    using never_stops [OF "1.prems"(1)] by (cases "ask_stop ask c0") simp
  obtain one m1 where step: "machine_step (Ref m) = (one, m1)" by fastforce
  from live_step [OF "1.prems"(2) step] obtain y where
    y: "m1 = Ref y" "run_attempts one = 1" "run_reason one = MACHINE_READY \<Longrightarrow> live y"
    "run_reason one \<in> {MACHINE_READY, MACHINE_EXITED, MACHINE_TRAP}" by metis
  note ends = machine_step_status [OF "1.prems"(2) step [unfolded y(1)]]
  note loop = run_loop.simps [of limit ask tell "Ref m" c0 sofar]
  show ?case
  proof (cases "run_attempts sofar < limit")
    case False
    with "1.prems"(3,4) show ?thesis by (auto simp: loop batch_status_def intro: status_limit)
  next
    case go: True
    let ?next = "sofar\<lparr>run_attempts := run_attempts sofar + run_attempts one,
      run_retired := run_retired sofar + run_retired one, run_last := run_last one\<rparr>"
    have left: "unat limit - unat (run_attempts sofar) = Suc (unat limit - unat (run_attempts ?next))"
      and grow: "run_attempts ?next \<le> limit"
      using go unat_inc [OF go] by (simp_all add: y(2) inc_le word_less_nat_alt)
    show ?thesis
    proof (cases "run_reason one = MACHINE_READY")
      case False
      with "1.prems"(4) ask step y(1) go have "run_reason r = run_reason one" "x = y"
        by (auto simp: loop Let_def)
      with False y(4) ends show ?thesis
        unfolding left
        by (auto simp: batch_status_def uint_and_255 intro: status_exit status_trap)
    next
      case True
      have keep: "Q (tell_trace tell one c1)" using ask_keeps [OF "1.prems"(1)] tell_keeps ask by simp
      have "run_loop limit ask tell (Ref y) (tell_trace tell one c1) ?next = (r, Ref x, c')"
        using "1.prems"(4) ask step y(1) go True by (simp add: loop Let_def)
      with keep have "isa_status (unat limit - unat (run_attempts ?next)) (machine_state y)
          (batch_status (run_reason r) (m_exit_code x))"
        by (intro "1.hyps" [OF go ask [symmetric] _ step [unfolded y(1), symmetric] refl refl _ _ y(3) grow])
          (simp_all add: True)
      then show ?thesis
        using machine_step_simulates [OF "1.prems"(2) step [unfolded y(1)]] True
        unfolding left by (auto simp: isa_retires_def intro: status_next)
    qed
  qed
qed

end

text \<open>The monitor never stops a run when no signal has arrived and none is to come.\<close>

interpretation quiet_session: quiet_callbacks
  "\<lambda>w. \<not> interrupted w \<and> True \<notin> set (signals w)" "Ref stop_requested" "Ref trace_step"
proof unfold_locales
  fix w :: session and one
  assume quiet: "\<not> interrupted w \<and> True \<notin> set (signals w)"
  show "\<not> interrupted (tell_trace (Ref trace_step) one w) \<and> True \<notin> set (signals (tell_trace (Ref trace_step) one w))"
    using quiet by (simp add: tell_trace_def trace_step_def Let_def puts_def emit_def)
  show "\<not> interrupted (snd (ask_stop (Ref stop_requested) w)) \<and> True \<notin> set (signals (snd (ask_stop (Ref stop_requested) w)))"
    "\<not> fst (ask_stop (Ref stop_requested) w)"
    using quiet by (auto simp: ask_stop_def stop_requested_def interrupt_handler_def Let_def split: list.split)
qed

text \<open>The limit of a run is never zero.\<close>

lemma option_value_limit: "option_value opt v opts = Inr opts' \<Longrightarrow> opt_limit opts \<noteq> 0 \<Longrightarrow> opt_limit opts' \<noteq> 0"
  by (auto simp: option_value_def split: if_splits option.splits)

lemma parsed_limit: "parse_options args opts = Inr parsed \<Longrightarrow> opt_limit opts \<noteq> 0 \<Longrightarrow> opt_limit parsed \<noteq> 0"
  by (induction args opts rule: parse_options.induct)
    (auto dest: option_value_limit split: if_splits list.splits sum.splits)

lemma checked_limit: "check_options parsed = Inr (path, opts) \<Longrightarrow> opt_limit opts = opt_limit parsed"
  by (auto simp: check_options_def split: option.splits if_splits)

subsection \<open>Batch runs\<close>

text \<open>The status of an execution that first retires some instructions.\<close>

lemma isa_status_runs: "(isa_retires ^^ n) s t \<Longrightarrow> isa_status k t st \<Longrightarrow> isa_status (n + k) s st"
proof (induction n arbitrary: s)
  case (Suc n)
  from Suc.prems(1) obtain u where u: "isa_retires s u" "(isa_retires ^^ n) u t" by (rule relpowp_Suc_E2)
  from Suc.IH [OF u(2) Suc.prems(2)] u(1) show ?case by (simp add: isa_retires_def status_next)
qed simp

text \<open>The status of a batch run is the one of the specification.\<close>

lemma batch_status_isa:
  assumes "parse_options args (default_options (output_is_terminal env)) = Inr parsed"
    and "check_options parsed = Inr (path, opts)" and "opt_run_batch opts"
    and "open_file env path = Inr f" and "load_input env opts f = Inr p" and "\<not> close_fails env"
    and "debug_info_read (allocates env) (line_sorter env) (symbol_sorter env) (fst (elf_library env))
      (snd (elf_library env)) (Ref p) (Ref zero_debug) = Inr debug"
    and "allocates_copies env = (True, True)" and "\<not> handler_fails env"
    and "True \<notin> set (outside_signals env)"
  shows "(\<exists>out. monitor_main env args = (status, out, '''')) \<longleftrightarrow>
    isa_status (unat (opt_limit opts)) (isa_start p) status"
proof -
  obtain run m w where
    run: "machine_run (Ref (fresh_machine p)) (opt_limit opts) (Ref stop_requested) (Ref trace_step)
        (initial_session env opts debug) = (run, Ref m, w)" and
    main: "monitor_main env args =
        (batch_status (run_reason run) (m_exit_code m), written w @ report_stop run m, '''')"
    using batch_run_reports [OF assms(1-9)] by blast
  have live: "live (fresh_machine p)"
    using machine_wf_fresh [OF load_input_wf [OF assms(5)]] by (simp add: live_def fresh_machine_def zero_machine_def)
  have "opt_limit opts \<noteq> 0"
    using parsed_limit [OF assms(1)] checked_limit [OF assms(2)] by (simp add: default_options_def DEFAULT_LIMIT_def)
  with run live have loop: "run_loop (opt_limit opts) (Ref stop_requested) (Ref trace_step) (Ref (fresh_machine p))
      (initial_session env opts debug) zero_run = (run, Ref m, w)"
    by (simp add: machine_run_def live_def)
  have "isa_status (unat (opt_limit opts)) (isa_start p) (batch_status (run_reason run) (m_exit_code m))"
    using quiet_session.loop_status [OF _ live _ loop] assms(10)
    by (simp add: initial_session_def zero_run_def machine_state_fresh)
  then show ?thesis using main isa_status_determ by auto
qed

subsection \<open>The sample program\<close>

lemma exit_bytes:
  "bytes_of (prog_memory exit_program) = bytes32 0x05D00893 @ bytes32 0x73"
  "mem_size (prog_memory exit_program) = 8"
  by (simp_all add: exit_program_def image_program_def blit_def bytes32_def)

lemma exit_fetches:
  "ram_bytes (ram (isa_start exit_program)) 0 4 = Some (bytes32 0x05D00893)"
  "ram_bytes (ram (isa_start exit_program)) 4 4 = Some (bytes32 0x73)"
  using exit_program_wf by (simp_all add: isa_start_def ram_bytes_of exit_bytes program_wf_def bytes32_def)

lemma exit_status: "isa_status (Suc (Suc n)) (isa_start exit_program) 0"
proof -
  let ?s = "isa_start exit_program" and ?addi = "ImmOp Imm_addi 17 0 93"
  have pc: "pc ?s = 0" by (simp add: isa_start_def exit_program_def image_program_def)
  have first: "isa_step ?s (exec ?addi ?s)"
    by (rule isa_step.execute [where bs = "bytes32 0x05D00893"])
      (simp_all add: pc exit_fetches le_value_bytes pack_i_def pack_def)
  define s where "s = next_pc_state 4 (set_reg 17 93 ?s)"
  have "imm_value 93 = 93" by (simp add: imm_value_def)
  then have s: "exec ?addi ?s = Retire s"
    by (simp add: s_def write_next_def pc get_reg_def)
  have "ram s = ram ?s" "pc s = 4" "get_reg s 17 = 93" "get_reg s 10 = 0"
    by (simp_all add: s_def next_pc_state_def set_reg_def get_reg_def isa_start_def)
  moreover from this have "isa_step s (exec Ecall s)"
    by (intro isa_step.execute [where bs = "bytes32 0x73"]) (simp_all add: exit_fetches le_value_bytes)
  ultimately have "isa_status (Suc n) s (uint (0 :: u32) mod 256)"
    using status_exit [of s 0 n] by simp
  with first show ?thesis unfolding s by (auto intro: status_next)
qed

end
