(* ===== verification/Startup.thy ===== *)
theory Startup
  imports Guest_Code Execution
begin

section \<open>The start-up code of guest programs\<close>

text \<open>
  The model of \<^verbatim>\<open>runtime/start.S\<close> and of what \<^verbatim>\<open>runtime/link.ld.in\<close> says about the symbols it uses, as
  instructions of the specification. The build passes \<^verbatim>\<open>-mno-relax\<close> and \<^verbatim>\<open>--no-relax\<close>, so that \<^verbatim>\<open>la\<close> and \<^verbatim>\<open>call\<close>
  stay the PC-relative pairs of instructions of \<open>Guest_Code\<close>. The theory shows in which state \<^verbatim>\<open>main\<close> is
  called, and that its result is the exit status.
\<close>

subsection \<open>The code\<close>

text \<open>
  The loop at \<^verbatim>\<open>.Lclear\<close> with t0 (register 5) and t1 (register 6); the offsets count halfwords.
\<close>

definition clear_code :: "instr list" where
  "clear_code = [Branch Br_geu 5 6 8, Store St_w 5 0 0, ImmOp Imm_addi 5 5 4, Jal 0 (- 6)]"

text \<open>The symbols that the linker resolves.\<close>

record guest_layout =
  start_address :: u32
  stack_top :: u32
  global_pointer :: u32
  bss_start :: u32
  bss_end :: u32
  main_address :: u32

text \<open>
  What follows the call of \<^verbatim>\<open>main\<close>: the exit service, and a loop that is never reached. Then the whole of
  \<^verbatim>\<open>_start\<close>: sp, gp, t0 and t1 are registers 2, 3, 5 and 6.
\<close>

definition exit_code :: "instr list" where
  "exit_code = [ImmOp Imm_addi 17 0 93, Ecall, Jal 0 0]"

definition start_code :: "guest_layout \<Rightarrow> instr list" where
  "start_code l = load_address_code (start_address l) 2 (stack_top l)
     @ load_address_code (start_address l + 8) 3 (global_pointer l)
     @ load_address_code (start_address l + 16) 5 (bss_start l)
     @ load_address_code (start_address l + 24) 6 (bss_end l)
     @ clear_code
     @ call_code (start_address l + 48) (main_address l)
     @ exit_code"

text \<open>
  What the linker script demands of the symbols, for a RAM and a stack size: the code is first in a
  region that starts at 0x1000, the zero-initialised data follow it, aligned to words, and end below
  the stack, whose top is the end of RAM. Functions are aligned to instructions.
\<close>

definition linked :: "nat \<Rightarrow> nat \<Rightarrow> guest_layout \<Rightarrow> bool" where
  "linked ram_size stack_size l \<longleftrightarrow>
     start_address l = 0x1000 \<and> unat (stack_top l) = ram_size
     \<and> unat (start_address l) + 4 * length (start_code l) \<le> unat (bss_start l)
     \<and> unat (bss_start l) mod 4 = 0 \<and> unat (bss_end l) mod 4 = 0 \<and> bss_start l \<le> bss_end l
     \<and> unat (bss_end l) + stack_size \<le> unat (stack_top l)
     \<and> unat (main_address l) mod 4 = 0"

subsection \<open>Clearing a range\<close>

text \<open>The state with a range of RAM set to zero.\<close>

definition zero_range :: "nat \<Rightarrow> nat \<Rightarrow> isa_state \<Rightarrow> isa_state" where
  "zero_range a b s = s\<lparr>ram := (\<lambda>x. if a \<le> x \<and> x < b then Some 0 else ram s x)\<rparr>"

lemma zero_range_simps [simp]:
  "pc (zero_range a b s) = pc s" "get_reg (zero_range a b s) r = get_reg s r"
  "ram (zero_range a b s) = (\<lambda>x. if a \<le> x \<and> x < b then Some 0 else ram s x)"
  "zero_range a b (set_reg r v s) = set_reg r v (zero_range a b s)"
  "zero_range a b (next_pc_state p s) = next_pc_state p (zero_range a b s)"
  "zero_range a a s = s"
  by (cases s; auto simp: zero_range_def get_reg_def set_reg_def next_pc_state_def fun_eq_iff)+

lemma zero_range_join: "a \<le> b \<Longrightarrow> b \<le> c \<Longrightarrow> zero_range b c (zero_range a b s) = zero_range a c s"
  by (auto simp: zero_range_def fun_eq_iff)

lemma offsets: "branch_offset 8 = 16" "jump_offset (- 6) = - 12" "imm_value 0 = 0" "imm_value 4 = 4"
  by (simp_all add: branch_offset_def jump_offset_def imm_value_def)

text \<open>A word of zeros.\<close>

lemma store_zero:
  assumes "\<forall>x. unat b \<le> x \<and> x < unat b + 4 \<longrightarrow> ram s x \<noteq> None" "unat b mod 4 = 0" "get_reg s r = b"
  shows "exec (Store St_w r 0 0) s = Retire (next_pc_state (pc s + 4) (zero_range (unat b) (unat b + 4) s))"
proof -
  have "value_bytes 4 0 = replicate 4 0" by (simp add: value_bytes_def map_replicate_const)
  then have "ram_store (ram s) (unat b) (value_bytes 4 0) = ram (zero_range (unat b) (unat b + 4) s)"
    by (auto simp: ram_store_def fun_eq_iff)
  moreover have "ram_bytes (ram s) (unat b) 4 \<noteq> None" using assms(1) by (auto simp: ram_bytes_def list_all_iff)
  ultimately show ?thesis
    using assms(2,3) by (auto simp: offsets get_reg_def [of s 0] zero_range_def)
qed

text \<open>One round of the loop: four instructions clear a word.\<close>

lemma clear_round:
  assumes code: "code_at (ram s) p clear_code" and "pc s = p" "get_reg s 5 = b" "get_reg s 6 = e"
    and b: "b < e" "unat b mod 4 = 0" "\<forall>x. unat b \<le> x \<and> x < unat b + 4 \<longrightarrow> ram s x \<noteq> None"
    and apart: "unat p + 16 \<le> unat b"
  shows "(isa_retires ^^ 4) s (next_pc_state p (set_reg 5 (b + 4) (zero_range (unat b) (unat b + 4) s)))"
proof -
  let ?z = "zero_range (unat b) (unat b + 4) s"
  have "unat p + 4 * length clear_code \<le> 2 ^ 32"
    using apart unsigned_less [of b, where ?'a = nat] by (simp add: clear_code_def)
  then have code': "code_at (ram ?z) p clear_code"
    using code apart by (subst code_at_cong [where r' = "ram s"]) (auto simp: clear_code_def)
  let ?s1 = "next_pc_state (p + 4) s" and ?s2 = "next_pc_state (p + 8) ?z" and ?s3 = "next_pc_state (p + 12) (set_reg 5 (b + 4) ?z)"
  note code = code [unfolded clear_code_def code_at_Cons] and code' = code' [unfolded clear_code_def code_at_Cons]
  have "isa_retires s ?s1"
    by (rule retires_code [where i = "Branch Br_geu 5 6 8" and c = "[]"])
      (use code assms(2-4) b(1) in \<open>simp_all add: code_at_Cons code_at_Nil word_less_nat_alt\<close>)
  moreover have "isa_retires ?s1 ?s2"
    by (rule retires_code [where i = "Store St_w 5 0 0" and c = "[]"])
      (use code assms(2-4) b store_zero [of b ?s1 5] in \<open>simp_all add: code_at_Cons code_at_Nil add.assoc\<close>)
  moreover have "isa_retires ?s2 ?s3"
    by (rule retires_code [where i = "ImmOp Imm_addi 5 5 4" and c = "[]"])
      (use code' assms(2-4) in \<open>simp_all add: code_at_Cons code_at_Nil write_next_def offsets add.assoc\<close>)
  moreover have "isa_retires ?s3 (next_pc_state p (set_reg 5 (b + 4) ?z))"
    by (rule retires_code [where i = "Jal 0 (- 6)" and c = "[]"])
      (use code' in \<open>simp_all add: code_at_Cons code_at_Nil jump_to_def offsets add.assoc set_reg_def [of 0]\<close>)
  ultimately show ?thesis by (auto simp: numeral_eq_Suc)
qed

text \<open>The whole loop, for \<open>k\<close> words.\<close>

lemma clear_runs:
  assumes "code_at (ram s) p clear_code" "pc s = p" "get_reg s 5 = b" "get_reg s 6 = e"
    "unat e = unat b + 4 * k" "unat b mod 4 = 0" "\<forall>x. unat b \<le> x \<and> x < unat e \<longrightarrow> ram s x \<noteq> None"
    "unat p + 16 \<le> unat b"
  shows "(isa_retires ^^ (4 * k + 1)) s (next_pc_state (p + 16) (set_reg 5 e (zero_range (unat b) (unat e) s)))"
  using assms
proof (induction k arbitrary: s b)
  case 0
  then have "e = b" by (simp add: word_unat_eq_iff)
  moreover have "isa_retires s (next_pc_state (p + 16) s)"
    by (rule retires_code [where i = "Branch Br_geu 5 6 8" and c = "[]"])
      (use 0 \<open>e = b\<close> unat_mod_4 [of p 4] in \<open>simp_all add: clear_code_def code_at_Cons code_at_Nil offsets jump_to_def\<close>)
  ultimately show ?case using 0 by (simp add: set_reg_same eq_OO)
next
  case (Suc k)
  let ?s = "next_pc_state p (set_reg 5 (b + 4) (zero_range (unat b) (unat b + 4) s))"
  have next_b: "unat (b + 4) = unat b + 4"
    using Suc.prems(5) unsigned_less [of e, where ?'a = nat] by (subst unat_add_small) simp_all
  have less: "b < e" using Suc.prems(5) by (simp add: word_less_nat_alt)
  have round: "(isa_retires ^^ 4) s ?s"
    using Suc.prems less by (intro clear_round [where e = e]) simp_all
  have "(isa_retires ^^ (4 * k + 1)) ?s
      (next_pc_state (p + 16) (set_reg 5 e (zero_range (unat (b + 4)) (unat e) ?s)))"
  proof (rule Suc.IH)
    have "unat p + 4 * length clear_code \<le> 2 ^ 32"
      using Suc.prems(8) unsigned_less [of b, where ?'a = nat] by (simp add: clear_code_def)
    then show "code_at (ram ?s) p clear_code"
      using Suc.prems(1,8) by (subst code_at_cong [where r' = "ram s"]) (auto simp: clear_code_def)
    show "unat (b + 4) mod 4 = 0" using Suc.prems(6) next_b by simp
    show "\<forall>x. unat (b + 4) \<le> x \<and> x < unat e \<longrightarrow> ram ?s x \<noteq> None" using Suc.prems(7) next_b by simp
  qed (use Suc.prems next_b in simp_all)
  moreover have "zero_range (unat (b + 4)) (unat e) (zero_range (unat b) (unat b + 4) s) = zero_range (unat b) (unat e) s"
    unfolding next_b using Suc.prems(5) by (intro zero_range_join) simp_all
  ultimately have "(isa_retires ^^ (4 * k + 1)) ?s (next_pc_state (p + 16) (set_reg 5 e (zero_range (unat b) (unat e) s)))"
    by simp
  with round have "(isa_retires ^^ (4 + (4 * k + 1))) s (next_pc_state (p + 16) (set_reg 5 e (zero_range (unat b) (unat e) s)))"
    unfolding relpowp_add by (rule relcomppI)
  then show ?case by (simp add: algebra_simps)
qed

subsection \<open>The way to main\<close>

text \<open>The state in which \<^verbatim>\<open>main\<close> is called, and the number of words cleared.\<close>

definition main_called :: "guest_layout \<Rightarrow> isa_state \<Rightarrow> isa_state" where
  "main_called l s = next_pc_state (main_address l) (set_reg 1 (start_address l + 56)
     (set_reg 6 (bss_end l) (set_reg 5 (bss_end l) (set_reg 3 (global_pointer l) (set_reg 2 (stack_top l)
     (zero_range (unat (bss_start l)) (unat (bss_end l)) s))))))"

definition bss_words :: "guest_layout \<Rightarrow> nat" where
  "bss_words l = (unat (bss_end l) - unat (bss_start l)) div 4"

lemma code_lengths:
  "length (load_address_code p r target) = 2" "length clear_code = 4" "length (call_code p target) = 2" "length exit_code = 3"
  "length (start_code l) = 17"
  by (simp_all add: start_code_def load_address_code_def clear_code_def call_code_def exit_code_def)

lemma start_code_parts:
  assumes "code_at r a (start_code l)" "a = start_address l"
  shows "code_at r a (load_address_code a 2 (stack_top l))"
    "code_at r (a + 8) (load_address_code (a + 8) 3 (global_pointer l))"
    "code_at r (a + 16) (load_address_code (a + 16) 5 (bss_start l))"
    "code_at r (a + 24) (load_address_code (a + 24) 6 (bss_end l))"
    "code_at r (a + 32) clear_code" "code_at r (a + 48) (call_code (a + 48) (main_address l))"
    "code_at r (a + 56) exit_code"
  using assms by (simp_all add: start_code_def code_at_append code_lengths add.assoc)

lemma startup_runs:
  assumes code: "code_at (ram s) (start_address l) (start_code l)" and pc: "pc s = start_address l"
    and linked: "linked ram_size stack_size l" and ram: "\<forall>x<ram_size. ram s x \<noteq> None"
  shows "(isa_retires ^^ (4 * bss_words l + 11)) s (main_called l s)"
proof -
  define a where "a = start_address l"
  note parts = start_code_parts [OF code [folded a_def] a_def]
  let ?s1 = "next_pc_state (a + 8) (set_reg 2 (stack_top l) s)"
  let ?s2 = "next_pc_state (a + 16) (set_reg 3 (global_pointer l) ?s1)"
  let ?s3 = "next_pc_state (a + 24) (set_reg 5 (bss_start l) ?s2)"
  let ?s4 = "next_pc_state (a + 32) (set_reg 6 (bss_end l) ?s3)"
  let ?s5 = "next_pc_state (a + 48) (set_reg 5 (bss_end l) (zero_range (unat (bss_start l)) (unat (bss_end l)) ?s4))"
  have r1: "(isa_retires ^^ 2) s ?s1"
    using load_address_runs [OF parts(1) pc [folded a_def]] by simp
  have r2: "(isa_retires ^^ 2) ?s1 ?s2"
    using load_address_runs [of ?s1 "a + 8" 3 "global_pointer l"] parts(2) by (simp add: add.assoc)
  have r3: "(isa_retires ^^ 2) ?s2 ?s3"
    using load_address_runs [of ?s2 "a + 16" 5 "bss_start l"] parts(3) by (simp add: add.assoc)
  have r4: "(isa_retires ^^ 2) ?s3 ?s4"
    using load_address_runs [of ?s3 "a + 24" 6 "bss_end l"] parts(4) by (simp add: add.assoc)
  have l: "unat a = 0x1000" "unat a + 68 \<le> unat (bss_start l)" "unat (bss_start l) mod 4 = 0"
    "unat (bss_end l) mod 4 = 0" "unat (bss_start l) \<le> unat (bss_end l)" "unat (bss_end l) \<le> ram_size"
    "unat (main_address l) mod 4 = 0"
    using linked by (auto simp: linked_def a_def code_lengths word_le_nat_alt)
  have e: "unat (bss_end l) = unat (bss_start l) + 4 * bss_words l"
    using l(3-5) unfolding bss_words_def by presburger
  have p: "unat (a + 32) + 16 \<le> unat (bss_start l)" using l(1,2) by (simp add: unat_word_ariths)
  have r5: "(isa_retires ^^ (4 * bss_words l + 1)) ?s4 ?s5"
    using clear_runs [of ?s4 "a + 32" "bss_start l" "bss_end l" "bss_words l"] parts(5) e l(3,6) p ram
    by (simp add: add.assoc)
  have "code_at (ram ?s5) (a + 48) (call_code (a + 48) (main_address l))"
    using parts(6) l(1,2) by (subst code_at_cong [where r' = "ram s"]) (auto simp: call_code_def unat_word_ariths)
  then have r6: "(isa_retires ^^ 2) ?s5 (next_pc_state (main_address l) (set_reg 1 (a + 56) ?s5))"
    using call_runs [of ?s5 "a + 48" "main_address l"] l(7) by (simp add: add.assoc)
  have called: "next_pc_state (main_address l) (set_reg 1 (a + 56) ?s5) = main_called l s"
    by (simp add: main_called_def a_def set_reg_swap [of 5 6])
  have "2 + (2 + (2 + (2 + (4 * bss_words l + 1 + 2)))) = 4 * bss_words l + 11" by simp
  with runs_trans [OF r1 runs_trans [OF r2 runs_trans [OF r3 runs_trans [OF r4 runs_trans [OF r5 r6]]]]]
  show ?thesis by (simp only: called)
qed

subsection \<open>The way from main\<close>

text \<open>After \<^verbatim>\<open>main\<close> has returned, two more attempts exit with its result.\<close>

lemma exit_status_of:
  assumes "code_at (ram s) (pc s) exit_code"
  shows "isa_status (Suc (Suc n)) s (uint (get_reg s 10) mod 256)"
proof -
  let ?t = "next_pc_state (pc s + 4) (set_reg 17 93 s)"
  have c: "code_at (ram s) (pc s) [ImmOp Imm_addi 17 0 93, Ecall, Jal 0 0]" using assms by (simp add: exit_code_def)
  have "exec (ImmOp Imm_addi 17 0 93) s = Retire ?t"
    by (simp add: write_next_def imm_value_def get_reg_def [of s 0])
  with c have "isa_step s (Retire ?t)" by (simp only: code_at_Cons isa_step_fetched)
  moreover have "isa_step ?t (exec Ecall ?t)"
    using c by (subst isa_step_fetched [of ?t Ecall]) (simp_all add: code_at_Cons)
  then have "isa_status (Suc n) ?t (uint (get_reg s 10) mod 256)" using status_exit [of ?t 0 n] by simp
  ultimately show ?thesis by (rule status_next)
qed

text \<open>
  From the entry to the exit: when \<^verbatim>\<open>main\<close> comes back after \<open>k\<close> instructions, with the code behind
  its call still in place, the status is the low byte of a0.
\<close>

lemma guest_status:
  assumes "code_at (ram s) (start_address l) (start_code l)" and "pc s = start_address l"
    and "linked ram_size stack_size l" and "\<forall>x<ram_size. ram s x \<noteq> None"
    and "(isa_retires ^^ k) (main_called l s) t" and "pc t = start_address l + 56"
    and "code_at (ram t) (start_address l + 56) exit_code"
    and "4 * bss_words l + k + 13 \<le> limit"
  shows "isa_status limit s (uint (get_reg t 10) mod 256)"
proof -
  obtain n where n: "limit = 4 * bss_words l + 11 + (k + Suc (Suc n))"
    using le_Suc_ex [OF assms(8)] by (auto simp: algebra_simps)
  have "isa_status (Suc (Suc n)) t (uint (get_reg t 10) mod 256)"
    using assms(6,7) by (intro exit_status_of) simp
  then show ?thesis unfolding n by (intro isa_status_runs [OF startup_runs [OF assms(1-4)]] isa_status_runs [OF assms(5)])
qed

subsection \<open>A sample program\<close>

text \<open>
  The start-up code, a \<^verbatim>\<open>main\<close> that returns 42, and two words to clear, in 8 KiB of RAM.
\<close>

definition sample_layout :: guest_layout where
  "sample_layout = \<lparr>start_address = 0x1000, stack_top = 0x2000, global_pointer = 0x184C,
     bss_start = 0x104C, bss_end = 0x1054, main_address = 0x1044\<rparr>"

definition sample_main :: "instr list" where
  "sample_main = [ImmOp Imm_addi 10 0 42, Jalr 0 1 0]"

definition sample_guest :: program where
  "sample_guest = image_program PROGRAM_BINARY 0x2000 0x1000 0x1000
     (concat (map bytes32 (map encode (start_code sample_layout @ sample_main))))"

lemma sample_linked: "linked 0x2000 0x800 sample_layout"
  by (simp add: linked_def code_lengths) (simp add: sample_layout_def)

lemma sample_code:
  "code_at (ram (isa_start sample_guest)) 0x1000 (start_code sample_layout)"
  "code_at (ram (isa_start sample_guest)) 0x1044 sample_main"
proof -
  have "code_at (ram (isa_start sample_guest)) 0x1000 (start_code sample_layout @ sample_main)"
    unfolding sample_guest_def
    by (rule image_code_at) (simp_all add: memory_size_valid_def size_simps code_lengths sample_main_def)
  then show "code_at (ram (isa_start sample_guest)) 0x1000 (start_code sample_layout)"
    "code_at (ram (isa_start sample_guest)) 0x1044 sample_main"
    by (simp_all add: code_at_append code_lengths)
qed

lemma sample_start:
  "pc (isa_start sample_guest) = start_address sample_layout" "start_address sample_layout = 0x1000"
  "\<forall>x<0x2000. ram (isa_start sample_guest) x \<noteq> None"
  by (simp_all add: isa_start_def sample_guest_def image_program_def sample_layout_def ram_of_def)

lemma sample_main_runs:
  assumes "code_at (ram s) (pc s) sample_main" "unat (get_reg s 1) mod 4 = 0"
  shows "(isa_retires ^^ 2) s (next_pc_state (get_reg s 1) (set_reg 10 42 s))"
proof -
  let ?t = "next_pc_state (pc s + 4) (set_reg 10 42 s)"
  note code = assms(1) [unfolded sample_main_def]
  have "isa_retires s ?t"
    by (rule retires_code [OF code]) (simp add: write_next_def imm_value_def get_reg_def [of s 0])
  moreover have "isa_retires ?t (next_pc_state (get_reg s 1) (set_reg 10 42 s))"
    by (rule retires_code [where i = "Jalr 0 1 0" and c = "[]"])
      (use code assms(2) clear_low_bit [OF assms(2)] in \<open>simp_all add: code_at_Cons jump_to_def offsets set_reg_def [of 0]\<close>)
  ultimately show ?thesis by (rule two_steps)
qed

text \<open>The sample as a raw binary file on the command line.\<close>

definition guest_file :: infile where
  "guest_file = \<lparr>bytes_left = concat (map bytes32 (map encode (start_code sample_layout @ sample_main))), read_fails = False\<rparr>"

definition guest_environment :: "unit environment" where
  "guest_environment = sample_environment\<lparr>open_file := \<lambda>path. if path = ''guest.bin'' then Inr guest_file else Inl ''''\<rparr>"

definition guest_args :: "string list" where
  "guest_args = [''--bin'', ''guest.bin'', ''--load-address'', ''0x1000'', ''--entry'', ''0x1000'', ''--ram'', ''8KiB'', ''--run'']"

definition guest_options :: options where
  "guest_options = (default_options False)\<lparr>opt_path := Ref ''guest.bin'', opt_format := PROGRAM_BINARY,
     opt_load_address := 0x1000, opt_entry := 0x1000, opt_ram_size := 0x2000, opt_entry_set := True,
     opt_address_set := True, opt_run_batch := True\<rparr>"

lemma guest_numbers: "number (Ref ''0x1000'') 0xFFFFFFFF = Some 0x1000" "parse_ram_size ''8KiB'' = Some 0x2000"
proof -
  have "digit_of 16 CHR ''0''" "digit_of 16 CHR ''1''" by code_simp+
  moreover have "numeral_value 16 ''1000'' = 0x1000" by (simp add: numeral_value_def digit_value_def Let_def)
  ultimately have "denotes ''0x1000'' 0x1000"
    unfolding denotes_def by (intro disjI2 exI [of _ "CHR ''x''"] exI [of _ "''1000''"]) simp
  then show "number (Ref ''0x1000'') 0xFFFFFFFF = Some 0x1000" by (simp add: number_denotes)
  have "dec 8 = ''8''" by code_simp
  then have d: "denotes ''8'' 8" using denotes_dec [of 8] by simp
  have "''8KiB'' = ''8'' @ ''KiB''" "unit_of ''KiB'' = Some 1024" "memory_size_valid 0x2000"
    by (simp_all add: unit_of_def memory_size_valid_def size_simps)
  with d show "parse_ram_size ''8KiB'' = Some 0x2000"
    unfolding parse_ram_size_denotes
    by (intro exI [of _ "''8''"] exI [of _ "''KiB''"] exI [of _ 1024] exI [of _ 8]) simp
qed

lemma guest_parse:
  "parse_options guest_args (default_options False) = Inr guest_options"
  "check_options guest_options = Inr (''guest.bin'', guest_options)"
  by (simp_all add: guest_args_def guest_options_def default_options_def value_options_def option_value_def
      guest_numbers check_options_def)

lemma guest_load: "load_input guest_environment guest_options guest_file = Inr sample_guest"
proof -
  have len: "length (concat (map bytes32 ws)) = 4 * length ws" for ws
    by (induction ws) (simp_all add: bytes32_def)
  have "length (bytes_left guest_file) = 4 * (length (start_code sample_layout) + length sample_main)"
    by (simp only: guest_file_def infile.simps len length_map length_append)
  then have fits: "image_fits 0x2000 0x1000 0x1000 (bytes_left guest_file)"
    by (simp add: image_fits_def memory_size_valid_def size_simps code_lengths sample_main_def)
  have "program_read_binary (\<lambda>_. True) True (Ref guest_file) 0x2000 0x1000 0x1000 (Ref zero_program)
      = Inr (image_program PROGRAM_BINARY 0x2000 0x1000 0x1000 (bytes_left guest_file))"
    using fits by (subst program_read_binary_iff) (simp_all add: guest_file_def)
  then show ?thesis
    by (simp add: load_input_def guest_environment_def sample_environment_def guest_options_def default_options_def
        sample_guest_def guest_file_def)
qed

lemma guest_main:
  defines "s \<equiv> main_called sample_layout (isa_start sample_guest)"
  shows "(isa_retires ^^ 2) s (next_pc_state 0x1038 (set_reg 10 42 s))"
    and "code_at (ram s) 0x1038 exit_code"
proof -
  have ram: "ram s = (\<lambda>x. if 0x104C \<le> x \<and> x < 0x1054 then Some 0 else ram (isa_start sample_guest) x)"
    "pc s = 0x1044" "get_reg s 1 = 0x1038"
    by (simp_all add: s_def main_called_def sample_layout_def)
  have "code_at (ram s) (pc s) sample_main"
    using sample_code(2) unfolding ram by (subst code_at_cong [where r' = "ram (isa_start sample_guest)"]) (simp_all add: sample_main_def)
  then show "(isa_retires ^^ 2) s (next_pc_state 0x1038 (set_reg 10 42 s))"
    using sample_main_runs [of s] ram by simp
  have "code_at (ram (isa_start sample_guest)) 0x1038 exit_code"
    using start_code_parts(7) [OF sample_code(1)] sample_start(2) by simp
  then show "code_at (ram s) 0x1038 exit_code"
    unfolding ram by (subst code_at_cong [where r' = "ram (isa_start sample_guest)"]) (simp_all add: code_lengths)
qed

subsection \<open>Properties\<close>

text \<open>
  C14. The start-up code keeps its promises to C. From the entry of a linked program, it retires in a
  number of steps that depends only on the size of the zero-initialised data, and then stands at the
  first instruction of \<^verbatim>\<open>main\<close>: the stack pointer is the top of the stack, the global pointer is set,
  the return address is behind the call, all zero-initialised data are zero, every other byte of RAM
  is as loaded, and only the registers ra, sp, gp, t0 and t1 have changed.
\<close>

theorem startup_prepares:
  assumes "code_at (ram s) (start_address l) (start_code l)" and "pc s = start_address l"
    and "linked ram_size stack_size l" and "\<forall>x<ram_size. ram s x \<noteq> None"
  shows "(isa_retires ^^ (4 * bss_words l + 11)) s (main_called l s)
    \<and> pc (main_called l s) = main_address l
    \<and> get_reg (main_called l s) 1 = start_address l + 56
    \<and> get_reg (main_called l s) 2 = stack_top l \<and> get_reg (main_called l s) 3 = global_pointer l
    \<and> (\<forall>r. r \<notin> {1, 2, 3, 5, 6} \<longrightarrow> get_reg (main_called l s) r = get_reg s r)
    \<and> (\<forall>x. ram (main_called l s) x =
         (if unat (bss_start l) \<le> x \<and> x < unat (bss_end l) then Some 0 else ram s x))"
  using startup_runs [OF assms] by (simp add: main_called_def)

theorem startup_prepares_witness:
  "(isa_retires ^^ 19) (isa_start sample_guest) (main_called sample_layout (isa_start sample_guest))
    \<and> get_reg (main_called sample_layout (isa_start sample_guest)) 2 = 0x2000"
proof -
  have "4 * bss_words sample_layout + 11 = 19" "stack_top sample_layout = 0x2000"
    by (simp_all add: bss_words_def sample_layout_def)
  then show ?thesis
    using startup_prepares [OF sample_code(1) [folded sample_start(2)] sample_start(1) sample_linked sample_start(3)] by simp
qed

end
