(* ===== verification/Runtime.thy ===== *)
theory Runtime
  imports Prelude
begin

section \<open>The C runtime of guest programs\<close>

text \<open>
  The model of \<^verbatim>\<open>runtime/memory.c\<close>, the four memory routines that are linked into guest programs.
  The guest's memory is flat: a byte for every 32-bit address; pointers, \<^verbatim>\<open>size_t\<close> and \<^verbatim>\<open>uintptr_t\<close>
  have 32 bits there. A loop carries its index and stops when it meets the bound. The theory shows
  what each routine leaves in memory or returns, for every pair of ranges that do not run past
  the end of the address space; overlap is allowed where the C standard allows it.
\<close>

type_synonym flat = "u32 \<Rightarrow> u8"

subsection \<open>Operations\<close>

function copy_up :: "flat \<Rightarrow> u32 \<Rightarrow> u32 \<Rightarrow> u32 \<Rightarrow> u32 \<Rightarrow> flat" where
  "copy_up m out inp count i =
     (if i < count then copy_up (m(out + i := m (inp + i))) out inp count (i + 1) else m)"
  by pat_completeness auto
termination
  by (relation "measure (\<lambda>(m, out, inp, count, i). unat count - unat i)")
    (simp_all add: unat_inc_measure)

function copy_down :: "flat \<Rightarrow> u32 \<Rightarrow> u32 \<Rightarrow> u32 \<Rightarrow> flat" where
  "copy_down m out inp i =
     (if i \<noteq> 0 then copy_down (m(out + (i - 1) := m (inp + (i - 1)))) out inp (i - 1) else m)"
  by pat_completeness auto
termination
  by (relation "measure (\<lambda>(m, out, inp, i). unat i)") (auto simp: unat_minus_one unat_gt_0)

function fill_up :: "flat \<Rightarrow> u32 \<Rightarrow> u8 \<Rightarrow> u32 \<Rightarrow> u32 \<Rightarrow> flat" where
  "fill_up m out v count i =
     (if i < count then fill_up (m(out + i := v)) out v count (i + 1) else m)"
  by pat_completeness auto
termination
  by (relation "measure (\<lambda>(m, out, v, count, i). unat count - unat i)")
    (simp_all add: unat_inc_measure)

function compare_up :: "flat \<Rightarrow> u32 \<Rightarrow> u32 \<Rightarrow> u32 \<Rightarrow> u32 \<Rightarrow> int" where
  "compare_up m a b count i =
     (if i < count then
        if m (a + i) \<noteq> m (b + i) then (if m (a + i) < m (b + i) then -1 else 1)
        else compare_up m a b count (i + 1)
      else 0)"
  by pat_completeness auto
termination
  by (relation "measure (\<lambda>(m, a, b, count, i). unat count - unat i)")
    (simp_all add: unat_inc_measure)

definition memcpy :: "flat \<Rightarrow> u32 \<Rightarrow> u32 \<Rightarrow> u32 \<Rightarrow> u32 \<times> flat" where
  "memcpy m destination source count = (destination, copy_up m destination source count 0)"

definition memmove :: "flat \<Rightarrow> u32 \<Rightarrow> u32 \<Rightarrow> u32 \<Rightarrow> u32 \<times> flat" where
  "memmove m destination source count =
     (destination,
      if destination \<le> source then copy_up m destination source count 0
      else copy_down m destination source count)"

text \<open>The value is an \<^verbatim>\<open>int\<close>, of which the conversion to \<^verbatim>\<open>unsigned char\<close> keeps the low byte.\<close>

definition memset :: "flat \<Rightarrow> u32 \<Rightarrow> u32 \<Rightarrow> u32 \<Rightarrow> u32 \<times> flat" where
  "memset m destination value count = (destination, fill_up m destination (ucast value) count 0)"

definition memcmp :: "flat \<Rightarrow> u32 \<Rightarrow> u32 \<Rightarrow> u32 \<Rightarrow> int" where
  "memcmp m left right count = compare_up m left right count 0"

declare copy_up.simps [simp del] copy_down.simps [simp del] fill_up.simps [simp del] compare_up.simps [simp del]

subsection \<open>Copying\<close>

text \<open>
  What a copy means: every byte of the target range has the value that the byte at the same
  distance in the source range had before, and the other bytes stay. A byte lies in the range
  \<open>d\<close>, \<open>n\<close> when its distance from \<open>d\<close> is below \<open>n\<close>.
\<close>

definition moved :: "flat \<Rightarrow> u32 \<Rightarrow> u32 \<Rightarrow> u32 \<Rightarrow> flat" where
  "moved m d s n = (\<lambda>a. if a - d < n then m (s + (a - d)) else m a)"

definition in_space :: "u32 \<Rightarrow> u32 \<Rightarrow> bool" where
  "in_space p n \<longleftrightarrow> unat p + unat n \<le> 2 ^ 32"

lemma unat_in_space:
  assumes "in_space p n" "i < n"
  shows "unat (p + i) = unat p + unat i"
proof -
  have "unat p + unat i < 2 ^ 32" using assms by (simp add: in_space_def word_less_nat_alt)
  then show ?thesis by (simp add: unat_word_ariths)
qed

lemma copy_up_moved:
  assumes "i \<le> n" "\<And>j k. j < k \<Longrightarrow> k < n \<Longrightarrow> d + j \<noteq> s + k"
  shows "copy_up (moved m d s i) d s n i = moved m d s n"
  using assms(1)
proof (induction "unat n - unat i" arbitrary: i rule: less_induct)
  case less
  show ?case
  proof (cases "i < n")
    case False
    with less.prems have "i = n" by simp
    then show ?thesis by (simp add: copy_up.simps)
  next
    case True
    have "\<not> s + i - d < i"
    proof
      assume "s + i - d < i"
      from assms(2) [OF this True] show False by simp
    qed
    then have "(moved m d s i)(d + i := moved m d s i (s + i)) = moved m d s (i + 1)"
      by (auto simp: moved_def less_inc_iff [OF True] fun_eq_iff)
    moreover have "copy_up (moved m d s (i + 1)) d s n (i + 1) = moved m d s n"
      using True by (intro less.hyps) (simp_all add: unat_inc_measure inc_le)
    ultimately show ?thesis using True by (simp add: copy_up.simps [of _ _ _ _ i])
  qed
qed

lemma distance: "a - d = k \<longleftrightarrow> a = d + k" for a d k :: u32
  by (auto simp: algebra_simps)

text \<open>The state of the downward loop: the bytes from index \<open>i\<close> on are copied.\<close>

definition moved_above :: "flat \<Rightarrow> u32 \<Rightarrow> u32 \<Rightarrow> u32 \<Rightarrow> u32 \<Rightarrow> flat" where
  "moved_above m d s n i = (\<lambda>a. if i \<le> a - d \<and> a - d < n then m (s + (a - d)) else m a)"

lemma copy_down_moved:
  assumes "i \<le> n" "\<And>j k. k < j \<Longrightarrow> j < n \<Longrightarrow> d + j \<noteq> s + k"
  shows "copy_down (moved_above m d s n i) d s i = moved m d s n"
  using assms(1)
proof (induction "unat i" arbitrary: i rule: less_induct)
  case less
  show ?case
  proof (cases "i = 0")
    case True
    then show ?thesis by (simp add: copy_down.simps moved_above_def moved_def)
  next
    case False
    then have dec: "unat i = Suc (unat (i - 1))" by (simp add: unat_minus_one unat_gt_0)
    then have low: "i - 1 < i" "i - 1 < n" "x < i - 1 + 1 \<longleftrightarrow> x < i" for x
      using less.prems by (auto simp: word_less_nat_alt word_le_nat_alt)
    have "\<not> (i \<le> s + (i - 1) - d \<and> s + (i - 1) - d < n)"
    proof
      assume *: "i \<le> s + (i - 1) - d \<and> s + (i - 1) - d < n"
      then have "i - 1 < s + (i - 1) - d" using low(1) by (blast intro: less_le_trans)
      from assms(2) [OF this] * show False by simp
    qed
    moreover have "i - 1 \<le> x \<longleftrightarrow> i \<le> x \<or> x = i - 1" for x
      using dec by (auto simp: word_le_nat_alt word_unat_eq_iff)
    ultimately have "(moved_above m d s n i)(d + (i - 1) := moved_above m d s n i (s + (i - 1)))
        = moved_above m d s n (i - 1)"
      using low(2) distance [of _ d "i - 1"] by (auto simp: moved_above_def fun_eq_iff)
    moreover have "copy_down (moved_above m d s n (i - 1)) d s (i - 1) = moved m d s n"
      using low by (intro less.hyps) (auto simp: word_less_nat_alt word_le_nat_alt)
    ultimately show ?thesis using False by (simp add: copy_down.simps [of _ _ _ i])
  qed
qed

lemma copy_all:
  assumes "\<And>j k. j < k \<Longrightarrow> k < n \<Longrightarrow> d + j \<noteq> s + k"
  shows "copy_up m d s n 0 = moved m d s n"
  using copy_up_moved [of 0 n d s m] assms by (simp add: moved_def [of _ _ _ 0])

lemma copy_all_down:
  assumes "\<And>j k. k < j \<Longrightarrow> j < n \<Longrightarrow> d + j \<noteq> s + k"
  shows "copy_down m d s n = moved m d s n"
proof -
  have "moved_above m d s n n = m" by (rule ext) (auto simp: moved_above_def)
  with copy_down_moved [of n n d s m] assms show ?thesis by simp
qed

lemma apart_up:
  assumes "in_space d n" "in_space s n" "d \<le> s" "j < k" "k < n"
  shows "d + j \<noteq> s + k"
proof -
  have "unat (d + j) = unat d + unat j" "unat (s + k) = unat s + unat k"
    using assms by (auto intro: unat_in_space)
  with assms(3,4) show ?thesis by (auto simp: word_le_nat_alt word_less_nat_alt)
qed

lemma memmove_moved:
  assumes "in_space d n" "in_space s n"
  shows "memmove m d s n = (d, moved m d s n)"
proof (cases "d \<le> s")
  case True
  with apart_up [OF assms True] show ?thesis by (simp add: memmove_def copy_all)
next
  case False
  then have "d + j \<noteq> s + k" if "k < j" "j < n" for j k
    using apart_up [OF assms(2,1) _ that] by (metis linear)
  with False show ?thesis by (simp add: memmove_def copy_all_down)
qed

text \<open>Two ranges that share no byte.\<close>

definition disjoint_ranges :: "u32 \<Rightarrow> u32 \<Rightarrow> u32 \<Rightarrow> bool" where
  "disjoint_ranges d s n \<longleftrightarrow> unat d + unat n \<le> unat s \<or> unat s + unat n \<le> unat d"

lemma memcpy_moved:
  assumes "in_space d n" "in_space s n" "disjoint_ranges d s n"
  shows "memcpy m d s n = (d, moved m d s n)"
proof -
  have "d + j \<noteq> s + k" if "j < k" "k < n" for j k
  proof -
    have "unat (d + j) = unat d + unat j" "unat (s + k) = unat s + unat k"
      using assms that by (auto intro: unat_in_space)
    with assms(3) that show ?thesis by (auto simp: disjoint_ranges_def word_less_nat_alt)
  qed
  then show ?thesis by (simp add: memcpy_def copy_all)
qed

subsection \<open>Filling and comparing\<close>

lemma fill_up_eq:
  "i \<le> n \<Longrightarrow> fill_up m d v n i = (\<lambda>a. if i \<le> a - d \<and> a - d < n then v else m a)"
proof (induction m d v n i rule: fill_up.induct)
  case (1 m d v n i)
  show ?case
  proof (cases "i < n")
    case True
    have next_index: "i + 1 \<le> x \<longleftrightarrow> i \<le> x \<and> x \<noteq> i" for x
      using less_inc_iff [OF True, of x] by (auto simp: not_less [symmetric])
    have "fill_up m d v n i = (\<lambda>a. if i + 1 \<le> a - d \<and> a - d < n then v else (m(d + i := v)) a)"
      using "1.IH" [OF True inc_le [OF True]] True by (simp only: fill_up.simps [of m _ _ _ i] if_True)
    with next_index True show ?thesis
      using distance [of _ d i] by (auto simp: fun_eq_iff)
  next
    case False
    with "1.prems" have "i = n" by simp
    then show ?thesis by (auto simp: fill_up.simps fun_eq_iff)
  qed
qed

text \<open>The bytes of a range, and what the comparison of two ranges returns.\<close>

definition range_bytes :: "flat \<Rightarrow> u32 \<Rightarrow> nat \<Rightarrow> u8 list" where
  "range_bytes m p n = map (\<lambda>i. m (p + of_nat i)) [0..<n]"

fun first_difference :: "u8 list \<Rightarrow> u8 list \<Rightarrow> int" where
  "first_difference (x # xs) (y # ys) =
     (if x < y then -1 else if y < x then 1 else first_difference xs ys)"
| "first_difference _ _ = 0"

lemma first_difference_lexordp:
  "length xs = length ys \<Longrightarrow>
    first_difference xs ys = (if ord_class.lexordp xs ys then -1 else if xs = ys then 0 else 1)"
  by (induction xs ys rule: list_induct2) auto

lemma compare_up_eq:
  "i \<le> n \<Longrightarrow> compare_up m a b n i =
    first_difference (map (\<lambda>j. m (a + of_nat j)) [unat i..<unat n]) (map (\<lambda>j. m (b + of_nat j)) [unat i..<unat n])"
proof (induction m a b n i rule: compare_up.induct)
  case (1 m a b n i)
  show ?case
  proof (cases "i < n")
    case True
    then have "[unat i..<unat n] = unat i # [unat (i + 1)..<unat n]"
      by (simp add: unat_inc [OF True] word_less_nat_alt upt_conv_Cons)
    with True 1 show ?thesis
      by (auto simp: compare_up.simps [of m _ _ _ i] inc_le)
  next
    case False
    with "1.prems" have "i = n" by simp
    then show ?thesis by (simp add: compare_up.simps)
  qed
qed

lemma memcmp_eq:
  "memcmp m a b n = first_difference (range_bytes m a (unat n)) (range_bytes m b (unat n))"
  by (simp add: memcmp_def compare_up_eq range_bytes_def)

lemma length_range_bytes [simp]: "length (range_bytes m p n) = n"
  by (simp add: range_bytes_def)

lemma memcmp_order_eq:
  "memcmp m a b n =
    (let x = range_bytes m a (unat n); y = range_bytes m b (unat n)
     in if ord_class.lexordp x y then -1 else if x = y then 0 else 1)"
  by (simp add: memcmp_eq first_difference_lexordp)

lemma in_range_iff:
  assumes "in_space d n"
  shows "a - d < n \<longleftrightarrow> unat d \<le> unat a \<and> unat a < unat d + unat n"
proof
  assume "a - d < n"
  with unat_in_space [OF assms this] show "unat d \<le> unat a \<and> unat a < unat d + unat n"
    by (simp add: word_less_nat_alt)
next
  assume *: "unat d \<le> unat a \<and> unat a < unat d + unat n"
  then have "unat (a - d) = unat a - unat d" by (intro unat_sub) (simp add: word_le_nat_alt)
  with * show "a - d < n" unfolding word_less_nat_alt by linarith
qed

lemma index_less:
  assumes "i < unat (n :: u32)"
  shows "of_nat i < n" "unat (of_nat i :: u32) = i"
proof -
  have "i < 2 ^ 32" using assms unsigned_less [of n, where ?'a = nat] by simp
  then show "unat (of_nat i :: u32) = i" by (simp add: unat_of_nat)
  with assms show "of_nat i < n" by (simp add: word_less_nat_alt)
qed

lemma range_bytes_moved: "range_bytes (moved m d s n) d (unat n) = range_bytes m s (unat n)"
  by (simp add: range_bytes_def moved_def index_less)

lemma moved_outside:
  "in_space d n \<Longrightarrow> \<not> (unat d \<le> unat a \<and> unat a < unat d + unat n) \<Longrightarrow> moved m d s n a = m a"
  unfolding moved_def using in_range_iff [of d n a] by auto

lemma range_bytes_same:
  assumes "in_space d n" "in_space s n" "disjoint_ranges d s n"
  shows "range_bytes (moved m d s n) s (unat n) = range_bytes m s (unat n)"
proof -
  have "moved m d s n (s + of_nat i) = m (s + of_nat i)" if "i < unat n" for i
    using assms(3) that unat_in_space [OF assms(2) index_less(1) [OF that]]
    by (intro moved_outside [OF assms(1)]) (auto simp: disjoint_ranges_def index_less(2))
  then show ?thesis by (simp add: range_bytes_def)
qed

subsection \<open>Properties\<close>

text \<open>
  C37. Copying is a simultaneous move: \<^verbatim>\<open>memmove\<close> leaves in the target range the bytes that the
  source range had before, however the ranges overlap, changes no other byte and returns the
  target; and on ranges that share no byte \<^verbatim>\<open>memcpy\<close> does the same and keeps the source.
\<close>

theorem memmove_copies:
  assumes "in_space d n" "in_space s n" "memmove m d s n = (r, m')"
  shows "r = d \<and> range_bytes m' d (unat n) = range_bytes m s (unat n)
    \<and> (\<forall>a. \<not> (unat d \<le> unat a \<and> unat a < unat d + unat n) \<longrightarrow> m' a = m a)
    \<and> (disjoint_ranges d s n \<longrightarrow>
        memcpy m d s n = (d, m') \<and> range_bytes m' s (unat n) = range_bytes m s (unat n))"
proof -
  have "r = d" "m' = moved m d s n" using assms(3) by (auto simp: memmove_moved [OF assms(1,2)])
  then show ?thesis
    using range_bytes_moved [of m d s n] moved_outside [OF assms(1)]
      memcpy_moved [OF assms(1,2), of m] range_bytes_same [OF assms(1,2), of m] by simp
qed

theorem memmove_copies_witness:
  "\<exists>m'. memmove ucast 0x101 0x100 3 = (0x101, m') \<and> range_bytes m' 0x101 3 = [0, 1, 2] \<and> m' 0x104 = 4"
proof -
  obtain r m' where run: "memmove ucast 0x101 0x100 3 = (r, m')" by fastforce
  have "in_space 0x101 3" "in_space 0x100 3" by (simp_all add: in_space_def)
  from memmove_copies [OF this run] run show ?thesis
    by (auto simp: range_bytes_def upt_rec)
qed

text \<open>
  \<^verbatim>\<open>memset\<close> leaves the low byte of the value in every byte of the range, changes no other byte
  and returns the range.
\<close>

theorem memset_fills:
  assumes "in_space d n" "memset m d v n = (r, m')"
  shows "r = d \<and> range_bytes m' d (unat n) = replicate (unat n) (ucast v)
    \<and> (\<forall>a. \<not> (unat d \<le> unat a \<and> unat a < unat d + unat n) \<longrightarrow> m' a = m a)"
proof -
  have m': "r = d" "m' = (\<lambda>a. if a - d < n then ucast v else m a)"
    using assms(2) by (auto simp: memset_def fill_up_eq)
  have "range_bytes m' d (unat n) = replicate (unat n) (ucast v)"
    by (rule nth_equalityI) (simp_all add: m' range_bytes_def index_less)
  moreover have "m' a = m a" if "\<not> (unat d \<le> unat a \<and> unat a < unat d + unat n)" for a
    using that in_range_iff [OF assms(1)] unfolding m' by metis
  ultimately show ?thesis using m'(1) by blast
qed

theorem memset_fills_witness:
  "\<exists>m'. memset ucast 0x100 0x1FF 2 = (0x100, m') \<and> range_bytes m' 0x100 2 = [255, 255] \<and> m' 0x102 = 2"
proof -
  obtain r m' where run: "memset ucast 0x100 0x1FF 2 = (r, m')" by fastforce
  have "in_space 0x100 2" by (simp add: in_space_def)
  note filled = memset_fills [OF this run]
  have "replicate 2 x = [x, x]" for x :: u8 by (simp add: numeral_2_eq_2)
  then have "range_bytes m' 0x100 2 = [255, 255]" using filled by simp
  moreover have "m' 0x102 = 2" using filled by simp
  ultimately show ?thesis using run filled by blast
qed

text \<open>
  C40. \<^verbatim>\<open>memcmp\<close> decides the lexicographic order of the two ranges as sequences of unsigned bytes:
  -1 when the left one is smaller, 0 when they are equal, 1 otherwise; swapping the ranges flips
  the sign.
\<close>

theorem memcmp_order:
  "memcmp m a b n =
     (let x = range_bytes m a (unat n); y = range_bytes m b (unat n)
      in if ord_class.lexordp x y then -1 else if x = y then 0 else 1)
   \<and> memcmp m b a n = - memcmp m a b n"
proof -
  have "first_difference ys xs = - first_difference xs ys" for xs ys
    by (induction xs ys rule: first_difference.induct) auto
  then have "memcmp m b a n = - memcmp m a b n" unfolding memcmp_eq .
  then show ?thesis by (intro conjI memcmp_order_eq)
qed

end
