(* ===== verification/Demos.thy ===== *)
theory Demos
  imports Prelude "HOL-Library.Signed_Division"
begin

section \<open>The C examples\<close>

text \<open>
  The models of \<^verbatim>\<open>demos/c/learning.c\<close> and \<^verbatim>\<open>demos/c/arithmetic.c\<close>, with their global variables as records.
  Signed arithmetic is that of C on 32 bits: a result that is not representable, or a division by
  zero, is \<open>None\<close>. The theory shows that both programs return 0 and what the functions in them compute.
\<close>

subsection \<open>The learning example\<close>

record learning =
  learning_result :: u32
  learning_values :: "u32 list"
  learning_calls :: u32

definition learning_start :: learning where
  "learning_start = \<lparr>learning_result = 0, learning_values = [1, 2, 3, 4, 5], learning_calls = 0\<rparr>"

function sum_loop :: "u32 list \<Rightarrow> u32 \<Rightarrow> u32 \<Rightarrow> u32 \<Rightarrow> u32" where
  "sum_loop items count i acc =
     (if i < count
      then sum_loop items count (i + 1) (if items ! unat i > 2 then acc + items ! unat i else acc)
      else acc)"
  by pat_completeness auto
termination
  by (relation "measure (\<lambda>(items, count, i, acc). unat count - unat i)") (simp_all add: unat_inc_measure)

declare sum_loop.simps [simp del]

definition learning_sum :: "u32 list \<Rightarrow> u32 \<Rightarrow> learning \<Rightarrow> u32 \<times> learning" where
  "learning_sum items count s = (sum_loop items count 0 0, s\<lparr>learning_calls := learning_calls s + 1\<rparr>)"

definition learning_main :: "learning \<Rightarrow> int \<times> learning" where
  "learning_main s =
     (case learning_sum (learning_values s) 5 s of (a, s) \<Rightarrow>
      case learning_sum [10, 20, 30] 3 s of (b, s) \<Rightarrow>
        let s = s\<lparr>learning_result := a + b\<rparr>
        in (if learning_result s = 72 \<and> learning_calls s = 2 then 0 else 1, s))"

text \<open>The loop adds up the items above two.\<close>

lemma sum_loop_filter:
  assumes "i \<le> count" "unat count \<le> length items"
  shows "sum_loop items count i acc
    = acc + sum_list (filter (\<lambda>x. x > 2) (drop (unat i) (take (unat count) items)))"
  using assms
proof (induction items count i acc rule: sum_loop.induct)
  case (1 items count i acc)
  show ?case
  proof (cases "i < count")
    case True
    then have next_i: "unat (i + 1) = Suc (unat i)" by (rule unat_inc)
    have "drop (unat i) (take (unat count) items) = items ! unat i # drop (Suc (unat i)) (take (unat count) items)"
      using True "1.prems"(2) by (simp add: word_less_nat_alt flip: Cons_nth_drop_Suc)
    with "1.IH" [OF True] True "1.prems"(2) inc_le [OF True] next_i show ?thesis
      by (subst sum_loop.simps) (simp add: add.assoc)
  next
    case False
    with "1.prems"(1) have "i = count" by simp
    with "1.prems"(2) show ?thesis by (subst sum_loop.simps) simp
  qed
qed

lemma learning_sum_filter:
  "unat count \<le> length items \<Longrightarrow>
    fst (learning_sum items count s) = sum_list (filter (\<lambda>x. x > 2) (take (unat count) items))"
  using sum_loop_filter [of 0 count items 0] by (simp add: learning_sum_def)

lemma learning_main_returns:
  "learning_main learning_start
    = (0, \<lparr>learning_result = 72, learning_values = [1, 2, 3, 4, 5], learning_calls = 2\<rparr>)"
  by (simp add: learning_main_def learning_start_def learning_sum_def sum_loop_filter)

subsection \<open>The arithmetic example\<close>

record arithmetic =
  arithmetic_left :: u32
  arithmetic_right :: u32
  arithmetic_product :: u32
  arithmetic_quotient :: u32
  arithmetic_remainder :: u32
  arithmetic_wide_input :: u64
  arithmetic_wide_result :: u64

definition arithmetic_start :: arithmetic where
  "arithmetic_start = \<lparr>arithmetic_left = - 12345, arithmetic_right = 37, arithmetic_product = 0,
     arithmetic_quotient = 0, arithmetic_remainder = 0, arithmetic_wide_input = 0x123456789,
     arithmetic_wide_result = 0\<rparr>"

text \<open>A signed result, when it is representable; otherwise the C code has no meaning.\<close>

definition signed_result :: "int \<Rightarrow> u32 option" where
  "signed_result v = (if - (2 ^ 31) \<le> v \<and> v < 2 ^ 31 then Some (word_of_int v) else None)"

definition signed_quotient :: "u32 \<Rightarrow> u32 \<Rightarrow> u32 option" where
  "signed_quotient a b = (if b = 0 then None else signed_result (sint a sdiv sint b))"

definition signed_remainder :: "u32 \<Rightarrow> u32 \<Rightarrow> u32 option" where
  "signed_remainder a b = (if signed_quotient a b = None then None else Some (word_of_int (sint a smod sint b)))"

definition arithmetic_main :: "arithmetic \<Rightarrow> (int \<times> arithmetic) option" where
  "arithmetic_main s =
     (case signed_result (sint (arithmetic_left s) * sint (arithmetic_right s)) of None \<Rightarrow> None
      | Some v \<Rightarrow> let s = s\<lparr>arithmetic_product := v\<rparr> in
     (case signed_quotient (arithmetic_left s) (arithmetic_right s) of None \<Rightarrow> None
      | Some v \<Rightarrow> let s = s\<lparr>arithmetic_quotient := v\<rparr> in
     (case signed_remainder (arithmetic_left s) (arithmetic_right s) of None \<Rightarrow> None
      | Some v \<Rightarrow>
        let s = s\<lparr>arithmetic_remainder := v\<rparr>; s = s\<lparr>arithmetic_wide_result := arithmetic_wide_input s div 17\<rparr>
        in Some (if arithmetic_product s = - 456765 \<and> arithmetic_quotient s = - 333 \<and> arithmetic_remainder s = - 24
              \<and> arithmetic_wide_result s = 287454020 then 0 else 1, s))))"

lemma arithmetic_main_returns: "map_option fst (arithmetic_main arithmetic_start) = Some 0"
  by (simp add: arithmetic_main_def arithmetic_start_def signed_result_def signed_quotient_def signed_remainder_def
      signed_divide_int_def signed_modulo_int_def)

lemma arithmetic_division:
  assumes "signed_quotient a b = Some q" "signed_remainder a b = Some r"
  shows "q * b + r = a"
proof -
  have "word_of_int (sint a sdiv sint b * sint b + sint a smod sint b) = a" by (simp add: sdiv_mult_smod_eq)
  with assms show ?thesis
    by (auto simp: signed_quotient_def signed_remainder_def signed_result_def split: if_splits)
qed

end
