(* ===== verification/Spec2Isabelle.thy ===== *)
theory Spec2Isabelle
  imports Startup Runtime Demos
begin

text \<open>
  A verification library for the RV32I simulator in \<^verbatim>\<open>src/\<close> and \<^verbatim>\<open>include/\<close> of the repository,
  for the guest runtime in \<^verbatim>\<open>runtime/\<close>, and for the C examples in \<^verbatim>\<open>demos/c/\<close>. The program is a C17 command-line
  simulator: it loads a program of machine words (a text of hexadecimal words, a raw binary, or an
  ELF file), runs it instruction by instruction on a CPU with a flat RAM, and shows registers, RAM,
  assembly and source lines in a monitor.

  \<^bold>\<open>Parts and theories\<close>, from the bottom up:
  \<^item> \<open>Prelude\<close>: C integers, pointers, block copies, and facts on words and lists. \<open>Text\<close>: the
    conversions of \<^verbatim>\<open>printf\<close>, numerals and tokens.
  \<^item> \<open>Memory\<close> (\<^verbatim>\<open>memory.c\<close>): guest RAM, its lifecycle and the checked accesses of 8, 16, 32 bits.
  \<^item> \<open>Instruction\<close> (\<^verbatim>\<open>instruction.c\<close>): kinds, formats, fields, and \<^verbatim>\<open>instruction_decode\<close>.
  \<^item> \<open>Cpu\<close> (\<^verbatim>\<open>cpu.c\<close>): registers, the record of a step, and \<^verbatim>\<open>cpu_step_recorded\<close>, which calls the
    decoder and RAM.
  \<^item> \<open>Isa\<close>: the RV32I specification, from the documents of the repository and not from its code.
    \<open>Decode\<close> and \<open>Cpu_Refinement\<close> show that the decoder and the CPU implement it.
  \<^item> \<open>Program\<close> (\<^verbatim>\<open>program_io.c\<close>, \<^verbatim>\<open>program.c\<close>) and \<open>Elf\<close> (\<^verbatim>\<open>program_elf.c\<close>): the loaded program and its
    three loaders. \<open>Elf_Format\<close> is the specification of the section headers and of the RISC-V build
    attributes, a grammar over bytes and not the code's cursors and checks.
  \<^item> \<open>Machine\<close> (\<^verbatim>\<open>machine.c\<close>): CPU, RAM and the loaded program; load, reset, stop, the services of
    \<^verbatim>\<open>ECALL\<close>, and the run loop with its callbacks. \<open>Machine_Refinement\<close> carries the refinement of one
    step over to runs.
  \<^item> \<open>Debug_Info\<close> (\<^verbatim>\<open>debug_info.c\<close>), \<open>Disassembly\<close> (\<^verbatim>\<open>disassembly.c\<close>), \<open>Source_View\<close>
    (\<^verbatim>\<open>source_view.c\<close>): addresses to source lines and symbols, words to assembly, and the views of
    sources.
  \<^item> \<open>Numbers\<close>, \<open>Monitor\<close>, \<open>Session\<close>, \<open>Command_Line\<close> (\<^verbatim>\<open>monitor.c\<close>): numbers and RAM sizes, trace,
    displays and commands, the interactive session and its properties, and \<^verbatim>\<open>monitor_main\<close>, which
    \<^verbatim>\<open>main.c\<close> returns. It connects all parts: options, a loader, the debug table, the machine, then a
    batch run or a session.
  \<^item> \<open>Execution\<close>: a batch run has the exit status that the specification gives the program.
  \<^item> \<open>Runtime\<close> (\<^verbatim>\<open>runtime/memory.c\<close>): \<^verbatim>\<open>memcpy\<close>, \<^verbatim>\<open>memmove\<close>, \<^verbatim>\<open>memset\<close>, \<^verbatim>\<open>memcmp\<close> of guest programs.
    \<open>Guest_Code\<close>: machine code in RAM and rules to execute it. \<open>Startup\<close> (\<^verbatim>\<open>runtime/start.S\<close> and the
    symbols of \<^verbatim>\<open>runtime/link.ld.in\<close>): from the entry to \<^verbatim>\<open>main\<close> and from there to the exit service.
  \<^item> \<open>Demos\<close> (\<^verbatim>\<open>demos/c/\<close>): the two C examples as the guest compiler sees them.

  \<^bold>\<open>How the code is rendered\<close>. A struct is a record, an enumeration a datatype with the same
  constructors, and a function a definition of the same name (where C and HOL or two files clash,
  with a suffix). A stretch of a long function is a definition of its own, composed in the order of
  the code. Guest values have their width and wrap; lengths and indices that the code guards against
  wrapping are \<open>nat\<close>. A NULL pointer is a value, an out-parameter is a result, and each early
  return, refusal and trap is a branch. In the ELF loader an access outside an array is the outcome
  \<open>Bad_Access\<close>.

  \<^bold>\<open>Interfaces\<close>. \<open>sized_cell\<close> (Memory) is what reads and writes of one width promise each other,
  interpreted on the three widths; \<open>widened_cell\<close> and \<open>data_port\<close> (Cpu) derive from it what a load
  or store of the CPU sees. \<open>program_loader\<close> and \<open>image_loader\<close> (Program) are what every loader
  promises its caller, interpreted on the three loaders; \<open>accepted_programs_run\<close> below rests on it.
  \<open>item_reader\<close> (Elf) is what a reader of items promises the loop that calls it, interpreted on those of
  the attributes, the scopes and the vendors' parts.
  \<open>run_invariant\<close> (Machine) lifts a property that steps keep to runs, interpreted on
  well-formedness, on keeping the loaded program, and on reachability. \<open>run_callbacks\<close> (Monitor) is the
  other side of a run, its callbacks, interpreted on those of the monitor, and \<open>quiet_callbacks\<close>
  (Execution) extends it by callbacks that never stop the run. \<open>comparison\<close> (Debug_Info)
  is what sorting and searching need of the two comparison functions.

  \<^bold>\<open>What the lemmas show\<close>. The decoder accepts exactly RV32I; a step has the outcome that the
  specification prescribes, traps included, and a run is a run of the specification; a step that
  does not return OK changes nothing; the step record redoes and undoes its step. Runs respect their
  limit and compose; a reset restores the load after any operations. Each loader accepts exactly the
  files described, and what it accepts is well formed and can run; the ELF loader stays inside the
  file and RAM whatever the bytes are, and its checks of sections and attributes accept the grammar. The debug table is what the DWARF rows say, and its pruned
  binary search finds what a full search finds. The disassembly has the
  mnemonics and operands of the specification, is unambiguous and fits its buffers; a source window
  has the rows described, byte for byte.
  Sessions end, keep the program, stay on its executions and inside RAM; tracing only watches; the exit status of a
  batch run is the one that the specification gives the program. The start-up code hands \<^verbatim>\<open>main\<close> a
  stack, a global pointer and zeroed data, and what \<^verbatim>\<open>main\<close> returns is the exit status of the
  simulator.

  \<^bold>\<open>Bounds and termination\<close>. There is no fuel: loops are recursions on a list, on a counter, or with
  a measure. The run loop has the attempts left under its limit; \<^verbatim>\<open>uleb\<close> and the ELF attributes have
  the bytes left; the binary search has its interval; a session has the input and the signals still
  to come (\<open>pending\<close>), since every round uses up one of them or returns. All are total functions, and
  \<open>session_ends\<close> states the bound for sessions.

  \<^bold>\<open>Parameters\<close>. What \<^verbatim>\<open>libelf\<close> and \<^verbatim>\<open>libdw\<close> answer about a file, as data (Debug_Info). \<^verbatim>\<open>qsort\<close>, with the
  contract of the C standard as a hypothesis, met by an insertion sort in the witnesses. The outcome
  of each allocation. Files, as the bytes to come and whether reading fails. Signals, as a schedule:
  for each time the code looks at the flag or waits for input, whether one arrived since the last
  time; each is assumed to reach the handler. Whether \<^verbatim>\<open>fgets\<close> goes on after a signal or fails. Strings
  from the command line hold no NUL, and \<^verbatim>\<open>strtoull\<close> is modelled on the texts it is called with,
  which start with a digit. The conversions of \<^verbatim>\<open>printf\<close> are modelled, its I/O errors are not.

  \<^bold>\<open>Not modelled\<close>. Which input sections the linker script puts where, and the compiler, assembler and
  linker themselves: the start-up code is modelled as the instructions that its pseudo instructions
  stand for when the linker does not relax them, as the build tool demands, and the compiled \<^verbatim>\<open>main\<close> is
  a hypothesis about the execution of its code. \<^verbatim>\<open>tools/\<close>, the \<^verbatim>\<open>Makefile\<close>, \<^verbatim>\<open>tests/\<close> and the word files in
  \<^verbatim>\<open>demos/\<close> build, test and illustrate the simulator and are not part of it. The release of memory is
  modelled where an owner is reset to its empty value, not as a heap. Where a message names the
  reason in \<^verbatim>\<open>errno\<close>, the reason comes with the file that cannot be opened.
\<close>

section \<open>Properties that span components\<close>

text \<open>
  C3. The status of a batch run is the one that the instruction set gives the program. When the
  options ask for a batch run, the input is loaded and its debug information read, no allocation
  fails and no signal arrives, then the program always produces a status with nothing on the error
  output; and the status is the one of the specification, started at the entry with zero registers
  and the RAM of the input, for the limit on the command line: 124 at the limit, the low byte of a0
  at an exit, 1 at a trap. No part of the way there can change it: not the format of the input, the
  copies of its RAM, the debug table, the trace or the flags of the machine.
\<close>

theorem batch_status_specified:
  assumes "parse_options args (default_options (output_is_terminal env)) = Inr parsed"
    and "check_options parsed = Inr (path, opts)" and "opt_run_batch opts"
    and "open_file env path = Inr f" and "load_input env opts f = Inr p" and "\<not> close_fails env"
    and "debug_info_read (allocates env) (line_sorter env) (symbol_sorter env) (fst (elf_library env))
      (snd (elf_library env)) (Ref p) (Ref zero_debug) = Inr debug"
    and "allocates_copies env = (True, True)" and "\<not> handler_fails env"
    and "True \<notin> set (outside_signals env)"
  shows "(\<exists>out. monitor_main env args = (status, out, '''')) \<longleftrightarrow>
    isa_status (unat (opt_limit opts)) (isa_start p) status"
  using assms by (rule batch_status_isa)

theorem batch_status_specified_witness:
  "\<exists>out. monitor_main sample_environment sample_args = (0, out, '''')"
proof -
  have "isa_status (unat DEFAULT_LIMIT) (isa_start (exit_program\<lparr>prog_format := PROGRAM_BINARY\<rparr>)) 0"
    using exit_status [of 99998] by (simp add: DEFAULT_LIMIT_def isa_start_def)
  then show ?thesis
    using batch_status_specified [OF _ sample_parse(2) sample_environment_simps(7,2) sample_load
        sample_environment_simps(3) sample_debug sample_environment_simps(4,5), of sample_args 0]
      sample_parse(1) by (simp add: sample_environment_simps)
qed

text \<open>
  C4. The result of \<^verbatim>\<open>main\<close> is the exit status. Let a batch run load a program that starts with the
  start-up code, linked as the linker script says. If the instructions of \<^verbatim>\<open>main\<close>, called in the state
  that the start-up code prepares, come back behind the call after \<open>k\<close> steps and leave that code in
  place, and the limit has room for them, then the simulator returns the low byte of what \<^verbatim>\<open>main\<close> left in
  a0, and nothing else.
\<close>

theorem guest_exit_status:
  assumes "parse_options args (default_options (output_is_terminal env)) = Inr parsed"
    and "check_options parsed = Inr (path, opts)" and "opt_run_batch opts"
    and "open_file env path = Inr f" and "load_input env opts f = Inr p" and "\<not> close_fails env"
    and "debug_info_read (allocates env) (line_sorter env) (symbol_sorter env) (fst (elf_library env))
      (snd (elf_library env)) (Ref p) (Ref zero_debug) = Inr debug"
    and "allocates_copies env = (True, True)" and "\<not> handler_fails env"
    and "True \<notin> set (outside_signals env)"
    and "linked (mem_size (prog_memory p)) stack_size l" and "entry p = start_address l"
    and "code_at (ram (isa_start p)) (start_address l) (start_code l)"
    and "(isa_retires ^^ k) (main_called l (isa_start p)) t" and "pc t = start_address l + 56"
    and "code_at (ram t) (start_address l + 56) exit_code"
    and "4 * bss_words l + k + 13 \<le> unat (opt_limit opts)"
  shows "(\<exists>out. monitor_main env args = (status, out, '''')) \<longleftrightarrow> status = uint (get_reg t 10) mod 256"
proof -
  have "\<forall>x<mem_size (prog_memory p). ram (isa_start p) x \<noteq> None" by (simp add: isa_start_def ram_of_def)
  moreover have "pc (isa_start p) = start_address l" using assms(12) by (simp add: isa_start_def)
  ultimately have "isa_status (unat (opt_limit opts)) (isa_start p) (uint (get_reg t 10) mod 256)"
    using assms(11,13-17) by (intro guest_status)
  then show ?thesis unfolding batch_status_isa [OF assms(1-10)] using isa_status_determ by blast
qed

theorem guest_exit_status_witness: "\<exists>out. monitor_main guest_environment guest_args = (42, out, '''')"
proof -
  have env: "output_is_terminal guest_environment = False" "open_file guest_environment ''guest.bin'' = Inr guest_file"
    "\<not> close_fails guest_environment" "allocates_copies guest_environment = (True, True)"
    "\<not> handler_fails guest_environment" "True \<notin> set (outside_signals guest_environment)"
    "opt_run_batch guest_options" "opt_limit guest_options = DEFAULT_LIMIT"
    by (simp_all add: guest_environment_def sample_environment_def guest_options_def default_options_def)
  have debug: "debug_info_read (allocates guest_environment) (line_sorter guest_environment) (symbol_sorter guest_environment)
      (fst (elf_library guest_environment)) (snd (elf_library guest_environment)) (Ref sample_guest) (Ref zero_debug) = Inr zero_debug"
    by (simp add: debug_info_read_def zero_debug_def sample_guest_def image_program_def)
  have guest: "mem_size (prog_memory sample_guest) = 0x2000" "entry sample_guest = start_address sample_layout"
    by (simp_all add: sample_guest_def image_program_def sample_layout_def)
  have bound: "4 * bss_words sample_layout + 2 + 13 \<le> unat (opt_limit guest_options)"
    by (simp add: env(8) DEFAULT_LIMIT_def bss_words_def sample_layout_def)
  have pcs: "start_address sample_layout + 56 = 0x1038" by (simp add: sample_layout_def)
  show ?thesis
    using guest_exit_status [OF guest_parse(1) [folded env(1)] guest_parse(2) env(7,2) guest_load env(3) debug env(4-6),
        where stack_size = "0x800" and l = sample_layout and k = 2 and status = 42 and t = "next_pc_state 0x1038 (set_reg 10 42 (main_called sample_layout (isa_start sample_guest)))"]
      guest guest_main sample_linked sample_code(1) [folded sample_start(2)] bound
    by (simp add: pcs)
qed

text \<open>
  C13. Every program that one of the three loaders accepts can run: the machine accepts it whenever
  its two allocations succeed, and is then well formed, with the program counter at the entry and a
  complete instruction word there to fetch.
\<close>

theorem accepted_programs_run:
  assumes "program_read_words ram_ok (Ref f) size_of_ram l e (Ref old) = Inr p
    \<or> program_read_binary alloc ram_ok (Ref f) size_of_ram l e (Ref old) = Inr p
    \<or> program_read_elf alloc ram_ok (Ref f) size_of_ram (Ref old) = Done p"
  shows "\<exists>x w. machine_load (Ref m) (Ref p) True True = Some x \<and> machine_wf x \<and> m_loaded x
    \<and> program_counter (m_cpu x) = entry p
    \<and> cpu_fetch_instruction (Ref (m_cpu x)) (Ref (m_memory x)) True = Some w"
proof -
  from assms have "program_wf p \<and> memory_read_u32 (Ref (prog_memory p)) (entry p) True \<noteq> None"
    by (elim disjE) (intro conjI; erule words_loader.loads_wf words_loader.loads_fetchable
        binary_loader.loads_wf binary_loader.loads_fetchable elf_loader.loads_wf elf_loader.loads_fetchable)+
  then obtain w where p: "program_wf p" "memory_read_u32 (Ref (prog_memory p)) (entry p) True = Some w" by blast
  then have "machine_load (Ref m) (Ref p) True True = Some (fresh_machine p)"
    using machine_load_eq [of p m True True] by (simp add: program_wf_def)
  moreover have "machine_wf (fresh_machine p)" using p(1) by (rule machine_wf_fresh)
  ultimately show ?thesis using p(2) by (auto simp: fresh_machine_def cpu_fetch_instruction_def)
qed

theorem accepted_programs_run_witness:
  "\<exists>x w. machine_load (Ref zero_machine) (Ref (elf_program sample_file 64)) True True = Some x \<and> machine_wf x
    \<and> m_loaded x \<and> program_counter (m_cpu x) = entry (elf_program sample_file 64)
    \<and> cpu_fetch_instruction (Ref (m_cpu x)) (Ref (m_memory x)) True = Some w"
proof (rule accepted_programs_run [OF disjI2 [OF disjI2]])
  show "program_read_elf (\<lambda>_. True) True (Ref \<lparr>bytes_left = sample_file, read_fails = False\<rparr>) 64 (Ref zero_program)
      = Done (elf_program sample_file 64)"
    using sample_ok sample_size_ok by (subst program_read_elf_iff) simp_all
qed

end
